(* ===== verification/Rust_Prelude.thy ===== *)
theory Rust_Prelude
  imports Main "HOL-Library.Word"
begin

text \<open>
  The fragment of the Rust language and of its standard library that the driver uses:
  fixed-width integers, the pointer-sized integer \<open>usize\<close> of a 64-bit target, \<open>Result\<close> with
  panics made explicit, checked and saturating arithmetic, slices with their bounds checks,
  iteration, and the little- and big-endian byte codecs. Everything is executable.

  Arithmetic that the source leaves unchecked follows the overflow-checking semantics (a wrap
  is a panic). The component theories prove that no such panic is reachable, so that the same
  results hold for a release build, where the operation would wrap.
\<close>

unbundle bit_operations_syntax

section \<open>Types\<close>

type_synonym u8 = "8 word"
type_synonym u16 = "16 word"
type_synonym u32 = "32 word"
type_synonym u64 = "64 word"
type_synonym i32 = "32 word"
type_synonym usize = nat
type_synonym bytes = "u8 list"

named_theorems outcome_simps \<open>inversion of outcome-valued expressions\<close>
named_theorems slice_simps \<open>slices, indexing and in-place writes within bounds\<close>
named_theorems const_simps \<open>the numeric constants of the source\<close>

text \<open>
  \<open>Result<T, E>\<close>, extended with \<^term>\<open>Panic\<close>: an out-of-range slice, a failed \<open>expect\<close> or an
  arithmetic overflow.
\<close>

datatype ('a, 'e) outcome = Ok 'a | Err 'e | Panic

primrec and_then :: "('a, 'e) outcome \<Rightarrow> ('a \<Rightarrow> ('b, 'e) outcome) \<Rightarrow> ('b, 'e) outcome" where
  "and_then (Ok x) f = f x"
| "and_then (Err e) f = Err e"
| "and_then Panic f = Panic"

primrec map_err :: "('e \<Rightarrow> 'f) \<Rightarrow> ('a, 'e) outcome \<Rightarrow> ('a, 'f) outcome" where
  "map_err g (Ok x) = Ok x"
| "map_err g (Err e) = Err (g e)"
| "map_err g Panic = Panic"

primrec map_ok :: "('a \<Rightarrow> 'b) \<Rightarrow> ('a, 'e) outcome \<Rightarrow> ('b, 'e) outcome" where
  "map_ok g (Ok x) = Ok (g x)"
| "map_ok g (Err e) = Err e"
| "map_ok g Panic = Panic"

definition ok_or :: "'a option \<Rightarrow> 'e \<Rightarrow> ('a, 'e) outcome" where
  "ok_or m e = (case m of None \<Rightarrow> Err e | Some x \<Rightarrow> Ok x)"

definition expect :: "'a option \<Rightarrow> ('a, 'e) outcome" where
  "expect m = (case m of None \<Rightarrow> Panic | Some x \<Rightarrow> Ok x)"

primrec is_ok :: "('a, 'e) outcome \<Rightarrow> bool" where
  "is_ok (Ok x) = True"
| "is_ok (Err e) = False"
| "is_ok Panic = False"

text \<open>An early \<open>return Err(e)\<close> under a condition.\<close>

definition ensure :: "bool \<Rightarrow> 'e \<Rightarrow> (unit, 'e) outcome" where
  "ensure b e = (if b then Ok () else Err e)"

section \<open>Integers\<close>

definition usize_max :: nat where [const_simps]: "usize_max = 18446744073709551615"
definition isize_max :: nat where [const_simps]: "isize_max = 9223372036854775807"
definition u64_max :: u64 where [const_simps]: "u64_max = 18446744073709551615"
definition i32_max :: nat where [const_simps]: "i32_max = 2147483647"

definition checked_add :: "usize \<Rightarrow> usize \<Rightarrow> usize option" where
  "checked_add a b = (if a + b \<le> usize_max then Some (a + b) else None)"

definition checked_mul :: "usize \<Rightarrow> usize \<Rightarrow> usize option" where
  "checked_mul a b = (if a * b \<le> usize_max then Some (a * b) else None)"

definition checked_sub :: "usize \<Rightarrow> usize \<Rightarrow> usize option" where
  "checked_sub a b = (if b \<le> a then Some (a - b) else None)"

definition saturating_sub :: "usize \<Rightarrow> usize \<Rightarrow> usize" where
  "saturating_sub a b = a - b"

text \<open>The unchecked operators \<open>+\<close>, \<open>-\<close> and \<open>*\<close> on \<open>usize\<close>.\<close>

definition add_usize :: "usize \<Rightarrow> usize \<Rightarrow> (usize, 'e) outcome" where
  "add_usize a b = (if a + b \<le> usize_max then Ok (a + b) else Panic)"

definition sub_usize :: "usize \<Rightarrow> usize \<Rightarrow> (usize, 'e) outcome" where
  "sub_usize a b = (if b \<le> a then Ok (a - b) else Panic)"

definition mul_usize :: "usize \<Rightarrow> usize \<Rightarrow> (usize, 'e) outcome" where
  "mul_usize a b = (if a * b \<le> usize_max then Ok (a * b) else Panic)"

text \<open>\<open>usize::try_from(u32)\<close> and \<open>c_int::try_from(usize)\<close>.\<close>

definition usize_try_from :: "nat \<Rightarrow> usize option" where
  "usize_try_from n = (if n \<le> usize_max then Some n else None)"

definition i32_try_from :: "nat \<Rightarrow> int option" where
  "i32_try_from n = (if n \<le> i32_max then Some (int n) else None)"

definition saturating_add :: "u64 \<Rightarrow> u64 \<Rightarrow> u64" where
  "saturating_add a b = (if unat a + unat b \<le> unat u64_max then a + b else u64_max)"

text \<open>The unchecked operators \<open>+\<close>, \<open>*\<close> and \<open>%\<close> on \<open>u64\<close>.\<close>

definition add_u64 :: "u64 \<Rightarrow> u64 \<Rightarrow> (u64, 'e) outcome" where
  "add_u64 a b = (if unat a + unat b < 2 ^ 64 then Ok (a + b) else Panic)"

definition mul_u64 :: "u64 \<Rightarrow> u64 \<Rightarrow> (u64, 'e) outcome" where
  "mul_u64 a b = (if unat a * unat b < 2 ^ 64 then Ok (a * b) else Panic)"

definition rem_u64 :: "u64 \<Rightarrow> u64 \<Rightarrow> (u64, 'e) outcome" where
  "rem_u64 a b = (if b = 0 then Panic else Ok (a mod b))"

section \<open>Slices and vectors\<close>

definition index_at :: "'a list \<Rightarrow> usize \<Rightarrow> ('a, 'e) outcome" where
  "index_at xs i = (if i < length xs then Ok (xs ! i) else Panic)"

definition get_at :: "'a list \<Rightarrow> usize \<Rightarrow> 'a option" where
  "get_at xs i = (if i < length xs then Some (xs ! i) else None)"

definition slice :: "'a list \<Rightarrow> usize \<Rightarrow> usize \<Rightarrow> ('a list, 'e) outcome" where
  "slice xs a b = (if a \<le> b \<and> b \<le> length xs then Ok (take (b - a) (drop a xs)) else Panic)"

definition slice_from :: "'a list \<Rightarrow> usize \<Rightarrow> ('a list, 'e) outcome" where
  "slice_from xs a = (if a \<le> length xs then Ok (drop a xs) else Panic)"

definition slice_to :: "'a list \<Rightarrow> usize \<Rightarrow> ('a list, 'e) outcome" where
  "slice_to xs b = (if b \<le> length xs then Ok (take b xs) else Panic)"

text \<open>\<open>xs[a..b].copy_from_slice(ys)\<close> and \<open>xs[i] = y\<close>.\<close>

definition copy_into :: "'a list \<Rightarrow> usize \<Rightarrow> usize \<Rightarrow> 'a list \<Rightarrow> ('a list, 'e) outcome" where
  "copy_into xs a b ys =
     (if a \<le> b \<and> b \<le> length xs \<and> length ys = b - a
      then Ok (take a xs @ ys @ drop b xs) else Panic)"

definition set_at :: "'a list \<Rightarrow> usize \<Rightarrow> 'a \<Rightarrow> ('a list, 'e) outcome" where
  "set_at xs i y = (if i < length xs then Ok (xs[i := y]) else Panic)"

definition starts_with :: "'a list \<Rightarrow> 'a list \<Rightarrow> bool" where
  "starts_with xs p \<longleftrightarrow> take (length p) xs = p"

fun position :: "('a \<Rightarrow> bool) \<Rightarrow> 'a list \<Rightarrow> usize option" where
  "position P [] = None"
| "position P (x # xs) = (if P x then Some 0 else map_option Suc (position P xs))"

text \<open>\<open>enumerate().find(..)\<close>: the first element that satisfies the predicate, with its index.\<close>

fun find_indexed :: "nat \<Rightarrow> ('a \<Rightarrow> bool) \<Rightarrow> 'a list \<Rightarrow> (usize \<times> 'a) option" where
  "find_indexed i P [] = None"
| "find_indexed i P (x # xs) = (if P x then Some (i, x) else find_indexed (Suc i) P xs)"

text \<open>\<open>chunks_exact(n)\<close>: a remainder shorter than \<open>n\<close> is left out.\<close>

function chunks_exact :: "nat \<Rightarrow> 'a list \<Rightarrow> 'a list list" where
  "chunks_exact n xs =
     (if n = 0 \<or> length xs < n then [] else take n xs # chunks_exact n (drop n xs))"
  by pat_completeness auto
termination
  by (relation "measure (\<lambda>(n, xs). length xs)") auto

declare chunks_exact.simps [simp del]

text \<open>A \<open>for\<close> loop whose body may return early or panic.\<close>

fun for_each :: "'a list \<Rightarrow> ('s \<Rightarrow> 'a \<Rightarrow> ('s, 'e) outcome) \<Rightarrow> 's \<Rightarrow> ('s, 'e) outcome" where
  "for_each [] body s = Ok s"
| "for_each (x # xs) body s = and_then (body s x) (for_each xs body)"

section \<open>Byte codecs\<close>

primrec to_le_bytes :: "nat \<Rightarrow> 'w::len word \<Rightarrow> bytes" where
  "to_le_bytes 0 w = []"
| "to_le_bytes (Suc k) w = ucast w # to_le_bytes k (drop_bit 8 w)"

primrec from_le_bytes :: "bytes \<Rightarrow> 'w::len word" where
  "from_le_bytes [] = 0"
| "from_le_bytes (b # bs) = ucast b OR push_bit 8 (from_le_bytes bs)"

definition from_be_bytes :: "bytes \<Rightarrow> 'w::len word" where
  "from_be_bytes bs = from_le_bytes (rev bs)"

definition to_be_bytes :: "nat \<Rightarrow> 'w::len word \<Rightarrow> bytes" where
  "to_be_bytes k w = rev (to_le_bytes k w)"

text \<open>The bytes of an ASCII literal \<open>b"..."\<close>.\<close>

definition ascii :: "string \<Rightarrow> bytes" where
  "ascii s = map (\<lambda>c. of_nat (of_char c)) s"

section \<open>Lemmas: outcomes\<close>

lemma and_then_iffs [outcome_simps]:
  "and_then m f = Ok y \<longleftrightarrow> (\<exists>x. m = Ok x \<and> f x = Ok y)"
  "and_then m f = Err e \<longleftrightarrow> m = Err e \<or> (\<exists>x. m = Ok x \<and> f x = Err e)"
  "and_then m f = Panic \<longleftrightarrow> m = Panic \<or> (\<exists>x. m = Ok x \<and> f x = Panic)"
  by (cases m; auto)+

lemma map_err_iffs [outcome_simps]:
  "map_err g m = Ok x \<longleftrightarrow> m = Ok x"
  "map_err g m = Err e \<longleftrightarrow> (\<exists>d. m = Err d \<and> e = g d)"
  "map_err g m = Panic \<longleftrightarrow> m = Panic"
  by (cases m; auto)+

lemma map_ok_iffs [outcome_simps]:
  "map_ok g m = Ok y \<longleftrightarrow> (\<exists>x. m = Ok x \<and> y = g x)"
  "map_ok g m = Err e \<longleftrightarrow> m = Err e"
  "map_ok g m = Panic \<longleftrightarrow> m = Panic"
  by (cases m; auto)+

lemma ok_or_iffs [outcome_simps]:
  "ok_or m e = Ok x \<longleftrightarrow> m = Some x"
  "ok_or m e = Err d \<longleftrightarrow> m = None \<and> d = e"
  "ok_or m e \<noteq> Panic"
  by (auto simp: ok_or_def split: option.splits)

lemma ok_or_simps [simp]: "ok_or (Some x) e = Ok x" "ok_or None e = Err e"
  by (simp_all add: ok_or_def)

lemma expect_simps [simp]: "expect (Some x) = Ok x" "expect None = Panic"
  by (simp_all add: expect_def)

lemma ensure_iffs [outcome_simps]:
  "ensure b e = Ok u \<longleftrightarrow> b"
  "ensure b e = Err d \<longleftrightarrow> \<not> b \<and> d = e"
  "ensure b e \<noteq> Panic"
  by (auto simp: ensure_def)

lemma ensure_simps [simp]: "ensure True e = Ok ()" "ensure False e = Err e"
  by (simp_all add: ensure_def)

lemma is_ok_iff: "is_ok m \<longleftrightarrow> (\<exists>x. m = Ok x)"
  by (cases m) auto

lemma and_then_cong [fundef_cong]:
  "m = m' \<Longrightarrow> (\<And>x. m' = Ok x \<Longrightarrow> f x = g x) \<Longrightarrow> and_then m f = and_then m' g"
  by (cases m') auto

lemma and_then_assoc: "and_then (and_then m f) g = and_then m (\<lambda>x. and_then (f x) g)"
  by (cases m) auto

section \<open>Lemmas: arithmetic\<close>

lemma checked_iffs [outcome_simps]:
  "checked_add a b = Some c \<longleftrightarrow> a + b \<le> usize_max \<and> c = a + b"
  "checked_add a b = None \<longleftrightarrow> usize_max < a + b"
  "checked_mul a b = Some c \<longleftrightarrow> a * b \<le> usize_max \<and> c = a * b"
  "checked_mul a b = None \<longleftrightarrow> usize_max < a * b"
  "checked_sub a b = Some c \<longleftrightarrow> b \<le> a \<and> c = a - b"
  "checked_sub a b = None \<longleftrightarrow> a < b"
  by (auto simp: checked_add_def checked_mul_def checked_sub_def)

lemma add_usize_iffs [outcome_simps]:
  "add_usize a b = Ok c \<longleftrightarrow> a + b \<le> usize_max \<and> c = a + b"
  "add_usize a b \<noteq> Err e"
  "sub_usize a b = Ok c \<longleftrightarrow> b \<le> a \<and> c = a - b"
  "sub_usize a b \<noteq> Err e"
  "mul_usize a b = Ok c \<longleftrightarrow> a * b \<le> usize_max \<and> c = a * b"
  "mul_usize a b \<noteq> Err e"
  by (auto simp: add_usize_def sub_usize_def mul_usize_def)

lemma saturating_add_unat:
  "unat (saturating_add a b) = min (unat a + unat b) (unat u64_max)"
  by (auto simp: saturating_add_def const_simps unat_word_ariths min_def)

lemma unat_le_u64_max: "unat (a :: u64) \<le> unat u64_max"
  using unsigned_less [of a, where 'a = nat] by (simp add: const_simps)

lemma saturating_add_1: "unat (saturating_add a 1) = min (Suc (unat a)) (unat u64_max)"
  by (simp add: saturating_add_unat)

section \<open>Lemmas: slices\<close>

lemma slice_Ok [slice_simps]:
  "a \<le> b \<Longrightarrow> b \<le> length xs \<Longrightarrow> slice xs a b = Ok (take (b - a) (drop a xs))"
  "a \<le> length xs \<Longrightarrow> slice_from xs a = Ok (drop a xs)"
  "b \<le> length xs \<Longrightarrow> slice_to xs b = Ok (take b xs)"
  "i < length xs \<Longrightarrow> index_at xs i = Ok (xs ! i)"
  "i < length xs \<Longrightarrow> set_at xs i y = Ok (xs[i := y])"
  "a \<le> b \<Longrightarrow> b \<le> length xs \<Longrightarrow> length ys = b - a \<Longrightarrow>
     copy_into xs a b ys = Ok (take a xs @ ys @ drop b xs)"
  by (simp_all add: slice_def slice_from_def slice_to_def index_at_def set_at_def copy_into_def)

lemma slice_iffs [outcome_simps]:
  "slice xs a b = Ok ys \<longleftrightarrow> a \<le> b \<and> b \<le> length xs \<and> ys = take (b - a) (drop a xs)"
  "slice xs a b \<noteq> Err e"
  "slice xs a b = Panic \<longleftrightarrow> \<not> (a \<le> b \<and> b \<le> length xs)"
  "slice_from xs a = Ok ys \<longleftrightarrow> a \<le> length xs \<and> ys = drop a xs"
  "slice_from xs a \<noteq> Err e"
  "slice_from xs a = Panic \<longleftrightarrow> length xs < a"
  "slice_to xs b = Ok ys \<longleftrightarrow> b \<le> length xs \<and> ys = take b xs"
  "slice_to xs b \<noteq> Err e"
  "slice_to xs b = Panic \<longleftrightarrow> length xs < b"
  "index_at xs i = Ok y \<longleftrightarrow> i < length xs \<and> y = xs ! i"
  "index_at xs i \<noteq> Err e"
  "index_at xs i = Panic \<longleftrightarrow> length xs \<le> i"
  by (auto simp: slice_def slice_from_def slice_to_def index_at_def)

lemma get_at_iffs [outcome_simps]:
  "get_at xs i = Some y \<longleftrightarrow> i < length xs \<and> y = xs ! i"
  "get_at xs i = None \<longleftrightarrow> length xs \<le> i"
  by (auto simp: get_at_def)

lemma position_Some:
  "position P xs = Some i \<longleftrightarrow>
     i < length xs \<and> P (xs ! i) \<and> (\<forall>j < i. \<not> P (xs ! j))"
proof (induction xs arbitrary: i)
  case Nil
  then show ?case by simp
next
  case (Cons x xs)
  show ?case
    by (cases i) (auto simp: Cons.IH less_Suc_eq_0_disj)
qed

lemma position_None: "position P xs = None \<longleftrightarrow> (\<forall>x \<in> set xs. \<not> P x)"
  by (induction xs) auto

lemma position_append:
  "position P (xs @ ys) =
     (case position P xs of Some i \<Rightarrow> Some i
      | None \<Rightarrow> map_option (\<lambda>i. length xs + i) (position P ys))"
  by (induction xs) (auto split: option.splits simp: option.map_comp map_option_case)

lemma find_indexed_None: "find_indexed i P xs = None \<longleftrightarrow> (\<forall>x \<in> set xs. \<not> P x)"
  by (induction xs arbitrary: i) auto

lemma find_indexed_Some:
  "find_indexed i P xs = Some (j, x) \<longleftrightarrow>
     (\<exists>k < length xs. j = i + k \<and> x = xs ! k \<and> P x \<and> (\<forall>l < k. \<not> P (xs ! l)))"
proof (induction xs arbitrary: i)
  case Nil
  then show ?case by simp
next
  case (Cons y ys)
  show ?case
    by (auto simp: Cons.IH Ex_less_Suc2 All_less_Suc2)
qed

lemma for_each_append:
  "for_each (xs @ ys) body s = and_then (for_each xs body s) (for_each ys body)"
proof (induction xs arbitrary: s)
  case (Cons x xs)
  then show ?case by (cases "body s x") auto
qed simp

text \<open>The invariant rule: a body that keeps the invariant and succeeds under it never stops early.\<close>

lemma for_each_invariant:
  assumes "I 0 s"
    and "\<And>i s. i < length xs \<Longrightarrow> I i s \<Longrightarrow> \<exists>s'. body s (xs ! i) = Ok s' \<and> I (Suc i) s'"
  shows "\<exists>s'. for_each xs body s = Ok s' \<and> I (length xs) s'"
  using assms
proof (induction xs arbitrary: s I)
  case Nil
  then show ?case by simp
next
  case (Cons x xs)
  from Cons.prems(2) [of 0 s] Cons.prems(1)
  obtain s1 where s1: "body s x = Ok s1" "I (Suc 0) s1" by auto
  have "\<exists>s'. for_each xs body s1 = Ok s' \<and> I (Suc (length xs)) s'"
    by (rule Cons.IH [where I = "\<lambda>i. I (Suc i)"]) (use s1 Cons.prems(2) in force)+
  with s1 show ?case by simp
qed

lemma chunks_exact_Nil [simp]: "chunks_exact n [] = []"
  by (subst chunks_exact.simps) auto

lemma chunks_exact_step:
  "0 < n \<Longrightarrow> length xs = n \<Longrightarrow> chunks_exact n (xs @ ys) = xs # chunks_exact n ys"
  by (subst chunks_exact.simps) simp

lemma chunks_exact_short: "length xs < n \<Longrightarrow> chunks_exact n xs = []"
  by (subst chunks_exact.simps) simp

lemma chunks_exact_length: "ys \<in> set (chunks_exact n xs) \<Longrightarrow> length ys = n"
proof (induction n xs rule: chunks_exact.induct)
  case (1 n xs)
  then show ?case
    by (subst (asm) (2) chunks_exact.simps) (auto split: if_splits)
qed

lemma chunks_exact_concat:
  "0 < n \<Longrightarrow> (\<And>xs. xs \<in> set xss \<Longrightarrow> length xs = n) \<Longrightarrow> chunks_exact n (concat xss) = xss"
  by (induction xss) (simp_all add: chunks_exact_step)

lemma length_chunks: "0 < n \<Longrightarrow> length (chunks_exact n xs) = length xs div n"
proof (induction n xs rule: chunks_exact.induct)
  case (1 n xs)
  then show ?case by (subst chunks_exact.simps) (auto simp: le_div_geq)
qed

section \<open>Lemmas: codecs\<close>

lemma length_to_le_bytes [simp]: "length (to_le_bytes k w) = k"
  by (induction k arbitrary: w) auto

lemma length_to_be_bytes [simp]: "length (to_be_bytes k w) = k"
  by (simp add: to_be_bytes_def)

lemma from_to_le_bytes: "from_le_bytes (to_le_bytes k w) = take_bit (8 * k) (w :: 'w::len word)"
proof (induction k arbitrary: w)
  case 0
  then show ?case by simp
next
  case (Suc k)
  show ?case
    by (rule bit_eqI) (auto simp: Suc.IH bit_simps)
qed

lemma drop_bit_from_le_bytes:
  assumes "8 * length (b # bs) \<le> LENGTH('w)"
  shows "drop_bit 8 (from_le_bytes (b # bs) :: 'w::len word) = from_le_bytes bs"
    and "ucast (from_le_bytes (b # bs) :: 'w::len word) = b"
proof -
  have high: "\<not> bit (from_le_bytes bs :: 'w word) n" if "8 * length bs \<le> n" for n
    using that
  proof (induction bs arbitrary: n)
    case Nil
    then show ?case by simp
  next
    case (Cons c cs)
    have "\<not> bit c n" using Cons.prems bit_imp_le_length [of c n] by auto
    with Cons show ?case by (auto simp: bit_simps)
  qed
  show "drop_bit 8 (from_le_bytes (b # bs) :: 'w word) = from_le_bytes bs"
  proof (rule bit_word_eqI)
    fix n
    assume "n < LENGTH('w)"
    have "\<not> bit b (8 + n)" using bit_imp_le_length [of b "8 + n"] by auto
    moreover have "8 + n < LENGTH('w)" if "bit (from_le_bytes bs :: 'w word) n"
      using that high [of n] assms by (cases "8 * length bs \<le> n") auto
    ultimately show "bit (drop_bit 8 (from_le_bytes (b # bs) :: 'w word)) n \<longleftrightarrow>
        bit (from_le_bytes bs :: 'w word) n"
      by (auto simp: bit_simps)
  qed
  show "ucast (from_le_bytes (b # bs) :: 'w word) = b"
    by (rule bit_eqI) (use assms in \<open>auto simp: bit_simps\<close>)
qed

lemma to_from_le_bytes:
  "length bs = k \<Longrightarrow> 8 * k \<le> LENGTH('w) \<Longrightarrow> to_le_bytes k (from_le_bytes bs :: 'w::len word) = bs"
proof (induction bs arbitrary: k)
  case Nil
  then show ?case by simp
next
  case (Cons b bs)
  then show ?case
    using drop_bit_from_le_bytes [of b bs, where 'w = 'w]
    by (auto simp del: from_le_bytes.simps)
qed

subsection \<open>The contract of a fixed-width codec\<close>

text \<open>
  What every reader and writer of a packet field relies on: the encoding has a fixed width and
  is inverted by the decoder, in both directions. The packet builders and parsers use the
  lemmas proved here once; the interpretations below discharge the laws for the integer
  encodings of the source.
\<close>

locale byte_codec =
  fixes enc :: "'v \<Rightarrow> bytes"
    and dec :: "bytes \<Rightarrow> 'v"
    and width :: nat
  assumes length_enc: "length (enc v) = width"
    and dec_enc: "dec (enc v) = v"
    and enc_dec: "length bs = width \<Longrightarrow> enc (dec bs) = bs"
begin

lemma enc_inject: "enc v = enc w \<longleftrightarrow> v = w"
  using dec_enc by metis

lemma dec_inject: "length bs = width \<Longrightarrow> length cs = width \<Longrightarrow> dec bs = dec cs \<longleftrightarrow> bs = cs"
  using enc_dec by metis

lemma dec_eq_iff: "length bs = width \<Longrightarrow> dec bs = v \<longleftrightarrow> bs = enc v"
  using enc_dec dec_enc by metis

text \<open>Reading a field back where it was written.\<close>

lemma read_field: "length pre = n \<Longrightarrow> dec (take width (drop n (pre @ enc v @ post))) = v"
  by (simp add: length_enc dec_enc)

text \<open>A field that reads as a value is that value's encoding in place.\<close>

lemma field_layout:
  assumes "n + width \<le> length xs" and "dec (take width (drop n xs)) = v"
  shows "xs = take n xs @ enc v @ drop (n + width) xs"
proof -
  have "enc v = take width (drop n xs)"
    using assms by (auto simp: enc_dec)
  then show ?thesis
    by (metis add.commute append_take_drop_id drop_drop)
qed

lemma enc_field: "n + width \<le> length xs \<Longrightarrow> enc (dec (take width (drop n xs))) = take width (drop n xs)"
  by (simp add: enc_dec)

end

interpretation u32_le: byte_codec "to_le_bytes 4 :: u32 \<Rightarrow> bytes" from_le_bytes 4
  by unfold_locales (simp_all add: from_to_le_bytes to_from_le_bytes take_bit_word_eq_self)

interpretation u64_le: byte_codec "to_le_bytes 8 :: u64 \<Rightarrow> bytes" from_le_bytes 8
  by unfold_locales (simp_all add: from_to_le_bytes to_from_le_bytes take_bit_word_eq_self)

interpretation u16_be: byte_codec "to_be_bytes 2 :: u16 \<Rightarrow> bytes" from_be_bytes 2
  by unfold_locales (simp_all add: to_be_bytes_def from_be_bytes_def from_to_le_bytes to_from_le_bytes take_bit_word_eq_self)

subsection \<open>The contract of a strict decoder\<close>

text \<open>
  A strict decoder accepts exactly the inputs of one layout, packets or texts, and never panics.
  Whoever calls one relies on these two laws only: the decoded value is then determined by the
  input, and every other input is rejected with an error.
\<close>

locale strict_decoder =
  fixes parse :: "'p \<Rightarrow> ('a, 'e) outcome"
    and layout :: "'a \<Rightarrow> 'p \<Rightarrow> bool"
  assumes parse_Ok_iff: "parse p = Ok a \<longleftrightarrow> layout a p"
    and no_panic: "parse p \<noteq> Panic"
begin

lemma layout_unique: "layout a p \<Longrightarrow> layout b p \<Longrightarrow> a = b"
  by (metis parse_Ok_iff outcome.inject(1))

lemma rejects_iff: "(\<exists>e. parse p = Err e) \<longleftrightarrow> (\<forall>a. \<not> layout a p)"
  using no_panic [of p] by (cases "parse p") (auto simp: parse_Ok_iff [symmetric])

lemma accepts_iff: "is_ok (parse p) \<longleftrightarrow> (\<exists>a. layout a p)"
  by (simp add: is_ok_iff parse_Ok_iff)

end

end
