(* ===== verification/Rust_Text.thy ===== *)
theory Rust_Text
  imports Rust_Prelude
begin

text \<open>
  Text as the source uses it. A Rust \<open>str\<close> is its UTF-8 byte sequence, which is what a HOL
  \<^typ>\<open>string\<close> is (one \<^typ>\<open>char\<close> per byte), so lengths, prefixes and literals agree. The
  theory holds the integer formats of \<open>format!\<close>, \<open>str::parse\<close> for unsigned integers, UTF-8
  validation and decoding, and \<open>str::trim\<close>, with their round trips.
\<close>

type_synonym str = string

section \<open>Printing integers\<close>

definition digit_char :: "nat \<Rightarrow> char" where
  "digit_char d = (if d < 10 then char_of (48 + d) else char_of (87 + d))"

fun show_radix :: "nat \<Rightarrow> nat \<Rightarrow> string" where
  "show_radix b n =
     (if b < 2 \<or> n < b then [digit_char n] else show_radix b (n div b) @ [digit_char (n mod b)])"

declare show_radix.simps [simp del]

abbreviation show_nat :: "nat \<Rightarrow> string" where
  "show_nat \<equiv> show_radix 10"

abbreviation show_hex :: "nat \<Rightarrow> string" where
  "show_hex \<equiv> show_radix 16"

definition zero_pad :: "nat \<Rightarrow> string \<Rightarrow> string" where
  "zero_pad w s = replicate (w - length s) (CHR ''0'') @ s"

text \<open>\<open>{:0w x}\<close>, and \<open>{:#0w x}\<close>, whose width counts the two characters of the prefix.\<close>

definition show_hex_pad :: "nat \<Rightarrow> nat \<Rightarrow> string" where
  "show_hex_pad w n = zero_pad w (show_hex n)"

definition show_hex_alt :: "nat \<Rightarrow> nat \<Rightarrow> string" where
  "show_hex_alt w n = ''0x'' @ zero_pad (w - 2) (show_hex n)"

definition show_u8 :: "u8 \<Rightarrow> string" where "show_u8 w = show_nat (unat w)"
definition show_u32 :: "u32 \<Rightarrow> string" where "show_u32 w = show_nat (unat w)"
definition show_u64 :: "u64 \<Rightarrow> string" where "show_u64 w = show_nat (unat w)"

definition show_bool :: "bool \<Rightarrow> string" where
  "show_bool b = (if b then ''true'' else ''false'')"

section \<open>Parsing integers\<close>

definition is_ascii_digit :: "char \<Rightarrow> bool" where
  "is_ascii_digit c \<longleftrightarrow> 48 \<le> (of_char c :: nat) \<and> (of_char c :: nat) \<le> 57"

fun parse_digits :: "nat \<Rightarrow> nat \<Rightarrow> string \<Rightarrow> nat option" where
  "parse_digits maximum acc [] = Some acc"
| "parse_digits maximum acc (c # cs) =
     (if is_ascii_digit c
      then let v = acc * 10 + (of_char c - 48)
           in if v \<le> maximum then parse_digits maximum v cs else None
      else None)"

text \<open>
  \<open>str::parse\<close> for an unsigned type with the given largest value: one leading plus sign is
  accepted, an empty string, a lone sign, a non-digit and an overflow are errors.
\<close>

definition parse_unsigned :: "nat \<Rightarrow> str \<Rightarrow> nat option" where
  "parse_unsigned maximum s =
     (case s of [] \<Rightarrow> None
      | c # cs \<Rightarrow>
          if c = CHR ''+'' then (if cs = [] then None else parse_digits maximum 0 cs)
          else parse_digits maximum 0 s)"

definition parse_u8 :: "str \<Rightarrow> u8 option" where
  "parse_u8 s = map_option of_nat (parse_unsigned 255 s)"

definition parse_u32 :: "str \<Rightarrow> u32 option" where
  "parse_u32 s = map_option of_nat (parse_unsigned 4294967295 s)"

definition parse_u64 :: "str \<Rightarrow> u64 option" where
  "parse_u64 s = map_option of_nat (parse_unsigned 18446744073709551615 s)"

definition parse_usize :: "str \<Rightarrow> usize option" where
  "parse_usize s = parse_unsigned usize_max s"

section \<open>UTF-8\<close>

definition is_cont :: "nat \<Rightarrow> bool" where
  "is_cont b \<longleftrightarrow> 128 \<le> b \<and> b \<le> 191"

definition is_scalar :: "nat \<Rightarrow> bool" where
  "is_scalar c \<longleftrightarrow> c < 55296 \<or> 57344 \<le> c \<and> c < 1114112"

definition utf8_encode_char :: "nat \<Rightarrow> nat list" where
  "utf8_encode_char c =
     (if c < 128 then [c]
      else if c < 2048 then [192 + c div 64, 128 + c mod 64]
      else if c < 65536 then [224 + c div 4096, 128 + c div 64 mod 64, 128 + c mod 64]
      else [240 + c div 262144, 128 + c div 4096 mod 64, 128 + c div 64 mod 64, 128 + c mod 64])"

definition second_of_three :: "nat \<Rightarrow> nat \<Rightarrow> bool" where
  "second_of_three a b \<longleftrightarrow>
     (if a = 224 then 160 \<le> b \<and> b \<le> 191 else if a = 237 then 128 \<le> b \<and> b \<le> 159 else is_cont b)"

definition second_of_four :: "nat \<Rightarrow> nat \<Rightarrow> bool" where
  "second_of_four a b \<longleftrightarrow>
     (if a = 240 then 144 \<le> b \<and> b \<le> 191 else if a = 244 then 128 \<le> b \<and> b \<le> 143 else is_cont b)"

text \<open>One step of the validating decoder: the next scalar value and the bytes after it.\<close>

definition utf8_next :: "nat list \<Rightarrow> (nat \<times> nat list) option" where
  "utf8_next xs =
     (case xs of
        [] \<Rightarrow> None
      | a # r1 \<Rightarrow>
          if a < 128 then Some (a, r1)
          else (case r1 of [] \<Rightarrow> None
            | b # r2 \<Rightarrow>
                if 194 \<le> a \<and> a \<le> 223 then
                  (if is_cont b then Some ((a - 192) * 64 + (b - 128), r2) else None)
                else (case r2 of [] \<Rightarrow> None
                  | c # r3 \<Rightarrow>
                      if 224 \<le> a \<and> a \<le> 239 then
                        (if second_of_three a b \<and> is_cont c
                         then Some ((a - 224) * 4096 + (b - 128) * 64 + (c - 128), r3) else None)
                      else (case r3 of [] \<Rightarrow> None
                        | d # r4 \<Rightarrow>
                            if 240 \<le> a \<and> a \<le> 244 \<and> second_of_four a b \<and> is_cont c \<and> is_cont d
                            then Some ((a - 240) * 262144 + (b - 128) * 4096
                                         + (c - 128) * 64 + (d - 128), r4)
                            else None))))"

lemma utf8_next_shorter: "utf8_next xs = Some (c, ys) \<Longrightarrow> length ys < length xs"
  by (auto simp: utf8_next_def split: list.splits if_splits)

function utf8_decode :: "nat list \<Rightarrow> nat list option" where
  "utf8_decode xs =
     (if xs = [] then Some []
      else case utf8_next xs of None \<Rightarrow> None
        | Some (c, ys) \<Rightarrow> map_option ((#) c) (utf8_decode ys))"
  by pat_completeness auto
termination
  by (relation "measure length") (auto dest: utf8_next_shorter)

declare utf8_decode.simps [simp del]

definition from_utf8 :: "bytes \<Rightarrow> str option" where
  "from_utf8 bs =
     (if utf8_decode (map unat bs) = None then None else Some (map (\<lambda>b. char_of (unat b)) bs))"

definition valid_str :: "str \<Rightarrow> bool" where
  "valid_str s \<longleftrightarrow> utf8_decode (map of_char s) \<noteq> None"

text \<open>\<open>str::chars\<close>; a \<open>str\<close> is valid UTF-8 by the language's own invariant.\<close>

definition chars :: "str \<Rightarrow> nat list" where
  "chars s = (case utf8_decode (map of_char s) of Some cs \<Rightarrow> cs | None \<Rightarrow> [])"

definition utf8_encode :: "nat list \<Rightarrow> str" where
  "utf8_encode cs = map char_of (concat (map utf8_encode_char cs))"

text \<open>\<open>String::from_utf8_lossy\<close>: each maximal prefix of an ill-formed sequence becomes U+FFFD.\<close>

definition invalid_length :: "nat list \<Rightarrow> nat" where
  "invalid_length xs =
     (case xs of
        a # b # r \<Rightarrow>
          if 224 \<le> a \<and> a \<le> 239 \<and> second_of_three a b then 2
          else if 240 \<le> a \<and> a \<le> 244 \<and> second_of_four a b
          then (case r of c # _ \<Rightarrow> if is_cont c then 3 else 2 | [] \<Rightarrow> 2)
          else 1
      | _ \<Rightarrow> 1)"

lemma invalid_length_pos: "0 < invalid_length xs"
  by (auto simp: invalid_length_def split: list.split)

function utf8_lossy :: "nat list \<Rightarrow> nat list" where
  "utf8_lossy xs =
     (if xs = [] then []
      else case utf8_next xs of
          Some (c, ys) \<Rightarrow> c # utf8_lossy ys
        | None \<Rightarrow> 65533 # utf8_lossy (drop (invalid_length xs) xs))"
  by pat_completeness auto
termination
  by (relation "measure length") (auto dest: utf8_next_shorter simp: invalid_length_pos)

declare utf8_lossy.simps [simp del]

definition from_utf8_lossy :: "bytes \<Rightarrow> str" where
  "from_utf8_lossy bs = utf8_encode (utf8_lossy (map unat bs))"

text \<open>
  The \<open>{:?}\<close> form of a character and of a string. Which characters beyond ASCII are printable is a
  Unicode table, given as a predicate; \<open>q\<close> is the quote that has to be escaped.
\<close>

definition escape_debug :: "(nat \<Rightarrow> bool) \<Rightarrow> nat \<Rightarrow> nat \<Rightarrow> string" where
  "escape_debug printable q c =
     (if c = 0 then [CHR 0x5C, CHR ''0'']
      else if c = 9 then [CHR 0x5C, CHR ''t'']
      else if c = 13 then [CHR 0x5C, CHR ''r'']
      else if c = 10 then [CHR 0x5C, CHR ''n'']
      else if c = 92 \<or> c = q then [CHR 0x5C, char_of c]
      else if (if c < 128 then 32 \<le> c \<and> c < 127 else printable c) then utf8_encode [c]
      else [CHR 0x5C, CHR ''u'', CHR 0x7B] @ show_hex c @ [CHR 0x7D])"

definition debug_char :: "(nat \<Rightarrow> bool) \<Rightarrow> nat \<Rightarrow> string" where
  "debug_char printable c = [CHR 0x27] @ escape_debug printable 39 c @ [CHR 0x27]"

definition debug_str :: "(nat \<Rightarrow> bool) \<Rightarrow> str \<Rightarrow> string" where
  "debug_str printable s = [CHR 0x22] @ concat (map (escape_debug printable 34) (chars s)) @ [CHR 0x22]"

section \<open>Character classes and trimming\<close>

definition is_ascii_whitespace :: "nat \<Rightarrow> bool" where
  "is_ascii_whitespace c \<longleftrightarrow> c \<in> {9, 10, 12, 13, 32}"

definition is_ascii_hexdigit :: "nat \<Rightarrow> bool" where
  "is_ascii_hexdigit c \<longleftrightarrow> 48 \<le> c \<and> c \<le> 57 \<or> 65 \<le> c \<and> c \<le> 70 \<or> 97 \<le> c \<and> c \<le> 102"

definition to_digit_16 :: "nat \<Rightarrow> nat option" where
  "to_digit_16 c =
     (if 48 \<le> c \<and> c \<le> 57 then Some (c - 48)
      else if 65 \<le> c \<and> c \<le> 70 then Some (c - 55)
      else if 97 \<le> c \<and> c \<le> 102 then Some (c - 87)
      else None)"

text \<open>The Unicode \<open>White_Space\<close> property, which \<open>char::is_whitespace\<close> tests.\<close>

definition is_whitespace :: "nat \<Rightarrow> bool" where
  "is_whitespace c \<longleftrightarrow>
     9 \<le> c \<and> c \<le> 13 \<or> c = 32 \<or> c = 133 \<or> c = 160 \<or> c = 5760 \<or> 8192 \<le> c \<and> c \<le> 8202
     \<or> c = 8232 \<or> c = 8233 \<or> c = 8239 \<or> c = 8287 \<or> c = 12288"

definition trim :: "str \<Rightarrow> str" where
  "trim s = utf8_encode (rev (dropWhile is_whitespace (rev (dropWhile is_whitespace (chars s)))))"

definition strip_prefix :: "str \<Rightarrow> str \<Rightarrow> str option" where
  "strip_prefix p s = (if starts_with s p then Some (drop (length p) s) else None)"

definition strip_suffix :: "str \<Rightarrow> str \<Rightarrow> str option" where
  "strip_suffix p s =
     (if length p \<le> length s \<and> drop (length s - length p) s = p
      then Some (take (length s - length p) s) else None)"

section \<open>Lemmas: integers\<close>

lemma of_char_digit: "d < 10 \<Longrightarrow> (of_char (digit_char d) :: nat) = 48 + d"
  by (simp add: digit_char_def)

lemma is_ascii_digit_digit_char [simp]: "d < 10 \<Longrightarrow> is_ascii_digit (digit_char d)"
  by (simp add: is_ascii_digit_def of_char_digit)

lemma show_radix_small: "n < b \<Longrightarrow> show_radix b n = [digit_char n]"
  by (subst show_radix.simps) simp

lemma show_radix_big:
  "2 \<le> b \<Longrightarrow> b \<le> n \<Longrightarrow> show_radix b n = show_radix b (n div b) @ [digit_char (n mod b)]"
  by (subst show_radix.simps) simp

lemma show_radix_nonempty [simp]: "show_radix b n \<noteq> []"
  by (subst show_radix.simps) simp

lemma length_show_radix_le:
  "2 \<le> b \<Longrightarrow> 0 < k \<Longrightarrow> length (show_radix b n) \<le> k \<longleftrightarrow> n < b ^ k"
proof (induction k arbitrary: n)
  case 0
  then show ?case by simp
next
  case (Suc k)
  show ?case
  proof (cases "n < b")
    case True
    moreover have "b \<le> b ^ Suc k" using Suc.prems by simp
    ultimately show ?thesis by (simp add: show_radix_small del: power_Suc)
  next
    case False
    show ?thesis
    proof (cases k)
      case 0
      with False Suc.prems show ?thesis by (simp add: show_radix_big)
    next
      case (Suc j)
      have "length (show_radix b (n div b)) \<le> k \<longleftrightarrow> n div b < b ^ k"
        using Suc.IH [of "n div b"] Suc Suc.prems \<open>2 \<le> b\<close> by simp
      also have "\<dots> \<longleftrightarrow> n < b ^ Suc k"
        using Suc.prems \<open>2 \<le> b\<close> by (simp add: div_less_iff_less_mult mult.commute)
      finally show ?thesis
        using False \<open>2 \<le> b\<close> by (simp add: show_radix_big del: power_Suc)
    qed
  qed
qed

lemma show_nat_digits: "c \<in> set (show_nat n) \<Longrightarrow> is_ascii_digit c"
proof (induction n rule: less_induct)
  case (less n)
  show ?case
  proof (cases "n < 10")
    case True
    with less.prems show ?thesis by (simp add: show_radix_small)
  next
    case False
    with less.prems have "c \<in> set (show_nat (n div 10)) \<or> c = digit_char (n mod 10)"
      by (auto simp: show_radix_big)
    with less.IH [of "n div 10"] False show ?thesis by auto
  qed
qed

lemma parse_digits_append:
  "parse_digits m a (s @ t) =
     (case parse_digits m a s of None \<Rightarrow> None | Some v \<Rightarrow> parse_digits m v t)"
  by (induction s arbitrary: a) (auto simp: Let_def)

lemma parse_digits_show: "n \<le> m \<Longrightarrow> parse_digits m 0 (show_nat n) = Some n"
proof (induction n rule: less_induct)
  case (less n)
  show ?case
  proof (cases "n < 10")
    case True
    with less.prems show ?thesis by (simp add: show_radix_small of_char_digit)
  next
    case False
    then have "parse_digits m 0 (show_nat (n div 10)) = Some (n div 10)"
      using less by simp
    with False less.prems show ?thesis
      by (simp add: show_radix_big parse_digits_append of_char_digit)
  qed
qed

lemma parse_unsigned_show: "n \<le> m \<Longrightarrow> parse_unsigned m (show_nat n) = Some n"
proof -
  assume le: "n \<le> m"
  obtain c cs where s: "show_nat n = c # cs"
    using show_radix_nonempty [of 10 n] by (cases "show_nat n") auto
  have "is_ascii_digit c" using show_nat_digits [of c n] s by simp
  then have "c \<noteq> CHR ''+''" by (auto simp: is_ascii_digit_def)
  then show ?thesis
    using parse_digits_show [OF le] by (simp add: parse_unsigned_def s)
qed

lemma parse_digits_bound: "parse_digits m a s = Some v \<Longrightarrow> a \<le> m \<Longrightarrow> v \<le> m"
proof (induction s arbitrary: a)
  case (Cons c cs)
  let ?v = "a * 10 + (of_char c - 48)"
  from Cons.prems have "?v \<le> m" and "parse_digits m ?v cs = Some v"
    by (simp_all add: Let_def split: if_splits)
  then show ?case using Cons.IH by blast
qed simp

lemma parse_unsigned_bound: "parse_unsigned m s = Some v \<Longrightarrow> v \<le> m"
  using parse_digits_bound [of m 0]
  by (simp add: parse_unsigned_def del: parse_digits.simps split: list.splits if_splits)

lemma digit_char_0: "digit_char 0 = CHR ''0''"
proof -
  have "(of_char (CHR ''0'') :: nat) = 48" by simp
  then have "char_of (48 :: nat) = CHR ''0''" by (metis char_of_char)
  then show ?thesis by (simp add: digit_char_def)
qed

lemma show_hex_pad_2: "n < 256 \<Longrightarrow> show_hex_pad 2 n = [digit_char (n div 16), digit_char (n mod 16)]"
proof (cases "n < 16")
  case True
  then show ?thesis by (simp add: show_hex_pad_def zero_pad_def show_radix_small digit_char_0)
next
  case False
  moreover assume "n < 256"
  ultimately show ?thesis by (simp add: show_hex_pad_def zero_pad_def show_radix_big show_radix_small)
qed

lemma show_nat_inject: "show_nat m = show_nat n \<longleftrightarrow> m = n"
proof
  assume "show_nat m = show_nat n"
  moreover have "parse_digits (max m n) 0 (show_nat m) = Some m"
    and "parse_digits (max m n) 0 (show_nat n) = Some n"
    by (simp_all add: parse_digits_show)
  ultimately show "m = n" by (metis option.inject)
qed simp

section \<open>Lemmas: UTF-8\<close>

lemma utf8_decode_Nil [simp]: "utf8_decode [] = Some []"
  by (subst utf8_decode.simps) simp

lemma utf8_decode_step:
  "utf8_next xs = Some (c, ys) \<Longrightarrow> utf8_decode xs = map_option ((#) c) (utf8_decode ys)"
  by (subst utf8_decode.simps) (auto simp: utf8_next_def split: list.splits)

lemma sextets:
  fixes c :: nat
  obtains q1 q2 q3 d0 d1 d2 where
    "c = 64 * q1 + d0" "q1 = 64 * q2 + d1" "q2 = 64 * q3 + d2" "d0 < 64" "d1 < 64" "d2 < 64"
    "c div 64 = q1" "c div 4096 = q2" "c div 262144 = q3" "c mod 64 = d0"
    "c div 64 mod 64 = d1" "c div 4096 mod 64 = d2"
proof (rule that [of "c div 64" "c mod 64" "c div 4096" "c div 64 mod 64" "c div 262144" "c div 4096 mod 64"])
  show "c div 64 = 64 * (c div 4096) + c div 64 mod 64"
    using div_mult2_eq [of c 64 64] by simp
  show "c div 4096 = 64 * (c div 262144) + c div 4096 mod 64"
    using div_mult2_eq [of c 4096 64] by simp
qed simp_all

lemma utf8_encode_of_parts:
  shows "\<lbrakk>2 \<le> p; p < 32; d0 < 64\<rbrakk> \<Longrightarrow>
      utf8_encode_char (p * 64 + d0) = [192 + p, 128 + d0] \<and> is_scalar (p * 64 + d0)"
    and "\<lbrakk>p < 16; d1 < 64; d0 < 64; p = 0 \<Longrightarrow> 32 \<le> d1; p = 13 \<Longrightarrow> d1 < 32\<rbrakk> \<Longrightarrow>
      utf8_encode_char (p * 4096 + d1 * 64 + d0) = [224 + p, 128 + d1, 128 + d0]
      \<and> is_scalar (p * 4096 + d1 * 64 + d0)"
    and "\<lbrakk>p \<le> 4; d2 < 64; d1 < 64; d0 < 64; p = 0 \<Longrightarrow> 16 \<le> d2; p = 4 \<Longrightarrow> d2 < 16\<rbrakk> \<Longrightarrow>
      utf8_encode_char (p * 262144 + d2 * 4096 + d1 * 64 + d0) = [240 + p, 128 + d2, 128 + d1, 128 + d0]
      \<and> is_scalar (p * 262144 + d2 * 4096 + d1 * 64 + d0)"
proof -
  assume "2 \<le> p" "p < 32" "d0 < 64"
  then show "utf8_encode_char (p * 64 + d0) = [192 + p, 128 + d0] \<and> is_scalar (p * 64 + d0)"
    by (simp add: utf8_encode_char_def is_scalar_def)
next
  assume a: "p < 16" "d1 < 64" "d0 < 64" "p = 0 \<Longrightarrow> 32 \<le> d1" "p = 13 \<Longrightarrow> d1 < 32"
  let ?c = "p * 4096 + d1 * 64 + d0"
  have q: "?c div 64 = p * 64 + d1" "?c mod 64 = d0" "(p * 64 + d1) mod 64 = d1"
    using a by (simp_all add: div_add1_eq mod_add_eq [symmetric])
  have "?c div 4096 = p" using q(1) a div_mult2_eq [of ?c 64 64] by simp
  moreover have "2048 \<le> ?c" using a(4) by (cases "p = 0") auto
  moreover have "?c < 65536" using a by linarith
  moreover have "is_scalar ?c"
  proof -
    have "p < 13 \<or> p = 13 \<or> 14 \<le> p" by linarith
    then show ?thesis using a unfolding is_scalar_def by (elim disjE) linarith+
  qed
  ultimately show "utf8_encode_char ?c = [224 + p, 128 + d1, 128 + d0] \<and> is_scalar ?c"
    using q by (simp add: utf8_encode_char_def)
next
  assume a: "p \<le> 4" "d2 < 64" "d1 < 64" "d0 < 64" "p = 0 \<Longrightarrow> 16 \<le> d2" "p = 4 \<Longrightarrow> d2 < 16"
  let ?c = "p * 262144 + d2 * 4096 + d1 * 64 + d0"
  have q: "?c div 64 = p * 4096 + d2 * 64 + d1" "?c mod 64 = d0"
    "(p * 4096 + d2 * 64 + d1) mod 64 = d1" "(p * 4096 + d2 * 64 + d1) div 64 = p * 64 + d2"
    "(p * 64 + d2) div 64 = p" "(p * 64 + d2) mod 64 = d2"
    using a by (simp_all add: div_add1_eq mod_add_eq [symmetric])
  have d1: "?c div 4096 = p * 64 + d2"
    using q(1,4) div_mult2_eq [of ?c 64 64] by simp
  have d2: "?c div 262144 = p"
    using d1 q(5) div_mult2_eq [of ?c 4096 64] by simp
  have "65536 \<le> ?c" using a(5) by (cases "p = 0") auto
  moreover have "?c < 1114112" using a by (cases "p = 4") auto
  ultimately show "utf8_encode_char ?c = [240 + p, 128 + d2, 128 + d1, 128 + d0] \<and> is_scalar ?c"
    using q d1 d2 by (simp add: utf8_encode_char_def is_scalar_def)
qed

lemma utf8_next_of_parts:
  "\<lbrakk>2 \<le> p; p < 32; d0 < 64\<rbrakk> \<Longrightarrow> utf8_next ((192 + p) # (128 + d0) # r) = Some (p * 64 + d0, r)"
  "\<lbrakk>p < 16; d1 < 64; d0 < 64; p = 0 \<Longrightarrow> 32 \<le> d1; p = 13 \<Longrightarrow> d1 < 32\<rbrakk> \<Longrightarrow>
     utf8_next ((224 + p) # (128 + d1) # (128 + d0) # r) = Some (p * 4096 + d1 * 64 + d0, r)"
  "\<lbrakk>p \<le> 4; d2 < 64; d1 < 64; d0 < 64; p = 0 \<Longrightarrow> 16 \<le> d2; p = 4 \<Longrightarrow> d2 < 16\<rbrakk> \<Longrightarrow>
     utf8_next ((240 + p) # (128 + d2) # (128 + d1) # (128 + d0) # r)
       = Some (p * 262144 + d2 * 4096 + d1 * 64 + d0, r)"
  by (auto simp: utf8_next_def is_cont_def second_of_three_def second_of_four_def)

lemma scalar_parts:
  assumes "is_scalar c"
  obtains "c < 128"
  | p d0 where "c = p * 64 + d0" "2 \<le> p" "p < 32" "d0 < 64"
  | p d1 d0 where "c = p * 4096 + d1 * 64 + d0" "p < 16" "d1 < 64" "d0 < 64"
      "p = 0 \<Longrightarrow> 32 \<le> d1" "p = 13 \<Longrightarrow> d1 < 32"
  | p d2 d1 d0 where "c = p * 262144 + d2 * 4096 + d1 * 64 + d0" "p \<le> 4" "d2 < 64" "d1 < 64" "d0 < 64"
      "p = 0 \<Longrightarrow> 16 \<le> d2" "p = 4 \<Longrightarrow> d2 < 16"
proof -
  obtain q1 q2 q3 d0 d1 d2 where c: "c = 64 * q1 + d0" "q1 = 64 * q2 + d1" "q2 = 64 * q3 + d2"
    and d: "d0 < 64" "d1 < 64" "d2 < 64"
    by (rule sextets)
  have lim: "c < 55296 \<or> 57344 \<le> c" "c < 1114112" using assms by (auto simp: is_scalar_def)
  consider "c < 128" | "128 \<le> c" "c < 2048" | "2048 \<le> c" "c < 65536" | "65536 \<le> c"
    by linarith
  then show ?thesis
  proof cases
    case 1
    then show ?thesis by (rule that(1))
  next
    case 2
    show ?thesis by (rule that(2) [of q1 d0]) (use 2 c d in linarith)+
  next
    case 3
    show ?thesis by (rule that(3) [of q2 d1 d0]) (use 3 c d lim in linarith)+
  next
    case 4
    show ?thesis by (rule that(4) [of q3 d2 d1 d0]) (use 4 c d lim in linarith)+
  qed
qed

lemma utf8_next_encode:
  assumes "is_scalar c"
  shows "utf8_next (utf8_encode_char c @ rest) = Some (c, rest)"
  using assms
proof (cases rule: scalar_parts)
  case 1
  then show ?thesis by (simp add: utf8_next_def utf8_encode_char_def)
next
  case (2 p d0)
  then show ?thesis using utf8_encode_of_parts(1) [of p d0] by (simp add: utf8_next_of_parts)
next
  case (3 p d1 d0)
  then show ?thesis using utf8_encode_of_parts(2) [of p d1 d0] by (simp add: utf8_next_of_parts)
next
  case (4 p d2 d1 d0)
  then show ?thesis using utf8_encode_of_parts(3) [of p d2 d1 d0] by (simp add: utf8_next_of_parts)
qed

lemma utf8_decode_encode:
  "(\<forall>c \<in> set cs. is_scalar c) \<Longrightarrow> utf8_decode (concat (map utf8_encode_char cs)) = Some cs"
  by (induction cs) (simp_all add: utf8_decode_step [OF utf8_next_encode])

lemma utf8_next_ascii [simp]: "a < 128 \<Longrightarrow> utf8_next (a # xs) = Some (a, xs)"
  by (simp add: utf8_next_def)

lemma utf8_decode_ascii: "(\<forall>a \<in> set xs. a < 128) \<Longrightarrow> utf8_decode xs = Some xs"
  by (induction xs) (simp_all add: utf8_decode_step)

text \<open>Conversely, what the validating decoder accepts is the encoding of a scalar value.\<close>

lemma utf8_next_inv:
  assumes "utf8_next xs = Some (c, ys)"
  shows "is_scalar c \<and> xs = utf8_encode_char c @ ys"
proof -
  consider
    (one) a where "a < 128" "xs = a # ys" "c = a"
  | (two) a b where "194 \<le> a" "a \<le> 223" "is_cont b" "xs = a # b # ys" "c = (a - 192) * 64 + (b - 128)"
  | (three) a b d where "224 \<le> a" "a \<le> 239" "second_of_three a b" "is_cont d" "xs = a # b # d # ys"
      "c = (a - 224) * 4096 + (b - 128) * 64 + (d - 128)"
  | (four) a b d e where "240 \<le> a" "a \<le> 244" "second_of_four a b" "is_cont d" "is_cont e"
      "xs = a # b # d # e # ys" "c = (a - 240) * 262144 + (b - 128) * 4096 + (d - 128) * 64 + (e - 128)"
    using assms that by (auto simp: utf8_next_def split: list.splits if_splits)
  then show ?thesis
  proof cases
    case one
    then show ?thesis by (simp add: is_scalar_def utf8_encode_char_def)
  next
    case (two a b)
    then show ?thesis
      using utf8_encode_of_parts(1) [of "a - 192" "b - 128"] by (auto simp: is_cont_def)
  next
    case (three a b d)
    then show ?thesis
      using utf8_encode_of_parts(2) [of "a - 224" "b - 128" "d - 128"]
      by (auto simp: is_cont_def second_of_three_def split: if_splits)
  next
    case (four a b d e)
    then show ?thesis
      using utf8_encode_of_parts(3) [of "a - 240" "b - 128" "d - 128" "e - 128"]
      by (auto simp: is_cont_def second_of_four_def split: if_splits)
  qed
qed

lemma utf8_decode_inv:
  "utf8_decode xs = Some cs \<Longrightarrow> xs = concat (map utf8_encode_char cs) \<and> (\<forall>c \<in> set cs. is_scalar c)"
proof (induction xs arbitrary: cs rule: utf8_decode.induct)
  case (1 xs)
  show ?case
  proof (cases "xs = []")
    case True
    with 1 show ?thesis by simp
  next
    case False
    with "1.prems" obtain c ys where next_: "utf8_next xs = Some (c, ys)"
      by (subst (asm) utf8_decode.simps) (auto split: option.splits)
    with "1.prems" obtain ds where ds: "utf8_decode ys = Some ds" "cs = c # ds"
      by (auto simp: utf8_decode_step)
    from "1.IH" [OF False next_ refl ds(1)] utf8_next_inv [OF next_] ds(2)
    show ?thesis by simp
  qed
qed

lemma utf8_encode_chars: "valid_str s \<Longrightarrow> utf8_encode (chars s) = s"
proof -
  assume "valid_str s"
  then obtain cs where cs: "utf8_decode (map of_char s) = Some cs"
    by (auto simp: valid_str_def)
  from utf8_decode_inv [OF cs] have "concat (map utf8_encode_char cs) = map of_char s" by simp
  then show ?thesis
    by (simp add: chars_def cs utf8_encode_def comp_def)
qed

lemma chars_ascii: "(\<forall>c \<in> set s. (of_char c :: nat) < 128) \<Longrightarrow> chars s = map of_char s"
  by (simp add: chars_def utf8_decode_ascii)

lemma valid_str_ascii: "(\<forall>c \<in> set s. (of_char c :: nat) < 128) \<Longrightarrow> valid_str s"
  by (simp add: valid_str_def utf8_decode_ascii)

lemma from_utf8_Some:
  "from_utf8 bs = Some s \<Longrightarrow> valid_str s \<and> s = map (\<lambda>b. char_of (unat b)) bs"
proof -
  assume a: "from_utf8 bs = Some s"
  then have s: "s = map (\<lambda>b. char_of (unat b)) bs" and v: "utf8_decode (map unat bs) \<noteq> None"
    by (auto simp: from_utf8_def split: if_splits)
  have "map of_char s = map unat bs"
  proof -
    have "unat b mod 256 = unat b" for b :: u8
      using unsigned_less [of b, where 'a = nat] by simp
    then show ?thesis by (simp add: s)
  qed
  with v have "valid_str s" unfolding valid_str_def by metis
  with s show ?thesis by simp
qed

lemma utf8_lossy_scalar: "c \<in> set (utf8_lossy xs) \<Longrightarrow> is_scalar c"
proof (induction xs rule: utf8_lossy.induct)
  case (1 xs)
  show ?case
  proof (cases "xs = []")
    case True
    with "1.prems" show ?thesis by (simp add: utf8_lossy.simps)
  next
    case False
    show ?thesis
    proof (cases "utf8_next xs")
      case None
      with "1.prems" False have "c = 65533 \<or> c \<in> set (utf8_lossy (drop (invalid_length xs) xs))"
        by (subst (asm) utf8_lossy.simps) simp
      with "1.IH"(1) [OF False None] show ?thesis by (auto simp: is_scalar_def)
    next
      case (Some p)
      obtain d ys where p: "p = (d, ys)" by fastforce
      with Some "1.prems" False have "c = d \<or> c \<in> set (utf8_lossy ys)"
        by (subst (asm) utf8_lossy.simps) simp
      with "1.IH"(2) [OF False Some] utf8_next_inv [of xs d ys] Some p show ?thesis by auto
    qed
  qed
qed

lemma utf8_lossy_valid: "utf8_decode xs = Some cs \<Longrightarrow> utf8_lossy xs = cs"
proof (induction xs arbitrary: cs rule: utf8_decode.induct)
  case (1 xs)
  show ?case
  proof (cases "xs = []")
    case True
    with 1 show ?thesis by (simp add: utf8_lossy.simps)
  next
    case False
    with "1.prems" obtain c ys where next_: "utf8_next xs = Some (c, ys)"
      by (subst (asm) utf8_decode.simps) (auto split: option.splits)
    with "1.prems" obtain ds where ds: "utf8_decode ys = Some ds" "cs = c # ds"
      by (auto simp: utf8_decode_step)
    from "1.IH" [OF False next_ refl ds(1)] next_ False ds(2)
    show ?thesis by (subst utf8_lossy.simps) simp
  qed
qed

lemma utf8_encode_char_byte: "is_scalar c \<Longrightarrow> b \<in> set (utf8_encode_char c) \<Longrightarrow> b < 256"
  by (auto simp: utf8_encode_char_def is_scalar_def split: if_splits)

lemma chars_utf8_encode: "(\<forall>c \<in> set cs. is_scalar c) \<Longrightarrow> chars (utf8_encode cs) = cs \<and> valid_str (utf8_encode cs)"
proof -
  assume a: "\<forall>c \<in> set cs. is_scalar c"
  have "map of_char (utf8_encode cs) = concat (map utf8_encode_char cs)"
    unfolding utf8_encode_def map_map
    by (rule map_idI) (use a utf8_encode_char_byte in \<open>fastforce simp: comp_def\<close>)
  with utf8_decode_encode [OF a] show ?thesis by (simp add: chars_def valid_str_def)
qed

lemma valid_str_from_utf8_lossy: "valid_str (from_utf8_lossy bs)"
  unfolding from_utf8_lossy_def using chars_utf8_encode utf8_lossy_scalar by blast

lemma from_utf8_lossy_valid: "from_utf8 bs = Some s \<Longrightarrow> from_utf8_lossy bs = s"
proof -
  assume a: "from_utf8 bs = Some s"
  then obtain cs where cs: "utf8_decode (map unat bs) = Some cs" and s: "s = map (\<lambda>b. char_of (unat b)) bs"
    by (auto simp: from_utf8_def split: if_splits)
  from utf8_decode_inv [OF cs] have "concat (map utf8_encode_char cs) = map unat bs" by simp
  then show ?thesis by (simp add: from_utf8_lossy_def utf8_lossy_valid [OF cs] utf8_encode_def s comp_def)
qed

section \<open>Lemmas: the value of a digit string\<close>

definition decimal_value :: "string \<Rightarrow> nat" where
  "decimal_value s = foldl (\<lambda>v c. v * 10 + (of_char c - 48)) 0 s"

lemma foldl_decimal_mono: "a \<le> foldl (\<lambda>v c. v * 10 + (of_char c - 48 :: nat)) a s"
proof (induction s arbitrary: a)
  case (Cons c s)
  have "a \<le> a * 10 + (of_char c - 48)" by simp
  also have "\<dots> \<le> foldl (\<lambda>v c. v * 10 + (of_char c - 48)) (a * 10 + (of_char c - 48)) s" by (rule Cons.IH)
  finally show ?case by simp
qed simp

lemma parse_digits_value:
  assumes "list_all is_ascii_digit s" and "a \<le> m"
  shows "parse_digits m a s =
    (if foldl (\<lambda>v c. v * 10 + (of_char c - 48)) a s \<le> m
     then Some (foldl (\<lambda>v c. v * 10 + (of_char c - 48)) a s) else None)"
  using assms
proof (induction s arbitrary: a)
  case (Cons c s)
  show ?case
  proof (cases "a * 10 + (of_char c - 48) \<le> m")
    case True
    with Cons show ?thesis by (simp add: Let_def)
  next
    case False
    with foldl_decimal_mono [of "a * 10 + (of_char c - 48)" s] Cons.prems show ?thesis by (simp add: Let_def)
  qed
qed simp

lemma parse_unsigned_value:
  assumes "s \<noteq> []" and "list_all is_ascii_digit s"
  shows "parse_unsigned m s = (if decimal_value s \<le> m then Some (decimal_value s) else None)"
proof -
  from assms obtain c t where s: "s = c # t" "is_ascii_digit c" by (cases s) auto
  then have "c \<noteq> CHR ''+''" by (auto simp: is_ascii_digit_def)
  then have "parse_unsigned m s = parse_digits m 0 s" by (simp add: parse_unsigned_def s)
  with parse_digits_value [OF assms(2), of 0 m] show ?thesis by (simp add: decimal_value_def)
qed

end
