(* ===== verification/Console.thy ===== *)
theory Console
  imports Rust_Text
begin

text \<open>
  Commands that print: the lines written to a stream in order, together with the command's result.
  \<open>attempt\<close> is the \<open>?\<close> operator and \<open>println\<close> the macro; both keep what was printed before. The streams
  themselves are taken to accept every line.
\<close>

section \<open>Printing\<close>

type_synonym 'a console = "string list \<times> ('a, string) outcome"

primrec attempt :: "('a, string) outcome \<Rightarrow> ('a \<Rightarrow> 'b console) \<Rightarrow> 'b console" where
  "attempt (Ok v) k = k v"
| "attempt (Err e) k = ([], Err e)"
| "attempt Panic k = ([], Panic)"

definition println :: "string \<Rightarrow> 'a console \<Rightarrow> 'a console" where
  "println line rest = (line # fst rest, snd rest)"

definition print_lines :: "string list \<Rightarrow> 'a console \<Rightarrow> 'a console" where
  "print_lines ls rest = (ls @ fst rest, snd rest)"

definition finished :: "unit console" where
  "finished = ([], Ok ())"

text \<open>A command followed by another that uses its result.\<close>

definition sequel :: "'a console \<Rightarrow> ('a \<Rightarrow> 'b console) \<Rightarrow> 'b console" where
  "sequel c k =
     (case snd c of
        Ok v \<Rightarrow> print_lines (fst c) (k v)
      | Err e \<Rightarrow> (fst c, Err e)
      | Panic \<Rightarrow> (fst c, Panic))"

section \<open>Lemmas\<close>

lemma fst_println [simp]: "fst (println line rest) = line # fst rest"
  and snd_println [simp]: "snd (println line rest) = snd rest"
  and fst_print_lines [simp]: "fst (print_lines ls rest) = ls @ fst rest"
  and snd_print_lines [simp]: "snd (print_lines ls rest) = snd rest"
  and fst_finished [simp]: "fst finished = []"
  and snd_finished [simp]: "snd finished = Ok ()"
  by (simp_all add: println_def print_lines_def finished_def)

lemma snd_attempt: "snd (attempt r k) = and_then r (\<lambda>v. snd (k v))"
  by (cases r) simp_all

lemma sequel_Ok [simp]: "sequel (ls, Ok v) k = print_lines ls (k v)"
  by (simp add: sequel_def)

lemma print_lines_Pair [simp]: "print_lines ls (ms, r) = (ls @ ms, r)"
  and println_Pair [simp]: "println line (ms, r) = (line # ms, r)"
  by (simp_all add: print_lines_def println_def)

lemma attempt_map_err_Ok [simp]: "r = Ok v \<Longrightarrow> attempt (map_err f r) k = k v"
  by simp

end
