(* ===== verification/Hex_Input.thy ===== *)
theory Hex_Input
  imports Rust_Text
begin

text \<open>
  The hexadecimal input of \<open>rust/src/main.rs\<close>: \<open>parse_hex\<close>, the bounded reader \<open>read_hex_text\<close> and
  \<open>read_hex_file\<close>. A reader is the bytes it delivers and, when it does not end there, the text of
  the I/O error that follows them; opening and inspecting files are parameters.
\<close>

unbundle bit_operations_syntax

section \<open>Model\<close>

definition MAX_HEX_TEXT_BYTES :: usize where [const_simps]: "MAX_HEX_TEXT_BYTES = 32 * 1024 * 1024"

fun hex_nibbles :: "(nat \<Rightarrow> bool) \<Rightarrow> nat list \<Rightarrow> bytes \<Rightarrow> (bytes, string) outcome" where
  "hex_nibbles printable [] nibbles = Ok nibbles"
| "hex_nibbles printable (character # rest) nibbles =
     (if is_ascii_whitespace character \<or> character = 58 then hex_nibbles printable rest nibbles
      else if \<not> is_ascii_hexdigit character
      then Err (''invalid hex digit: '' @ debug_char printable character)
      else and_then (expect (to_digit_16 character)) (\<lambda>digit.
             hex_nibbles printable rest (nibbles @ [of_nat digit])))"

definition parse_hex :: "(nat \<Rightarrow> bool) \<Rightarrow> str \<Rightarrow> (bytes, string) outcome" where
  "parse_hex printable input =
     and_then (hex_nibbles printable (chars input) []) (\<lambda>nibbles.
       if length nibbles mod 2 \<noteq> 0 then Err ''hex input must contain an even number of digits''
       else Ok (map (\<lambda>pair. push_bit 4 (pair ! 0) OR pair ! 1) (chunks_exact 2 nibbles)))"

text \<open>The text of a \<open>Utf8Error\<close>: where the valid part ends, and how many bytes are wrong unless the
  input merely stops within a character.\<close>

function utf8_error :: "nat \<Rightarrow> nat list \<Rightarrow> string" where
  "utf8_error index xs =
     (case utf8_next xs of
        Some (c, ys) \<Rightarrow> utf8_error (index + (length xs - length ys)) ys
      | None \<Rightarrow>
          if invalid_length xs = length xs \<and> xs \<noteq> [] \<and> 194 \<le> hd xs \<and> hd xs \<le> 244
          then ''incomplete utf-8 byte sequence from index '' @ show_nat index
          else ''invalid utf-8 sequence of '' @ show_nat (invalid_length xs) @ '' bytes from index ''
               @ show_nat index)"
  by pat_completeness auto
termination
  by (relation "measure (\<lambda>(i, xs). length xs)") (auto dest: utf8_next_shorter)

declare utf8_error.simps [simp del]

record reader =
  read_bytes :: bytes
  read_error :: "string option"

text \<open>\<open>reader.take(n).read_to_end(..)\<close>: after \<open>n\<close> bytes nothing more is read.\<close>

definition take_read_to_end :: "nat \<Rightarrow> reader \<Rightarrow> (bytes, string) outcome" where
  "take_read_to_end n r =
     (if n \<le> length (read_bytes r) then Ok (take n (read_bytes r))
      else case read_error r of Some e \<Rightarrow> Err e | None \<Rightarrow> Ok (read_bytes r))"

definition read_hex_text :: "(nat \<Rightarrow> bool) \<Rightarrow> reader \<Rightarrow> usize \<Rightarrow> (bytes, string) outcome" where
  "read_hex_text printable r limit =
     and_then (ok_or (checked_add limit 1) ''hex text byte limit overflows this platform'') (\<lambda>read_limit.
     and_then (ok_or (usize_try_from read_limit) ''hex text byte limit does not fit the reader API'') (\<lambda>read_limit.
     and_then (map_err (\<lambda>e. ''cannot read hex text: '' @ e) (take_read_to_end read_limit r)) (\<lambda>text_bytes.
     and_then (ensure (\<not> length text_bytes > limit)
       (''hex text exceeds the '' @ show_nat limit @ '' byte safety limit (including whitespace)'')) (\<lambda>_.
     and_then (ok_or (from_utf8 text_bytes)
       (''hex input is not valid UTF-8 text: '' @ utf8_error 0 (map unat text_bytes))) (\<lambda>text.
       parse_hex printable text)))))"

record file_entry =
  file_length :: "(u64, string) outcome"
  file_reader :: reader

record file_system =
  stdin_reader :: reader
  file_open :: "str \<Rightarrow> (file_entry, string) outcome"

definition read_hex_file :: "(nat \<Rightarrow> bool) \<Rightarrow> file_system \<Rightarrow> str \<Rightarrow> (bytes, string) outcome" where
  "read_hex_file printable fs path =
     (if path = ''-'' then read_hex_text printable (stdin_reader fs) MAX_HEX_TEXT_BYTES
      else
        and_then (map_err (\<lambda>e. ''cannot open '' @ debug_str printable path @ '': '' @ e)
          (file_open fs path)) (\<lambda>file.
        and_then (map_err (\<lambda>e. ''cannot inspect '' @ debug_str printable path @ '': '' @ e)
          (file_length file)) (\<lambda>len.
        and_then (ensure (\<not> unat len > MAX_HEX_TEXT_BYTES)
          (''hex text in '' @ debug_str printable path @ '' is '' @ show_u64 len
           @ '' bytes; safety limit is '' @ show_nat MAX_HEX_TEXT_BYTES @ '' bytes including whitespace'')) (\<lambda>_.
          map_err (\<lambda>e. debug_str printable path @ '': '' @ e)
            (read_hex_text printable (file_reader file) MAX_HEX_TEXT_BYTES)))))"

section \<open>Lemmas: digits\<close>

definition is_separator :: "nat \<Rightarrow> bool" where
  "is_separator c \<longleftrightarrow> is_ascii_whitespace c \<or> c = 58"

lemma to_digit_16_hexdigit: "is_ascii_hexdigit c \<longleftrightarrow> (\<exists>d. to_digit_16 c = Some d)"
  by (auto simp: is_ascii_hexdigit_def to_digit_16_def)

lemma to_digit_16_bound: "to_digit_16 c = Some d \<Longrightarrow> d < 16"
  by (auto simp: to_digit_16_def split: if_splits)

lemma to_digit_16_separator: "is_separator c \<Longrightarrow> to_digit_16 c = None"
  by (auto simp: is_separator_def is_ascii_whitespace_def to_digit_16_def)

text \<open>The digits of a text, with \<open>None\<close> for a character that is neither digit nor separator.\<close>

definition hex_digits :: "nat list \<Rightarrow> nat option list" where
  "hex_digits cs = map to_digit_16 (filter (\<lambda>c. \<not> is_separator c) cs)"

lemma hex_digits_simps [simp]:
  "hex_digits [] = []"
  "hex_digits (c # cs) = (if is_separator c then hex_digits cs else to_digit_16 c # hex_digits cs)"
  by (simp_all add: hex_digits_def)

lemma hex_nibbles_Cons:
  "hex_nibbles printable (c # cs) nibbles =
     (if is_separator c then hex_nibbles printable cs nibbles
      else case to_digit_16 c of
        None \<Rightarrow> Err (''invalid hex digit: '' @ debug_char printable c)
      | Some d \<Rightarrow> hex_nibbles printable cs (nibbles @ [of_nat d]))"
  using to_digit_16_hexdigit [of c]
  by (auto simp: is_separator_def expect_def split: option.splits)

lemma hex_nibbles_eq:
  "hex_nibbles printable cs nibbles = Ok ns \<longleftrightarrow>
     (\<exists>ds. hex_digits cs = map Some ds \<and> ns = nibbles @ map of_nat ds)"
proof (induction cs arbitrary: nibbles)
  case (Cons c cs)
  then show ?case
    by (auto simp: hex_nibbles_Cons Cons_eq_map_conv simp del: hex_nibbles.simps split: option.splits)
qed auto

lemma hex_nibbles_no_panic: "hex_nibbles printable cs nibbles \<noteq> Panic"
proof (induction cs arbitrary: nibbles)
  case (Cons c cs)
  then show ?case by (simp add: hex_nibbles_Cons del: hex_nibbles.simps split: option.splits)
qed simp

section \<open>Lemmas: pairs of digits\<close>

definition byte_digits :: "u8 \<Rightarrow> nat list" where
  "byte_digits b = [unat b div 16, unat b mod 16]"

definition pair_byte :: "nat \<Rightarrow> nat \<Rightarrow> u8" where
  "pair_byte h l = push_bit 4 (of_nat h) OR of_nat l"

lemma pair_byte_unat:
  assumes "h < 16" "l < 16"
  shows "unat (pair_byte h l) = 16 * h + l"
proof -
  have l: "take_bit 4 l = l" and h: "take_bit 8 (push_bit 4 h) = push_bit 4 h"
    using assms by (simp_all add: take_bit_eq_mod push_bit_eq_mult)
  have "unat (pair_byte h l) = push_bit 4 h OR l"
    using assms h
    by (simp add: pair_byte_def unsigned_or_eq unsigned_push_bit_eq unsigned_of_nat take_bit_eq_mod)
  also have "\<dots> = push_bit 4 h OR take_bit 4 l"
    by (simp add: l)
  also have "\<dots> = push_bit 4 h + take_bit 4 l"
    by (rule disjunctive_add [symmetric]) (auto simp: bit_push_bit_iff bit_take_bit_iff)
  also have "\<dots> = 16 * h + l"
    by (simp add: l push_bit_eq_mult)
  finally show ?thesis .
qed

lemma byte_digits_pair: "h < 16 \<Longrightarrow> l < 16 \<Longrightarrow> byte_digits (pair_byte h l) = [h, l]"
  by (simp add: byte_digits_def pair_byte_unat)

lemma pair_byte_digits: "pair_byte (unat b div 16) (unat b mod 16) = b"
proof -
  have "unat b div 16 < 16" using unsigned_less [of b, where 'a = nat] by (simp add: less_mult_imp_div_less)
  then have "unat (pair_byte (unat b div 16) (unat b mod 16)) = unat b"
    by (simp add: pair_byte_unat)
  then show ?thesis by (simp add: word_unat_eq_iff)
qed

lemma chunk_pairs:
  "even (length ds) \<Longrightarrow> (\<forall>d \<in> set ds. d < 16) \<Longrightarrow>
     map (\<lambda>pair. push_bit 4 (pair ! 0) OR pair ! 1) (chunks_exact 2 (map of_nat ds)) = (bs :: bytes)
     \<longleftrightarrow> ds = concat (map byte_digits bs)"
proof (induction ds arbitrary: bs rule: induct_list012)
  case (3 h l ds)
  have step: "map (\<lambda>pair. push_bit 4 (pair ! 0) OR pair ! 1) (chunks_exact 2 (map of_nat (h # l # ds)))
      = pair_byte h l # map (\<lambda>pair. push_bit 4 (pair ! 0) OR pair ! 1) (chunks_exact 2 (map of_nat ds))"
    by (subst chunks_exact.simps) (simp add: pair_byte_def)
  show ?case
  proof (cases bs)
    case (Cons b bs')
    have "pair_byte h l = b \<longleftrightarrow> [h, l] = byte_digits b"
      using 3 byte_digits_pair [of h l] pair_byte_digits [of b] by (auto simp: byte_digits_def)
    with 3 Cons show ?thesis unfolding step by (auto simp: byte_digits_def)
  qed (simp add: chunks_exact.simps)
qed (auto simp: chunks_exact.simps byte_digits_def concat_eq_Nil_conv)

lemma digits_even: "even (length (concat (map byte_digits bs)))"
  by (induction bs) (auto simp: byte_digits_def)

lemma hex_digits_bound: "hex_digits cs = map Some ds \<Longrightarrow> d \<in> set ds \<Longrightarrow> d < 16"
proof (induction cs arbitrary: ds)
  case (Cons c cs)
  then show ?case
    by (auto split: if_splits simp: Cons_eq_map_conv dest: to_digit_16_bound)
qed auto

lemma parse_hex_Ok:
  "parse_hex printable s = Ok bs \<longleftrightarrow>
     hex_digits (chars s) = map Some (concat (map byte_digits bs))"
proof -
  have "parse_hex printable s = Ok bs \<longleftrightarrow>
      (\<exists>ns. hex_nibbles printable (chars s) [] = Ok ns \<and> even (length ns)
        \<and> map (\<lambda>pair. push_bit 4 (pair ! 0) OR pair ! 1) (chunks_exact 2 ns) = bs)"
    unfolding parse_hex_def even_iff_mod_2_eq_zero
    by (cases "hex_nibbles printable (chars s) []") simp_all
  also have "\<dots> \<longleftrightarrow>
      (\<exists>ds. hex_digits (chars s) = map Some ds \<and> even (length ds)
        \<and> map (\<lambda>pair. push_bit 4 (pair ! 0) OR pair ! 1) (chunks_exact 2 (map of_nat ds)) = bs)"
    unfolding hex_nibbles_eq by auto
  also have "\<dots> \<longleftrightarrow>
      (\<exists>ds. hex_digits (chars s) = map Some ds \<and> even (length ds) \<and> ds = concat (map byte_digits bs))"
    using hex_digits_bound chunk_pairs by (intro ex_cong1 conj_cong refl) auto
  also have "\<dots> \<longleftrightarrow> hex_digits (chars s) = map Some (concat (map byte_digits bs))"
    using digits_even by auto
  finally show ?thesis .
qed

lemma parse_hex_no_panic: "parse_hex printable s \<noteq> Panic"
  using hex_nibbles_no_panic [of printable "chars s" "[]"]
  by (cases "hex_nibbles printable (chars s) []") (auto simp: parse_hex_def)

definition hex_layout :: "bytes \<Rightarrow> str \<Rightarrow> bool" where
  "hex_layout bs s \<longleftrightarrow> hex_digits (chars s) = map Some (concat (map byte_digits bs))"

interpretation hex_input: strict_decoder "parse_hex printable" hex_layout for printable
  by unfold_locales (simp_all add: parse_hex_Ok hex_layout_def parse_hex_no_panic)

section \<open>Lemmas: the size of the input\<close>

lemma utf8_decode_length: "utf8_decode xs = Some cs \<Longrightarrow> length cs \<le> length xs"
proof (induction xs arbitrary: cs rule: utf8_decode.induct)
  case (1 xs)
  show ?case
  proof (cases "xs = []")
    case False
    with 1 show ?thesis
      by (subst (asm) (2) utf8_decode.simps)
        (force split: option.splits dest: utf8_next_shorter)
  qed (use 1 in simp)
qed

lemma length_chars: "length (chars s) \<le> length s"
  using utf8_decode_length [of "map of_char s"]
  by (cases "utf8_decode (map of_char s)") (auto simp: chars_def)

lemma parse_hex_length:
  assumes "parse_hex printable s = Ok bs"
  shows "2 * length bs \<le> length s"
proof -
  have "length (concat (map byte_digits bs)) = 2 * length bs"
    by (induction bs) (auto simp: byte_digits_def)
  then have "2 * length bs = length (hex_digits (chars s))"
    using assms by (simp add: parse_hex_Ok)
  also have "\<dots> \<le> length (chars s)" by (simp add: hex_digits_def)
  finally show ?thesis using length_chars [of s] by simp
qed

lemma from_utf8_length: "from_utf8 bs = Some s \<Longrightarrow> length s = length bs"
  by (auto simp: from_utf8_def split: if_splits option.splits)

lemma read_hex_text_eq:
  "read_hex_text printable r limit =
     (if usize_max \<le> limit then Err ''hex text byte limit overflows this platform''
      else if limit < length (read_bytes r)
      then Err (''hex text exceeds the '' @ show_nat limit @ '' byte safety limit (including whitespace)'')
      else case read_error r of
        Some e \<Rightarrow> Err (''cannot read hex text: '' @ e)
      | None \<Rightarrow> (case from_utf8 (read_bytes r) of
          None \<Rightarrow> Err (''hex input is not valid UTF-8 text: '' @ utf8_error 0 (map unat (read_bytes r)))
        | Some text \<Rightarrow> parse_hex printable text))"
  unfolding read_hex_text_def take_read_to_end_def checked_add_def usize_try_from_def ok_or_def ensure_def
  by (auto split: option.splits)

lemma read_hex_text_length:
  assumes "read_hex_text printable r limit = Ok bs"
  shows "2 * length bs \<le> length (read_bytes r) \<and> length (read_bytes r) \<le> limit"
  using assms parse_hex_length from_utf8_length
  by (fastforce simp: read_hex_text_eq split: if_splits option.splits)

lemma read_hex_text_no_panic: "read_hex_text printable r limit \<noteq> Panic"
  by (simp add: read_hex_text_eq parse_hex_no_panic split: option.splits)

section \<open>Properties\<close>

text \<open>C32: \<open>parse_hex\<close> never panics, and it accepts a text with the result \<open>bs\<close> exactly when the
  characters of the text other than ASCII white space and colons are, in order, hexadecimal digits of
  either case whose values are the high and low halves of the bytes of \<open>bs\<close>. So any rendering of a
  packet, with separators wherever the capture tool put them, decodes to that packet, and nothing
  else is accepted.\<close>

theorem parse_hex_exact:
  "parse_hex printable s \<noteq> Panic
   \<and> (parse_hex printable s = Ok bs \<longleftrightarrow>
       map to_digit_16 (filter (\<lambda>c. \<not> (is_ascii_whitespace c \<or> c = 58)) (chars s))
       = concat (map (\<lambda>b. [Some (unat b div 16), Some (unat b mod 16)]) bs))"
proof -
  have "map Some (concat (map byte_digits bs))
      = concat (map (\<lambda>b. [Some (unat b div 16), Some (unat b mod 16)]) bs)"
    by (simp add: byte_digits_def map_concat comp_def)
  then show ?thesis
    using hex_input.no_panic hex_input.parse_Ok_iff [of printable s bs]
    by (simp add: hex_layout_def hex_digits_def is_separator_def)
qed

text \<open>Reading hexadecimal text is bounded and cannot crash. Whatever a file claims about its
  length and however much the file or the standard input delivers, an accepted input delivered at most
  \<open>MAX_HEX_TEXT_BYTES\<close> bytes of valid text without an I/O error, and the packet has at most half as many
  bytes; an input that delivers more is refused, also when the length in its metadata was smaller.\<close>

lemma read_hex_file_bounded:
  assumes opened: "path = ''-'' \<and> r = stdin_reader fs \<or>
    path \<noteq> ''-'' \<and> file_open fs path = Ok file \<and> r = file_reader file \<and> file_length file = Ok len"
  shows "read_hex_file printable fs path \<noteq> Panic
    \<and> (read_hex_file printable fs path = Ok bs \<longrightarrow>
         2 * length bs \<le> length (read_bytes r) \<and> length (read_bytes r) \<le> MAX_HEX_TEXT_BYTES
         \<and> read_error r = None \<and> (\<exists>text. from_utf8 (read_bytes r) = Some text \<and> parse_hex printable text = Ok bs))
    \<and> (MAX_HEX_TEXT_BYTES < length (read_bytes r) \<longrightarrow> (\<exists>e. read_hex_file printable fs path = Err e))"
proof -
  let ?read = "read_hex_text printable r MAX_HEX_TEXT_BYTES"
  have cases: "read_hex_file printable fs path = ?read
      \<or> (\<exists>f. read_hex_file printable fs path = map_err f ?read)
      \<or> (\<exists>e. read_hex_file printable fs path = Err e)"
    using opened unfolding read_hex_file_def ensure_def by auto
  have limit: "\<not> usize_max \<le> MAX_HEX_TEXT_BYTES" by (simp add: const_simps)
  have no_panic: "?read \<noteq> Panic" by (rule read_hex_text_no_panic)
  have accepted: "2 * length bs \<le> length (read_bytes r) \<and> length (read_bytes r) \<le> MAX_HEX_TEXT_BYTES
      \<and> read_error r = None \<and> (\<exists>text. from_utf8 (read_bytes r) = Some text \<and> parse_hex printable text = Ok bs)"
    if "?read = Ok bs"
    using that read_hex_text_length [OF that] limit
    by (simp add: read_hex_text_eq split: if_splits option.splits)
  have refused: "\<exists>e. ?read = Err e" if "MAX_HEX_TEXT_BYTES < length (read_bytes r)"
    using that limit by (simp add: read_hex_text_eq)
  from cases show ?thesis
    using no_panic accepted refused by (cases ?read) auto
qed

end
