(* ===== verification/Wire.thy ===== *)
theory Wire
  imports Rust_Text
begin

text \<open>
  The fixed-layout part of \<open>rust/src/protocol.rs\<close>: the constants of the SM768 wire format, the
  generic header, the canonical command request, the frame acknowledgement, the request
  builders and the mode table, with the \<open>Display\<close> texts of their errors. Offsets, check order
  and error payloads are those of the source. The lemmas characterise every parser by the
  exact byte layout it accepts, show that no input makes one panic, and invert the builders.
\<close>

section \<open>Constants\<close>

definition VENDOR_ID :: u16 where [const_simps]: "VENDOR_ID = 0x090c"
definition SM768_PRODUCT_ID :: u16 where [const_simps]: "SM768_PRODUCT_ID = 0x0768"
definition WIRE_MAGIC :: bytes where "WIRE_MAGIC = ascii ''smifalconsta''"
definition HEADER_SIZE :: usize where [const_simps]: "HEADER_SIZE = 48"
definition HEARTBEAT_SIZE :: usize where [const_simps]: "HEARTBEAT_SIZE = 44"
definition COMMAND_CLASS :: u32 where [const_simps]: "COMMAND_CLASS = 6"
definition CAPABILITIES_OPCODE :: u8 where [const_simps]: "CAPABILITIES_OPCODE = 0x65"
definition BULK_HEARTBEAT_OPCODE :: u8 where [const_simps]: "BULK_HEARTBEAT_OPCODE = 0xec"
definition DISPLAY_INTERFACE :: u8 where [const_simps]: "DISPLAY_INTERFACE = 4"
definition DISPLAY_ALT_SETTING :: u8 where [const_simps]: "DISPLAY_ALT_SETTING = 1"
definition INTERRUPT_IN_ENDPOINT :: u8 where [const_simps]: "INTERRUPT_IN_ENDPOINT = 0x81"
definition INTERRUPT_OUT_ENDPOINT :: u8 where [const_simps]: "INTERRUPT_OUT_ENDPOINT = 0x01"
definition BULK_OUT_ENDPOINT :: u8 where [const_simps]: "BULK_OUT_ENDPOINT = 0x02"
definition HEARTBEAT_TAG_OFFSET :: usize where [const_simps]: "HEARTBEAT_TAG_OFFSET = 35"
definition HEARTBEAT_TAG_CAPACITY :: usize where
  [const_simps]: "HEARTBEAT_TAG_CAPACITY = HEARTBEAT_SIZE - HEARTBEAT_TAG_OFFSET - 1"
definition FRAME_SIGNATURE :: u32 where [const_simps]: "FRAME_SIGNATURE = 0xa0000002"
definition FRAME_TYPE :: u8 where [const_simps]: "FRAME_TYPE = 0x04"
definition FRAME_SUBTYPE :: u8 where [const_simps]: "FRAME_SUBTYPE = 0x01"
definition JPEG_DECODER_METADATA_SIZE :: usize where
  [const_simps]: "JPEG_DECODER_METADATA_SIZE = 0x5000"
definition HIGH_SPEED_MAX_PACKET_SIZE :: usize where
  [const_simps]: "HIGH_SPEED_MAX_PACKET_SIZE = 512"
definition SUPER_SPEED_MAX_PACKET_SIZE :: usize where
  [const_simps]: "SUPER_SPEED_MAX_PACKET_SIZE = 1024"
definition FRAME_ACK_SIZE :: usize where [const_simps]: "FRAME_ACK_SIZE = 1024"
definition FRAME_ACK_SIGNATURE :: u32 where [const_simps]: "FRAME_ACK_SIGNATURE = 0x010001e9"

section \<open>Data\<close>

record WireHeader =
  word12 :: u32
  word16 :: u32
  byte20 :: u8

record CommandRequest =
  request_length :: usize
  request_opcode :: u8

record Mode =
  mode_width :: u32
  mode_height :: u32
  refresh_hz :: u32
  bits_per_pixel :: u32

record FrameAck =
  ack_sequence :: u8
  unclassified_bytes21_23 :: bytes

datatype FrameAckParseError =
    AckInvalidPacketLength usize usize
  | AckBadMagic
  | AckInvalidDeclaredLength u32
  | AckInvalidSignature u32

datatype ParseError =
    TooShort usize usize
  | BadMagic
  | InvalidRequestLength usize usize
  | InvalidRequestClass u32

datatype BuildError = ClientTagTooLong usize usize

fun display_BuildError :: "BuildError \<Rightarrow> str" where
  "display_BuildError (ClientTagTooLong digits maximum) =
     ''heartbeat client tag has '' @ show_nat digits @ '' digits; maximum is '' @ show_nat maximum"

fun display_ParseError :: "ParseError \<Rightarrow> str" where
  "display_ParseError (TooShort actual minimum) =
     ''packet is '' @ show_nat actual @ '' bytes; need at least '' @ show_nat minimum"
| "display_ParseError BadMagic = ''packet does not start with SMIUSB magic''"
| "display_ParseError (InvalidRequestLength declared actual) =
     ''request declares '' @ show_nat declared @ '' bytes but has '' @ show_nat actual"
| "display_ParseError (InvalidRequestClass cls) =
     ''unsupported request class '' @ show_hex_alt 0 (unat cls)"

fun display_FrameAckParseError :: "FrameAckParseError \<Rightarrow> str" where
  "display_FrameAckParseError (AckInvalidPacketLength actual expected) =
     ''frame ACK packet is '' @ show_nat actual @ '' bytes; expected exactly '' @ show_nat expected"
| "display_FrameAckParseError AckBadMagic = ''frame ACK does not start with SMIUSB magic''"
| "display_FrameAckParseError (AckInvalidDeclaredLength actual) =
     ''frame ACK declares '' @ show_u32 actual @ '' bytes; expected '' @ show_nat FRAME_ACK_SIZE"
| "display_FrameAckParseError (AckInvalidSignature actual) =
     ''invalid frame ACK signature '' @ show_hex_alt 10 (unat actual) @ ''; expected ''
     @ show_hex_alt 10 (unat FRAME_ACK_SIGNATURE)"

section \<open>Readers\<close>

text \<open>The slice of the source has the right length, so the \<open>expect\<close> after it never fails.\<close>

definition read_u32_le :: "bytes \<Rightarrow> usize \<Rightarrow> (u32, 'e) outcome" where
  "read_u32_le bs offset =
     and_then (add_usize offset 4) (\<lambda>end.
     and_then (slice bs offset end) (\<lambda>field. Ok (from_le_bytes field)))"

definition read_u16_be :: "bytes \<Rightarrow> usize \<Rightarrow> (u16, 'e) outcome" where
  "read_u16_be bs offset =
     and_then (add_usize offset 2) (\<lambda>end.
     and_then (slice bs offset end) (\<lambda>field. Ok (from_be_bytes field)))"

section \<open>Parsers\<close>

definition parse_frame_ack :: "bytes \<Rightarrow> (FrameAck, FrameAckParseError) outcome" where
  "parse_frame_ack packet =
     and_then (ensure (length packet = FRAME_ACK_SIZE)
                 (AckInvalidPacketLength (length packet) FRAME_ACK_SIZE)) (\<lambda>_.
     and_then (slice_to packet (length WIRE_MAGIC)) (\<lambda>magic.
     and_then (ensure (magic = WIRE_MAGIC) AckBadMagic) (\<lambda>_.
     and_then (read_u32_le packet 12) (\<lambda>declared_length.
     and_then (ensure (declared_length = of_nat FRAME_ACK_SIZE)
                 (AckInvalidDeclaredLength declared_length)) (\<lambda>_.
     and_then (read_u32_le packet 16) (\<lambda>signature.
     and_then (ensure (signature = FRAME_ACK_SIGNATURE) (AckInvalidSignature signature)) (\<lambda>_.
     and_then (index_at packet 20) (\<lambda>sequence.
     and_then (slice packet 21 24) (\<lambda>unclassified.
       Ok \<lparr>ack_sequence = sequence, unclassified_bytes21_23 = unclassified\<rparr>)))))))))"

definition parse_header :: "bytes \<Rightarrow> (WireHeader, ParseError) outcome" where
  "parse_header packet =
     and_then (ensure (\<not> length packet < 21) (TooShort (length packet) 21)) (\<lambda>_.
     and_then (slice_to packet (length WIRE_MAGIC)) (\<lambda>magic.
     and_then (ensure (magic = WIRE_MAGIC) BadMagic) (\<lambda>_.
     and_then (read_u32_le packet 12) (\<lambda>w12.
     and_then (read_u32_le packet 16) (\<lambda>w16.
     and_then (index_at packet 20) (\<lambda>b20.
       Ok \<lparr>word12 = w12, word16 = w16, byte20 = b20\<rparr>))))))"

definition parse_canonical_command_request :: "bytes \<Rightarrow> (CommandRequest, ParseError) outcome" where
  "parse_canonical_command_request packet =
     and_then (parse_header packet) (\<lambda>header.
     let declared = unat (word12 header) in
     and_then (ensure (declared = length packet)
                 (InvalidRequestLength declared (length packet))) (\<lambda>_.
     and_then (ensure (word16 header = COMMAND_CLASS)
                 (InvalidRequestClass (word16 header))) (\<lambda>_.
       Ok \<lparr>request_length = declared, request_opcode = byte20 header\<rparr>)))"

section \<open>Builders\<close>

definition build_zeroed_request :: "usize \<Rightarrow> u8 \<Rightarrow> (bytes, 'e) outcome" where
  "build_zeroed_request n opcode =
     and_then (copy_into (replicate n 0) 0 (length WIRE_MAGIC) WIRE_MAGIC) (\<lambda>packet.
     and_then (copy_into packet 12 16 (to_le_bytes 4 (of_nat n :: u32))) (\<lambda>packet.
     and_then (copy_into packet 16 20 (to_le_bytes 4 COMMAND_CLASS)) (\<lambda>packet.
       set_at packet 20 opcode)))"

definition build_bulk_heartbeat_request :: "u32 \<Rightarrow> (bytes, BuildError) outcome" where
  "build_bulk_heartbeat_request client_tag =
     (let text = show_u32 client_tag in
      and_then (ensure (\<not> length text > HEARTBEAT_TAG_CAPACITY)
                  (ClientTagTooLong (length text) HEARTBEAT_TAG_CAPACITY)) (\<lambda>_.
      and_then (build_zeroed_request HEARTBEAT_SIZE BULK_HEARTBEAT_OPCODE) (\<lambda>packet.
      and_then (add_usize HEARTBEAT_TAG_OFFSET (length text)) (\<lambda>end.
        copy_into packet HEARTBEAT_TAG_OFFSET end (ascii text)))))"

definition build_capabilities_request :: "(bytes, 'e) outcome" where
  "build_capabilities_request = build_zeroed_request HEADER_SIZE CAPABILITIES_OPCODE"

section \<open>The mode table\<close>

definition plausible :: "Mode \<Rightarrow> bool" where
  "plausible mode \<longleftrightarrow>
     320 \<le> mode_width mode \<and> mode_width mode \<le> 16384
     \<and> 200 \<le> mode_height mode \<and> mode_height mode \<le> 16384
     \<and> 1 \<le> refresh_hz mode \<and> refresh_hz mode \<le> 1000
     \<and> bits_per_pixel mode \<in> {8, 16, 24, 30, 32}"

definition read_mode :: "bytes \<Rightarrow> (Mode, 'e) outcome" where
  "read_mode row =
     and_then (read_u32_le row 0) (\<lambda>w.
     and_then (read_u32_le row 4) (\<lambda>h.
     and_then (read_u32_le row 8) (\<lambda>r.
     and_then (read_u32_le row 12) (\<lambda>b.
       Ok \<lparr>mode_width = w, mode_height = h, refresh_hz = r, bits_per_pixel = b\<rparr>))))"

text \<open>The loop over the rows, with the modes pushed so far; a \<open>break\<close> ends it.\<close>

fun mode_rows :: "bytes list \<Rightarrow> Mode list \<Rightarrow> (Mode list, 'e) outcome" where
  "mode_rows [] modes = Ok modes"
| "mode_rows (row # rows) modes =
     and_then (read_mode row) (\<lambda>mode.
       if mode = \<lparr>mode_width = 0, mode_height = 0, refresh_hz = 0, bits_per_pixel = 0\<rparr>
       then Ok modes
       else if \<not> plausible mode then Ok modes
       else mode_rows rows (modes @ [mode]))"

definition parse_observed_modes :: "bytes \<Rightarrow> (Mode list, ParseError) outcome" where
  "parse_observed_modes packet =
     and_then (parse_header packet) (\<lambda>_.
     and_then (ensure (\<not> length packet < HEADER_SIZE)
                 (TooShort (length packet) HEADER_SIZE)) (\<lambda>_.
     and_then (slice_from packet HEADER_SIZE) (\<lambda>rows.
       mode_rows (take 256 (chunks_exact 16 rows)) [])))"

section \<open>Layouts\<close>

text \<open>What the parsers accept, as a relation between a decoded value and the bytes of a packet.\<close>

definition header_layout :: "WireHeader \<Rightarrow> bytes \<Rightarrow> bool" where
  "header_layout h p \<longleftrightarrow>
     (\<exists>tail. p = WIRE_MAGIC @ to_le_bytes 4 (word12 h) @ to_le_bytes 4 (word16 h) @ [byte20 h] @ tail)"

definition request_layout :: "CommandRequest \<Rightarrow> bytes \<Rightarrow> bool" where
  "request_layout r p \<longleftrightarrow>
     request_length r = length p \<and> length p < 2 ^ 32
     \<and> (\<exists>tail. p = WIRE_MAGIC @ to_le_bytes 4 (of_nat (length p) :: u32)
               @ to_le_bytes 4 COMMAND_CLASS @ [request_opcode r] @ tail)"

definition ack_layout :: "FrameAck \<Rightarrow> bytes \<Rightarrow> bool" where
  "ack_layout a p \<longleftrightarrow>
     length (unclassified_bytes21_23 a) = 3
     \<and> (\<exists>tail. length tail = 1000
          \<and> p = WIRE_MAGIC @ to_le_bytes 4 (1024 :: u32) @ to_le_bytes 4 FRAME_ACK_SIGNATURE
               @ [ack_sequence a] @ unclassified_bytes21_23 a @ tail)"

definition mode_bytes :: "Mode \<Rightarrow> bytes" where
  "mode_bytes m = to_le_bytes 4 (mode_width m) @ to_le_bytes 4 (mode_height m)
     @ to_le_bytes 4 (refresh_hz m) @ to_le_bytes 4 (bits_per_pixel m)"

definition decode_mode :: "bytes \<Rightarrow> Mode" where
  "decode_mode row =
     \<lparr>mode_width = from_le_bytes (take 4 row), mode_height = from_le_bytes (take 4 (drop 4 row)),
      refresh_hz = from_le_bytes (take 4 (drop 8 row)),
      bits_per_pixel = from_le_bytes (take 4 (drop 12 row))\<rparr>"

section \<open>Lemmas: fields\<close>

lemma length_WIRE_MAGIC [simp]: "length WIRE_MAGIC = 12"
  by (simp add: WIRE_MAGIC_def ascii_def)

lemma WIRE_MAGIC_bytes:
  "WIRE_MAGIC = [0x73, 0x6d, 0x69, 0x66, 0x61, 0x6c, 0x63, 0x6f, 0x6e, 0x73, 0x74, 0x61]"
  by (simp add: WIRE_MAGIC_def ascii_def)

lemma length_ascii [simp]: "length (ascii s) = length s"
  by (simp add: ascii_def)

lemma read_u32_le_Ok:
  "offset + 4 \<le> length bs \<Longrightarrow> offset + 4 \<le> usize_max \<Longrightarrow>
     read_u32_le bs offset = Ok (from_le_bytes (take 4 (drop offset bs)))"
  by (simp add: read_u32_le_def add_usize_def slice_simps)

lemma read_u16_be_Ok:
  "offset + 2 \<le> length bs \<Longrightarrow> offset + 2 \<le> usize_max \<Longrightarrow>
     read_u16_be bs offset = Ok (from_be_bytes (take 2 (drop offset bs)))"
  by (simp add: read_u16_be_def add_usize_def slice_simps)

text \<open>Splitting a packet at the fixed offsets of the header.\<close>

lemma header_split:
  assumes "21 \<le> length p"
  shows "p = take 12 p @ take 4 (drop 12 p) @ take 4 (drop 16 p) @ [p ! 20] @ drop 21 p"
proof -
  have "p = take 12 p @ drop 12 p" by simp
  moreover have "drop 12 p = take 4 (drop 12 p) @ drop 16 p"
    using append_take_drop_id [of 4 "drop 12 p"] by simp
  moreover have "drop 16 p = take 4 (drop 16 p) @ drop 20 p"
    using append_take_drop_id [of 4 "drop 16 p"] by simp
  moreover have "drop 20 p = [p ! 20] @ drop 21 p"
    using assms Cons_nth_drop_Suc [of 20 p] by simp
  ultimately show ?thesis by metis
qed

lemma parse_header_eq:
  "parse_header p =
     (if length p < 21 then Err (TooShort (length p) 21)
      else if take 12 p \<noteq> WIRE_MAGIC then Err BadMagic
      else Ok \<lparr>word12 = from_le_bytes (take 4 (drop 12 p)),
               word16 = from_le_bytes (take 4 (drop 16 p)), byte20 = p ! 20\<rparr>)"
  by (simp add: parse_header_def read_u32_le_Ok slice_simps const_simps)

lemma parse_header_layout: "parse_header p = Ok h \<longleftrightarrow> header_layout h p"
proof
  assume "parse_header p = Ok h"
  then have len: "21 \<le> length p" and magic: "take 12 p = WIRE_MAGIC"
    and h: "h = \<lparr>word12 = from_le_bytes (take 4 (drop 12 p)),
               word16 = from_le_bytes (take 4 (drop 16 p)), byte20 = p ! 20\<rparr>"
    by (auto simp: parse_header_eq split: if_splits)
  show "header_layout h p"
    unfolding header_layout_def
    using header_split [OF len] len magic by (auto simp: h u32_le.enc_field)
next
  assume "header_layout h p"
  then obtain tail where
    p: "p = WIRE_MAGIC @ to_le_bytes 4 (word12 h) @ to_le_bytes 4 (word16 h) @ [byte20 h] @ tail"
    by (auto simp: header_layout_def)
  show "parse_header p = Ok h"
    by (simp add: parse_header_eq p u32_le.dec_enc nth_append)
qed

interpretation wire_header: strict_decoder parse_header header_layout
proof
  fix p
  show "parse_header p \<noteq> Panic" by (simp add: parse_header_eq)
qed (rule parse_header_layout)

lemma parse_canonical_eq:
  "parse_canonical_command_request p =
     (if length p < 21 then Err (TooShort (length p) 21)
      else if take 12 p \<noteq> WIRE_MAGIC then Err BadMagic
      else let declared = from_le_bytes (take 4 (drop 12 p)) :: u32;
               cls = from_le_bytes (take 4 (drop 16 p))
           in if unat declared \<noteq> length p then Err (InvalidRequestLength (unat declared) (length p))
              else if cls \<noteq> COMMAND_CLASS then Err (InvalidRequestClass cls)
              else Ok \<lparr>request_length = length p, request_opcode = p ! 20\<rparr>)"
  by (simp add: parse_canonical_command_request_def parse_header_eq ensure_def Let_def)

lemma parse_canonical_layout: "parse_canonical_command_request p = Ok r \<longleftrightarrow> request_layout r p"
proof
  assume ok: "parse_canonical_command_request p = Ok r"
  then obtain h where h: "header_layout h p" "unat (word12 h) = length p" "word16 h = COMMAND_CLASS"
    and r: "r = \<lparr>request_length = length p, request_opcode = byte20 h\<rparr>"
    by (auto simp: parse_canonical_command_request_def outcome_simps Let_def parse_header_layout)
  have "word12 h = of_nat (length p)" by (simp add: h(2) [symmetric])
  moreover have "length p < 2 ^ 32"
    using h(2) unsigned_less [of "word12 h", where 'a = nat] by simp
  ultimately show "request_layout r p"
    using h by (auto simp: request_layout_def header_layout_def r)
next
  assume lay: "request_layout r p"
  define h where "h = \<lparr>word12 = of_nat (length p), word16 = COMMAND_CLASS, byte20 = request_opcode r\<rparr>"
  have "header_layout h p" using lay by (auto simp: request_layout_def header_layout_def h_def)
  moreover have "unat (word12 h) = length p"
    using lay by (simp add: h_def request_layout_def unat_of_nat)
  ultimately show "parse_canonical_command_request p = Ok r"
    using lay by (simp add: parse_canonical_command_request_def parse_header_layout [symmetric]
        h_def request_layout_def)
qed

interpretation command_request: strict_decoder parse_canonical_command_request request_layout
proof
  fix p
  show "parse_canonical_command_request p \<noteq> Panic" by (simp add: parse_canonical_eq Let_def)
qed (rule parse_canonical_layout)

lemma parse_frame_ack_eq:
  "parse_frame_ack p =
     (if length p \<noteq> 1024 then Err (AckInvalidPacketLength (length p) 1024)
      else if take 12 p \<noteq> WIRE_MAGIC then Err AckBadMagic
      else let declared = from_le_bytes (take 4 (drop 12 p)); signature = from_le_bytes (take 4 (drop 16 p))
           in if declared \<noteq> 1024 then Err (AckInvalidDeclaredLength declared)
              else if signature \<noteq> FRAME_ACK_SIGNATURE then Err (AckInvalidSignature signature)
              else Ok \<lparr>ack_sequence = p ! 20, unclassified_bytes21_23 = take 3 (drop 21 p)\<rparr>)"
  by (simp add: parse_frame_ack_def ensure_def read_u32_le_Ok slice_simps const_simps Let_def)

lemma parse_frame_ack_layout: "parse_frame_ack p = Ok a \<longleftrightarrow> ack_layout a p"
proof
  assume "parse_frame_ack p = Ok a"
  then have len: "length p = 1024" and magic: "take 12 p = WIRE_MAGIC"
    and w12: "from_le_bytes (take 4 (drop 12 p)) = (1024 :: u32)"
    and w16: "from_le_bytes (take 4 (drop 16 p)) = FRAME_ACK_SIGNATURE"
    and a: "a = \<lparr>ack_sequence = p ! 20, unclassified_bytes21_23 = take 3 (drop 21 p)\<rparr>"
    by (auto simp: parse_frame_ack_eq Let_def split: if_splits)
  have "p = take 12 p @ take 4 (drop 12 p) @ take 4 (drop 16 p) @ [p ! 20] @ drop 21 p"
    by (rule header_split) (simp add: len)
  also have "drop 21 p = take 3 (drop 21 p) @ drop 24 p"
    using append_take_drop_id [of 3 "drop 21 p"] by simp
  finally show "ack_layout a p"
    unfolding ack_layout_def
    using len magic w12 w16 by (auto simp: a u32_le.dec_eq_iff intro!: exI [of _ "drop 24 p"])
next
  assume "ack_layout a p"
  then obtain tail where tail: "length tail = 1000" "length (unclassified_bytes21_23 a) = 3"
    and p: "p = WIRE_MAGIC @ to_le_bytes 4 (1024 :: u32) @ to_le_bytes 4 FRAME_ACK_SIGNATURE
               @ [ack_sequence a] @ unclassified_bytes21_23 a @ tail"
    by (auto simp: ack_layout_def)
  from tail show "parse_frame_ack p = Ok a"
    by (simp add: parse_frame_ack_eq p u32_le.dec_enc nth_append)
qed

interpretation frame_ack: strict_decoder parse_frame_ack ack_layout
proof
  fix p
  show "parse_frame_ack p \<noteq> Panic" by (simp add: parse_frame_ack_eq Let_def)
qed (rule parse_frame_ack_layout)

section \<open>Lemmas: builders\<close>

lemma build_zeroed_request_eq:
  assumes "21 \<le> n"
  shows "build_zeroed_request n opcode =
    Ok (WIRE_MAGIC @ to_le_bytes 4 (of_nat n :: u32) @ to_le_bytes 4 COMMAND_CLASS @ [opcode]
        @ replicate (n - 21) 0)"
proof -
  from assms obtain m where n: "n = 21 + m" using le_Suc_ex by blast
  then have "n - 20 = Suc m" "n - 21 = m" by auto
  then show ?thesis
    using n by (simp add: build_zeroed_request_def copy_into_def set_at_def list_update_append
        del: replicate_add)
qed

lemma build_zeroed_request_parses:
  "21 \<le> n \<Longrightarrow> n < 2 ^ 32 \<Longrightarrow> build_zeroed_request n opcode = Ok p \<Longrightarrow>
     parse_canonical_command_request p = Ok \<lparr>request_length = n, request_opcode = opcode\<rparr>"
  by (auto simp: build_zeroed_request_eq parse_canonical_layout request_layout_def)

definition heartbeat_bytes :: "u32 \<Rightarrow> bytes" where
  "heartbeat_bytes tag =
     WIRE_MAGIC @ to_le_bytes 4 (44 :: u32) @ to_le_bytes 4 COMMAND_CLASS @ [BULK_HEARTBEAT_OPCODE]
     @ replicate 14 0 @ ascii (show_u32 tag) @ replicate (9 - length (show_u32 tag)) 0"

lemma length_show_u32_le_8: "length (show_u32 tag) \<le> 8 \<longleftrightarrow> unat tag < 100000000"
  by (simp add: show_u32_def length_show_radix_le)

lemma build_bulk_heartbeat_request_eq:
  "build_bulk_heartbeat_request tag =
     (if unat tag < 100000000 then Ok (heartbeat_bytes tag)
      else Err (ClientTagTooLong (length (show_u32 tag)) 8))"
proof (cases "unat tag < 100000000")
  case True
  then have len: "length (show_u32 tag) \<le> 8" by (simp add: length_show_u32_le_8)
  have "take 35 (WIRE_MAGIC @ to_le_bytes 4 (44 :: u32) @ to_le_bytes 4 COMMAND_CLASS
          @ [BULK_HEARTBEAT_OPCODE] @ replicate 23 0)
        = WIRE_MAGIC @ to_le_bytes 4 (44 :: u32) @ to_le_bytes 4 COMMAND_CLASS
          @ [BULK_HEARTBEAT_OPCODE] @ replicate 14 0"
    by (simp add: take_Cons')
  moreover have "drop (35 + length (show_u32 tag)) (WIRE_MAGIC @ to_le_bytes 4 (44 :: u32)
          @ to_le_bytes 4 COMMAND_CLASS @ [BULK_HEARTBEAT_OPCODE] @ replicate 23 0)
        = replicate (9 - length (show_u32 tag)) 0"
    using len by (simp add: drop_Cons')
  ultimately show ?thesis
    using True len
    by (simp add: build_bulk_heartbeat_request_def build_zeroed_request_eq copy_into_def add_usize_def
        heartbeat_bytes_def const_simps Let_def)
next
  case False
  then show ?thesis
    using length_show_u32_le_8 [of tag]
    by (simp add: build_bulk_heartbeat_request_def const_simps Let_def)
qed

lemma length_heartbeat_bytes: "unat tag < 100000000 \<Longrightarrow> length (heartbeat_bytes tag) = 44"
  using length_show_u32_le_8 [of tag] by (simp add: heartbeat_bytes_def)

text \<open>The decimal digits contain no NUL, so the tag ends at the first zero byte.\<close>

lemma ascii_show_nat_nonzero: "b \<in> set (ascii (show_nat n)) \<Longrightarrow> b \<noteq> 0"
proof -
  assume "b \<in> set (ascii (show_nat n))"
  then obtain c where c: "c \<in> set (show_nat n)" "b = of_nat (of_char c)" by (auto simp: ascii_def)
  from show_nat_digits [OF c(1)] have r: "48 \<le> (of_char c :: nat)" "(of_char c :: nat) < 256"
    by (auto simp: is_ascii_digit_def)
  have "unat b = of_char c" using r(2) by (simp add: c(2) unat_of_nat)
  with r(1) show ?thesis by auto
qed

lemma chars_of_ascii: "map (\<lambda>b. char_of (unat b)) (ascii s) = s"
proof -
  have "char_of (unat (of_nat (of_char c) :: u8)) = c" for c
    by (simp add: unat_of_nat)
  then show ?thesis by (simp add: ascii_def comp_def)
qed

lemma takeWhile_nonzero:
  "(\<And>b. b \<in> set xs \<Longrightarrow> b \<noteq> (0 :: u8)) \<Longrightarrow> takeWhile (\<lambda>b. b \<noteq> 0) (xs @ replicate n 0) = xs"
  by (induction xs) (auto simp: takeWhile_eq_Nil_iff hd_replicate)

lemma heartbeat_tag_readback:
  "takeWhile (\<lambda>b. b \<noteq> 0) (drop 35 (heartbeat_bytes tag)) = ascii (show_u32 tag)"
  using takeWhile_nonzero [of "ascii (show_u32 tag)", OF ascii_show_nat_nonzero]
  by (simp add: heartbeat_bytes_def drop_Cons' show_u32_def)

lemma parse_u32_show: "parse_u32 (show_u32 tag) = Some tag"
proof -
  have "unat tag \<le> 4294967295" using unsigned_less [of tag, where 'a = nat] by simp
  then show ?thesis by (simp add: parse_u32_def show_u32_def parse_unsigned_show)
qed

section \<open>Lemmas: the mode table\<close>

lemma read_mode_eq: "length row = 16 \<Longrightarrow> read_mode row = Ok (decode_mode row)"
  by (simp add: read_mode_def decode_mode_def read_u32_le_Ok const_simps)

lemma zero_mode_implausible:
  "\<not> plausible \<lparr>mode_width = 0, mode_height = 0, refresh_hz = 0, bits_per_pixel = 0\<rparr>"
  by (simp add: plausible_def)

lemma mode_rows_eq:
  "(\<forall>row \<in> set rows. length row = 16) \<Longrightarrow>
     mode_rows rows modes = Ok (modes @ takeWhile plausible (map decode_mode rows))"
proof (induction rows arbitrary: modes)
  case (Cons row rows)
  then show ?case by (auto simp: read_mode_eq zero_mode_implausible)
qed simp

lemma parse_observed_modes_eq:
  "parse_observed_modes p =
     (if length p < 21 then Err (TooShort (length p) 21)
      else if take 12 p \<noteq> WIRE_MAGIC then Err BadMagic
      else if length p < 48 then Err (TooShort (length p) 48)
      else Ok (takeWhile plausible (map decode_mode (take 256 (chunks_exact 16 (drop 48 p))))))"
proof -
  have "\<forall>row \<in> set (take 256 (chunks_exact 16 (drop 48 p))). length row = 16"
    by (auto dest!: in_set_takeD chunks_exact_length)
  then
  have rows: "mode_rows (take 256 (chunks_exact 16 (drop 48 p))) [] =
      (Ok :: _ \<Rightarrow> (_, ParseError) outcome) (takeWhile plausible (map decode_mode (take 256 (chunks_exact 16 (drop 48 p)))))"
    by (simp only: mode_rows_eq append_Nil)
  have "parse_observed_modes p = and_then (parse_header p) (\<lambda>_.
     and_then (ensure (\<not> length p < 48) (TooShort (length p) 48)) (\<lambda>_.
       Ok (takeWhile plausible (map decode_mode (take 256 (chunks_exact 16 (drop 48 p)))))))"
  proof (cases "length p < 48")
    case True
    then show ?thesis by (simp add: parse_observed_modes_def HEADER_SIZE_def)
  next
    case False
    then have "48 \<le> length p" by simp
    then show ?thesis
      by (simp only: parse_observed_modes_def HEADER_SIZE_def slice_Ok(2) and_then.simps rows)
  qed
  then show ?thesis by (simp only: parse_header_eq and_then.simps ensure_def split: if_split) simp
qed

lemma length_mode_bytes [simp]: "length (mode_bytes m) = 16"
  by (simp add: mode_bytes_def)

lemma decode_mode_bytes [simp]: "decode_mode (mode_bytes m) = m"
  by (simp add: decode_mode_def mode_bytes_def u32_le.dec_enc)

lemma chunks_mode_bytes:
  "chunks_exact 16 (concat (map mode_bytes ms) @ tail) = map mode_bytes ms @ chunks_exact 16 tail"
  by (induction ms) (simp_all add: chunks_exact_step)

lemma from_le_bytes_zeros: "from_le_bytes (replicate n 0) = 0"
  by (induction n) simp_all

lemma length_chunks_exact: "16 * length (chunks_exact 16 xs) \<le> length xs"
proof (induction "16 :: nat" xs rule: chunks_exact.induct)
  case (1 xs)
  then show ?case by (subst chunks_exact.simps) auto
qed

lemma length_show_u32_digits:
  assumes "\<not> unat tag < 100000000"
  shows "length (show_u32 tag) = (if unat tag < 1000000000 then 9 else 10)"
proof -
  have "unat tag < 10000000000" using unsigned_less [of tag, where 'a = nat] by simp
  moreover have "length (show_u32 tag) \<le> k \<longleftrightarrow> unat tag < 10 ^ k" if "0 < k" for k
    using that by (simp add: show_u32_def length_show_radix_le)
  from this [of 8] this [of 9] this [of 10]
  have "length (show_u32 tag) \<le> 8 \<longleftrightarrow> unat tag < 100000000"
    "length (show_u32 tag) \<le> 9 \<longleftrightarrow> unat tag < 1000000000"
    "length (show_u32 tag) \<le> 10 \<longleftrightarrow> unat tag < 10000000000"
    by simp_all
  ultimately show ?thesis using assms by auto
qed

section \<open>Properties\<close>

text \<open>C35: \<open>parse_frame_ack\<close> accepts a packet exactly when it is 1024 bytes long, starts with
  the magic, declares 1024 bytes, carries the acknowledgement signature, and then holds the
  decoded sequence byte and the three unclassified bytes, whatever its last 1000 bytes are. It
  never panics, and every other packet gets the error of the first check it fails: length,
  magic, declared length, signature.\<close>

theorem frame_ack_exact:
  "(parse_frame_ack p = Ok a \<longleftrightarrow> ack_layout a p) \<and> parse_frame_ack p \<noteq> Panic
   \<and> (parse_frame_ack p = Err e \<longleftrightarrow>
     (if length p \<noteq> 1024 then e = AckInvalidPacketLength (length p) 1024
      else if take 12 p \<noteq> WIRE_MAGIC then e = AckBadMagic
      else if take 4 (drop 12 p) \<noteq> to_le_bytes 4 (1024 :: u32)
        then e = AckInvalidDeclaredLength (from_le_bytes (take 4 (drop 12 p)))
      else take 4 (drop 16 p) \<noteq> to_le_bytes 4 FRAME_ACK_SIGNATURE
        \<and> e = AckInvalidSignature (from_le_bytes (take 4 (drop 16 p)))))"
  by (intro conjI frame_ack.parse_Ok_iff frame_ack.no_panic)
    (auto simp: parse_frame_ack_eq Let_def u32_le.dec_eq_iff)

text \<open>C39: \<open>parse_canonical_command_request\<close> accepts exactly the packets whose length word is
  their own length, whose class word is 6 and which start with the magic; the opcode it returns
  is byte 20. It never panics, and it returns an error exactly on the packets that match no
  request layout.\<close>

theorem canonical_request_exact:
  "(parse_canonical_command_request p = Ok r \<longleftrightarrow> request_layout r p)
   \<and> parse_canonical_command_request p \<noteq> Panic
   \<and> ((\<exists>e. parse_canonical_command_request p = Err e) \<longleftrightarrow> (\<forall>r. \<not> request_layout r p))"
  by (intro conjI command_request.parse_Ok_iff command_request.no_panic command_request.rejects_iff)

text \<open>A heartbeat request that is built is 44 bytes long, is recognised by the driver's own
  request parser with opcode 0xec, has zero bytes between the opcode and the tag and in its last
  position, and the NUL-terminated text at offset 35 reads back as the client tag.\<close>

lemma heartbeat_request_roundtrip:
  assumes "build_bulk_heartbeat_request tag = Ok p"
  shows "length p = 44
    \<and> parse_canonical_command_request p = Ok \<lparr>request_length = 44, request_opcode = 0xec\<rparr>
    \<and> take 14 (drop 21 p) = replicate 14 0 \<and> last p = 0
    \<and> parse_u32 (map (\<lambda>b. char_of (unat b)) (takeWhile (\<lambda>b. b \<noteq> 0) (drop 35 p))) = Some tag"
proof (intro conjI)
  from assms have small: "unat tag < 100000000" and p: "p = heartbeat_bytes tag"
    by (auto simp: build_bulk_heartbeat_request_eq split: if_splits)
  have len: "length (show_u32 tag) \<le> 8" using small by (simp add: length_show_u32_le_8)
  show l: "length p = 44" using small by (simp add: p length_heartbeat_bytes)
  show "parse_canonical_command_request p = Ok \<lparr>request_length = 44, request_opcode = 0xec\<rparr>"
    unfolding parse_canonical_layout request_layout_def l
    by (simp add: p heartbeat_bytes_def const_simps)
  show "take 14 (drop 21 p) = replicate 14 0"
    by (simp add: p heartbeat_bytes_def drop_Cons' take_Cons')
  show "last p = 0" using len by (simp add: p heartbeat_bytes_def last_append)
  show "parse_u32 (map (\<lambda>b. char_of (unat b)) (takeWhile (\<lambda>b. b \<noteq> 0) (drop 35 p))) = Some tag"
    by (simp add: p heartbeat_tag_readback chars_of_ascii parse_u32_show)
qed

text \<open>The heartbeat builder is total and refuses exactly the tags of nine or ten digits,
  which would leave no room for the terminating NUL, reporting their digit count; the
  capabilities request always builds and parses back as a 48-byte request with opcode 0x65.\<close>

lemma request_builders_total:
  "build_bulk_heartbeat_request tag =
     (if unat tag < 100000000 then Ok (heartbeat_bytes tag)
      else Err (ClientTagTooLong (if unat tag < 1000000000 then 9 else 10) 8))
   \<and> (\<exists>p. build_capabilities_request = Ok p \<and> length p = 48
     \<and> parse_canonical_command_request p = Ok \<lparr>request_length = 48, request_opcode = 0x65\<rparr>)"
proof
  show "build_bulk_heartbeat_request tag =
     (if unat tag < 100000000 then Ok (heartbeat_bytes tag)
      else Err (ClientTagTooLong (if unat tag < 1000000000 then 9 else 10) 8))"
    using length_show_u32_digits [of tag] by (simp add: build_bulk_heartbeat_request_eq)
  show "\<exists>p. build_capabilities_request = Ok p \<and> length p = 48
     \<and> parse_canonical_command_request p = Ok \<lparr>request_length = 48, request_opcode = 0x65\<rparr>"
    by (simp add: build_capabilities_request_def build_zeroed_request_eq parse_canonical_layout
        request_layout_def const_simps)
qed

text \<open>The modes that \<open>parse_observed_modes\<close> returns are the longest prefix of plausible
  16-byte rows behind the 48-byte header: at most 256 of them, none reaching past the packet,
  and, unless the limit or the end of the packet stopped it, followed by a row that is not
  plausible. The source's separate test for a zero row never changes this.\<close>

lemma observed_modes_spec:
  assumes "parse_observed_modes p = Ok ms"
  shows "ms = takeWhile plausible (map decode_mode (take 256 (chunks_exact 16 (drop 48 p))))
    \<and> length ms \<le> 256 \<and> 48 + 16 * length ms \<le> length p \<and> list_all plausible ms"
proof -
  let ?rows = "chunks_exact 16 (drop 48 p)"
  from assms have p: "48 \<le> length p"
    and ms: "ms = takeWhile plausible (map decode_mode (take 256 ?rows))"
    by (auto simp: parse_observed_modes_eq split: if_splits)
  have "length ms \<le> min (length ?rows) 256"
    using length_takeWhile_le [of plausible "map decode_mode (take 256 ?rows)"]
    by (simp only: ms length_map length_take)
  moreover have "16 * length ?rows \<le> length p - 48"
    using length_chunks_exact [of "drop 48 p"] by simp
  moreover have "list_all plausible ms"
    by (auto simp: ms list_all_iff dest: set_takeWhileD)
  ultimately show ?thesis using p ms by auto
qed

text \<open>A mode table written as consecutive plausible rows after any 48-byte header that
  starts with the magic is read back exactly, if it holds at most 256 rows and is followed by
  fewer than 16 bytes, by an implausible row (such as the zero row), or by the row limit.\<close>

lemma observed_modes_roundtrip:
  assumes "length hdr = 48" and "take 12 hdr = WIRE_MAGIC" and "list_all plausible ms"
    and "length ms \<le> 256"
    and "length ms = 256 \<or> length tail < 16 \<or> \<not> plausible (decode_mode (take 16 tail))"
  shows "parse_observed_modes (hdr @ concat (map mode_bytes ms) @ tail) = Ok ms"
proof -
  let ?rest = "map decode_mode (take (256 - length ms) (chunks_exact 16 tail))"
  have "takeWhile plausible ?rest = []"
  proof (cases "length ms = 256 \<or> length tail < 16")
    case True
    then show ?thesis by (auto simp: chunks_exact_short)
  next
    case False
    then have "chunks_exact 16 tail = take 16 tail # chunks_exact 16 (drop 16 tail)"
      by (subst chunks_exact.simps) simp
    with False assms(5) show ?thesis by (simp add: takeWhile_eq_Nil_iff take_Cons')
  qed
  moreover have "map decode_mode (take 256 (chunks_exact 16 (concat (map mode_bytes ms) @ tail)))
      = ms @ ?rest"
    using assms(4) by (simp add: chunks_mode_bytes comp_def take_map)
  ultimately have "takeWhile plausible
      (map decode_mode (take 256 (chunks_exact 16 (concat (map mode_bytes ms) @ tail)))) = ms"
    using assms(3) by (simp only: takeWhile_append2 list_all_iff append_Nil2) 
  with assms(1,2) show ?thesis
    by (simp add: parse_observed_modes_eq del: takeWhile_eq_all_conv)
qed

end
