(* ===== verification/Jpeg_Stream.thy ===== *)
theory Jpeg_Stream
  imports Wire
begin

text \<open>
  The structural JPEG walk of \<open>rust/src/protocol.rs\<close> (\<open>parse_jpeg_end\<close>), which finds the end of
  the JPEG inside a frame packet, and the errors of the frame parser. The walk is modelled with
  its cursor, its two flags and its inner loops. A grammar of JPEG streams, given as syntax
  trees with a printer, is the specification: the walk returns \<open>n\<close> exactly when the first
  \<open>n\<close> bytes are the printed form of a well-formed tree.
\<close>

section \<open>Errors of the frame parser\<close>

datatype FrameParseError =
    InvalidMaxPacketSize usize
  | FrameTooShort usize usize
  | FrameBadMagic
  | DeclaredLengthDoesNotFit u32
  | DeclaredLengthMismatch usize usize
  | InvalidSignature u32
  | InvalidFrameType u8 u8
  | MissingJpegStart
  | ExpectedJpegMarker usize u8
  | TruncatedJpegMarker usize
  | TruncatedJpegSegmentLength usize u8
  | InvalidJpegSegmentLength usize u8 usize
  | TruncatedJpegSegment usize u8 usize usize
  | InvalidJpegScanHeader usize usize usize
  | UnexpectedJpegMarker usize u8
  | JpegEndBeforeScan usize
  | MissingJpegEnd
  | LengthOverflow
  | TruncatedDecoderMetadata usize usize
  | PaddingTooLong usize usize
  | NonZeroPadding usize u8
  | UnalignedPayload usize usize usize

fun display_FrameParseError :: "FrameParseError \<Rightarrow> str" where
  "display_FrameParseError (InvalidMaxPacketSize actual) =
     ''unsupported bulk max-packet size '' @ show_nat actual @ ''; expected 512 or 1024''"
| "display_FrameParseError (FrameTooShort actual minimum) =
     ''frame is '' @ show_nat actual @ '' bytes; need at least '' @ show_nat minimum"
| "display_FrameParseError FrameBadMagic = ''frame does not start with SMIUSB magic''"
| "display_FrameParseError (DeclaredLengthDoesNotFit declared) =
     ''declared frame length '' @ show_u32 declared @ '' does not fit this platform''"
| "display_FrameParseError (DeclaredLengthMismatch declared actual) =
     ''frame declares '' @ show_nat declared @ '' bytes but capture has '' @ show_nat actual"
| "display_FrameParseError (InvalidSignature actual) =
     ''invalid SM768 frame signature '' @ show_hex_alt 10 (unat actual) @ ''; expected ''
     @ show_hex_alt 10 (unat FRAME_SIGNATURE)"
| "display_FrameParseError (InvalidFrameType b20 b21) =
     ''invalid SM768 frame type '' @ show_hex_alt 4 (unat b20) @ ''/'' @ show_hex_alt 4 (unat b21)
     @ ''; expected '' @ show_hex_alt 4 (unat FRAME_TYPE) @ ''/'' @ show_hex_alt 4 (unat FRAME_SUBTYPE)"
| "display_FrameParseError MissingJpegStart = ''frame payload does not start with JPEG SOI''"
| "display_FrameParseError (ExpectedJpegMarker offset byte) =
     ''expected a JPEG marker at payload offset '' @ show_nat offset @ '', found ''
     @ show_hex_alt 4 (unat byte)"
| "display_FrameParseError (TruncatedJpegMarker offset) =
     ''truncated JPEG marker at payload offset '' @ show_nat offset"
| "display_FrameParseError (TruncatedJpegSegmentLength offset marker) =
     ''truncated JPEG '' @ show_hex_alt 4 (unat marker) @ '' segment length at payload offset ''
     @ show_nat offset"
| "display_FrameParseError (InvalidJpegSegmentLength offset marker len) =
     ''invalid JPEG '' @ show_hex_alt 4 (unat marker) @ '' segment length '' @ show_nat len
     @ '' at payload offset '' @ show_nat offset"
| "display_FrameParseError (TruncatedJpegSegment offset marker len available) =
     ''JPEG '' @ show_hex_alt 4 (unat marker) @ '' segment at payload offset '' @ show_nat offset
     @ '' declares '' @ show_nat len @ '' bytes but only '' @ show_nat available @ '' remain''"
| "display_FrameParseError (InvalidJpegScanHeader offset len components) =
     ''invalid JPEG SOS header at payload offset '' @ show_nat offset @ '': length='' @ show_nat len
     @ '', components='' @ show_nat components"
| "display_FrameParseError (UnexpectedJpegMarker offset marker) =
     ''unexpected JPEG marker '' @ show_hex_alt 4 (unat marker) @ '' at payload offset ''
     @ show_nat offset"
| "display_FrameParseError (JpegEndBeforeScan offset) =
     ''JPEG EOI at payload offset '' @ show_nat offset @ '' appears before any scan''"
| "display_FrameParseError MissingJpegEnd = ''JPEG payload has no structural EOI marker''"
| "display_FrameParseError LengthOverflow = ''frame layout length overflows this platform''"
| "display_FrameParseError (TruncatedDecoderMetadata actual expected) =
     ''decoder metadata has '' @ show_nat actual @ '' bytes; expected exactly '' @ show_nat expected"
| "display_FrameParseError (PaddingTooLong actual maximum) =
     ''frame has '' @ show_nat actual @ '' padding bytes; maximum is '' @ show_nat maximum"
| "display_FrameParseError (NonZeroPadding offset value) =
     ''frame padding byte '' @ show_nat offset @ '' is '' @ show_hex_alt 4 (unat value)
     @ ''; expected zero''"
| "display_FrameParseError (UnalignedPayload actual expected max_packet_size) =
     ''post-header payload is '' @ show_nat actual @ '' bytes; expected '' @ show_nat expected
     @ '' for '' @ show_nat max_packet_size @ ''-byte packet alignment''"

section \<open>The walk\<close>

text \<open>\<open>while jpeg_and_tail.get(cursor) == Some(&0xff)\<close>: fill bytes before a marker.\<close>

function skip_fill :: "bytes \<Rightarrow> usize \<Rightarrow> (usize, FrameParseError) outcome" where
  "skip_fill xs cursor =
     (if get_at xs cursor = Some 0xff
      then and_then (ok_or (checked_add cursor 1) LengthOverflow) (\<lambda>c. skip_fill xs c)
      else Ok cursor)"
  by pat_completeness auto
termination
  by (relation "measure (\<lambda>(xs, cursor). length xs - cursor)") (auto simp: outcome_simps)

declare skip_fill.simps [simp del]

text \<open>
  From the first 0xff of a marker to the byte after it; the source has this passage twice, in
  the scan loop and in the segment branch.
\<close>

definition take_marker :: "bytes \<Rightarrow> usize \<Rightarrow> (u8 \<times> usize, FrameParseError) outcome" where
  "take_marker xs marker_offset =
     and_then (ok_or (checked_add marker_offset 1) LengthOverflow) (\<lambda>c.
     and_then (skip_fill xs c) (\<lambda>c.
     and_then (ok_or (get_at xs c) (TruncatedJpegMarker marker_offset)) (\<lambda>marker.
     and_then (ok_or (checked_add c 1) LengthOverflow) (\<lambda>c. Ok (marker, c)))))"

definition is_scan_filler :: "u8 \<Rightarrow> bool" where
  "is_scan_filler marker \<longleftrightarrow> marker = 0x00 \<or> 0xd0 \<le> marker \<and> marker \<le> 0xd7"

lemma skip_fill_progress:
  "skip_fill xs c = Ok c' \<Longrightarrow> c \<le> c' \<and> (c \<le> length xs \<longrightarrow> c' \<le> length xs)"
proof (induction xs c rule: skip_fill.induct)
  case (1 xs c)
  then show ?case
    by (subst (asm) (2) skip_fill.simps) (fastforce simp: outcome_simps split: if_splits)
qed

lemma take_marker_progress:
  "take_marker xs mo = Ok (m, c) \<Longrightarrow> mo + 2 \<le> c \<and> c \<le> length xs"
  by (auto simp: take_marker_def outcome_simps dest!: skip_fill_progress)

text \<open>The scan loop: entropy-coded data up to a marker that ends it.\<close>

function scan_marker :: "bytes \<Rightarrow> usize \<Rightarrow> (usize \<times> u8 \<times> usize, FrameParseError) outcome" where
  "scan_marker xs cursor =
     and_then (slice_from xs cursor) (\<lambda>rest.
     case position (\<lambda>byte. byte = 0xff) rest of
       None \<Rightarrow> Err MissingJpegEnd
     | Some relative \<Rightarrow>
         and_then (ok_or (checked_add cursor relative) LengthOverflow) (\<lambda>marker_offset.
         and_then (take_marker xs marker_offset) (\<lambda>(marker, cursor).
           if is_scan_filler marker then scan_marker xs cursor
           else Ok (marker_offset, marker, cursor))))"
  by pat_completeness auto
termination
  by (relation "measure (\<lambda>(xs, cursor). length xs - cursor)")
    (auto simp: outcome_simps dest!: take_marker_progress)

declare scan_marker.simps [simp del]

text \<open>The segment branch: a marker is expected right at the cursor.\<close>

definition next_marker ::
  "bytes \<Rightarrow> usize \<Rightarrow> bool \<Rightarrow> (usize \<times> u8 \<times> usize, FrameParseError) outcome" where
  "next_marker xs cursor saw_scan =
     and_then (ok_or (get_at xs cursor)
                 (if saw_scan then MissingJpegEnd else TruncatedJpegMarker cursor)) (\<lambda>prefix.
     if prefix \<noteq> 0xff then Err (ExpectedJpegMarker cursor prefix)
     else and_then (take_marker xs cursor) (\<lambda>(marker, c). Ok (cursor, marker, c)))"

text \<open>The length, bounds and scan-header checks of a marker segment; the result is its end.\<close>

definition segment_end ::
  "bytes \<Rightarrow> usize \<Rightarrow> u8 \<Rightarrow> usize \<Rightarrow> (usize, FrameParseError) outcome" where
  "segment_end xs marker_offset marker cursor =
     (let available = saturating_sub (length xs) cursor in
      if available < 2 then Err (TruncatedJpegSegmentLength marker_offset marker)
      else
      and_then (read_u16_be xs cursor) (\<lambda>word.
      let segment_length = unat word in
      if segment_length < 2 then Err (InvalidJpegSegmentLength marker_offset marker segment_length)
      else
      and_then (ok_or (checked_add cursor segment_length) LengthOverflow) (\<lambda>end.
      if end > length xs
      then Err (TruncatedJpegSegment marker_offset marker segment_length available)
      else if marker = 0xda then
        and_then (if segment_length \<ge> 3
                  then and_then (add_usize cursor 2) (\<lambda>i. map_ok unat (index_at xs i))
                  else Ok 0) (\<lambda>components.
        and_then (ok_or (case checked_mul components 2 of None \<Rightarrow> None
                           | Some value \<Rightarrow> checked_add value 6) LengthOverflow) (\<lambda>expected_length.
        if components = 0 \<or> segment_length \<noteq> expected_length
        then Err (InvalidJpegScanHeader marker_offset segment_length components)
        else Ok end))
      else Ok end)))"

lemma scan_marker_progress:
  "scan_marker xs c = Ok (mo, m, c') \<Longrightarrow> c + 2 \<le> c' \<and> c' \<le> length xs"
proof (induction xs c rule: scan_marker.induct)
  case (1 xs c)
  from "1.prems" obtain rel m1 c1 where
    pos: "c \<le> length xs" "position (\<lambda>b. b = 0xff) (drop c xs) = Some rel" "c + rel \<le> usize_max"
    and tm: "take_marker xs (c + rel) = Ok (m1, c1)"
    and rest: "(if is_scan_filler m1 then scan_marker xs c1 else Ok (c + rel, m1, c1)) = Ok (mo, m, c')"
    by (subst (asm) scan_marker.simps) (auto simp: outcome_simps split: option.splits)
  show ?case
  proof (cases "is_scan_filler m1")
    case True
    have "c1 + 2 \<le> c' \<and> c' \<le> length xs"
      by (rule "1.IH" [of "drop c xs" rel "c + rel" "(m1, c1)" m1 c1])
        (use pos tm rest True in \<open>simp_all add: slice_simps outcome_simps\<close>)
    with take_marker_progress [OF tm] show ?thesis by simp
  next
    case False
    with rest take_marker_progress [OF tm] show ?thesis by simp
  qed
qed

lemma next_marker_progress:
  "next_marker xs c s = Ok (mo, m, c') \<Longrightarrow> c + 2 \<le> c' \<and> c' \<le> length xs"
  by (auto simp: next_marker_def outcome_simps dest!: take_marker_progress split: if_splits)

lemma segment_end_progress:
  "segment_end xs mo m c = Ok e \<Longrightarrow> c + 2 \<le> e \<and> e \<le> length xs"
  by (auto simp: segment_end_def outcome_simps Let_def split: if_splits)

text \<open>The outer loop, from its state \<open>(cursor, in_scan, saw_scan)\<close>.\<close>

function jpeg_walk :: "bytes \<Rightarrow> usize \<Rightarrow> bool \<Rightarrow> bool \<Rightarrow> (usize, FrameParseError) outcome" where
  "jpeg_walk xs cursor in_scan saw_scan =
     and_then (if in_scan then scan_marker xs cursor else next_marker xs cursor saw_scan)
       (\<lambda>(marker_offset, marker, cursor).
       if marker = 0xd9 then
         (if saw_scan then Ok cursor else Err (JpegEndBeforeScan marker_offset))
       else if marker = 0x00 \<or> marker = 0x01 \<or> 0xd0 \<le> marker \<and> marker \<le> 0xd8 then
         Err (UnexpectedJpegMarker marker_offset marker)
       else
         and_then (segment_end xs marker_offset marker cursor) (\<lambda>end.
           jpeg_walk xs end (marker = 0xda) (saw_scan \<or> marker = 0xda)))"
  by pat_completeness auto
termination
  by (relation "measure (\<lambda>(xs, cursor, _). length xs - cursor)")
    (auto dest!: segment_end_progress scan_marker_progress next_marker_progress split: if_splits)

declare jpeg_walk.simps [simp del]

definition parse_jpeg_end :: "bytes \<Rightarrow> (usize, FrameParseError) outcome" where
  "parse_jpeg_end jpeg_and_tail =
     (if \<not> starts_with jpeg_and_tail [0xff, 0xd8] then Err MissingJpegStart
      else jpeg_walk jpeg_and_tail 2 False False)"

section \<open>The grammar of JPEG streams\<close>

text \<open>
  Entropy-coded data is a sequence of ordinary bytes and of escapes: one or more 0xff followed
  by a stuffed zero or a restart marker. A stream is SOI, then segments (a scan segment is
  followed by its entropy-coded data), then EOI; fill bytes may precede every marker.
\<close>

datatype entropy = Lit u8 | Esc nat u8

datatype segment = Segment nat u8 bytes | Scan nat bytes "entropy list"

datatype jpeg = Jpeg "segment list" nat

fun print_entropy :: "entropy \<Rightarrow> bytes" where
  "print_entropy (Lit b) = [b]"
| "print_entropy (Esc k m) = replicate (Suc k) 0xff @ [m]"

definition marker_bytes :: "nat \<Rightarrow> u8 \<Rightarrow> bytes" where
  "marker_bytes k m = replicate (Suc k) 0xff @ [m]"

definition body_bytes :: "bytes \<Rightarrow> bytes" where
  "body_bytes body = to_be_bytes 2 (of_nat (length body + 2) :: u16) @ body"

fun print_segment :: "segment \<Rightarrow> bytes" where
  "print_segment (Segment k m body) = marker_bytes k m @ body_bytes body"
| "print_segment (Scan k body es) =
     marker_bytes k 0xda @ body_bytes body @ concat (map print_entropy es)"

fun print_jpeg :: "jpeg \<Rightarrow> bytes" where
  "print_jpeg (Jpeg segs k) = [0xff, 0xd8] @ concat (map print_segment segs) @ marker_bytes k 0xd9"

fun wf_entropy :: "entropy \<Rightarrow> bool" where
  "wf_entropy (Lit b) \<longleftrightarrow> b \<noteq> 0xff"
| "wf_entropy (Esc k m) \<longleftrightarrow> m \<in> {0x00, 0xd0, 0xd1, 0xd2, 0xd3, 0xd4, 0xd5, 0xd6, 0xd7}"

text \<open>Markers that start an ordinary segment: not a fill byte, not stuffing, TEM, a restart
  marker, SOI, EOI or SOS.\<close>

definition plain_marker :: "u8 \<Rightarrow> bool" where
  "plain_marker m \<longleftrightarrow>
     m \<noteq> 0xff \<and> m \<noteq> 0x00 \<and> m \<noteq> 0x01 \<and> \<not> (0xd0 \<le> m \<and> m \<le> 0xd9) \<and> m \<noteq> 0xda"

text \<open>The body of a scan header: its first byte counts the components, two bytes for each of
  them follow, then three more.\<close>

definition scan_header :: "bytes \<Rightarrow> bool" where
  "scan_header body \<longleftrightarrow> body \<noteq> [] \<and> hd body \<noteq> 0 \<and> length body = 2 * unat (hd body) + 4"

fun wf_segment :: "segment \<Rightarrow> bool" where
  "wf_segment (Segment k m body) \<longleftrightarrow> plain_marker m \<and> length body + 2 < 65536"
| "wf_segment (Scan k body es) \<longleftrightarrow> scan_header body \<and> list_all wf_entropy es"

fun is_Scan :: "segment \<Rightarrow> bool" where
  "is_Scan (Scan k body es) = True"
| "is_Scan (Segment k m body) = False"

fun wf_jpeg :: "jpeg \<Rightarrow> bool" where
  "wf_jpeg (Jpeg segs k) \<longleftrightarrow> list_all wf_segment segs \<and> list_ex is_Scan segs"

text \<open>The scan loop passes over exactly the escapes of the grammar.\<close>

lemma wf_entropy_Esc: "wf_entropy (Esc k m) \<longleftrightarrow> is_scan_filler m"
proof -
  have "0xd0 \<le> m \<and> m \<le> 0xd7 \<longleftrightarrow> unat m \<in> {208..215}" by (simp add: word_le_nat_alt)
  also have "\<dots> \<longleftrightarrow> unat m \<in> {208, 209, 210, 211, 212, 213, 214, 215}" by auto
  also have "\<dots> \<longleftrightarrow> m \<in> {0xd0, 0xd1, 0xd2, 0xd3, 0xd4, 0xd5, 0xd6, 0xd7}"
    by (simp add: word_unat_eq_iff)
  finally show ?thesis by (simp add: is_scan_filler_def)
qed

declare wf_entropy.simps(2) [simp del] wf_entropy_Esc [simp]

lemma length_marker_bytes [simp]: "length (marker_bytes k m) = k + 2"
  by (simp add: marker_bytes_def)

lemma length_body_bytes [simp]: "length (body_bytes body) = length body + 2"
  by (simp add: body_bytes_def)

section \<open>Lemmas: printed streams are walked to their end\<close>

lemma skip_fill_run:
  "length (pre @ replicate k 0xff @ m # rest) \<le> usize_max \<Longrightarrow> m \<noteq> 0xff \<Longrightarrow>
     skip_fill (pre @ replicate k 0xff @ m # rest) (length pre) = Ok (length pre + k)"
proof (induction k arbitrary: pre)
  case 0
  then show ?case by (subst skip_fill.simps) (simp add: get_at_def nth_append)
next
  case (Suc k)
  have "skip_fill ((pre @ [0xff]) @ replicate k 0xff @ m # rest) (length (pre @ [0xff]))
      = Ok (length (pre @ [0xff]) + k)"
    by (rule Suc.IH) (use Suc.prems in auto)
  then have "skip_fill (pre @ 0xff # replicate k 0xff @ m # rest) (Suc (length pre))
      = Ok (Suc (length pre + k))"
    by simp
  then show ?case
    using Suc.prems by (subst skip_fill.simps) (simp add: get_at_def nth_append checked_add_def)
qed

lemma take_marker_run:
  assumes "length (pre @ marker_bytes k m @ rest) \<le> usize_max" and "m \<noteq> 0xff"
  shows "take_marker (pre @ marker_bytes k m @ rest) (length pre) = Ok (m, length pre + k + 2)"
proof -
  have "skip_fill ((pre @ [0xff]) @ replicate k 0xff @ m # rest) (length (pre @ [0xff]))
      = Ok (length (pre @ [0xff]) + k)"
    by (rule skip_fill_run) (use assms in \<open>auto simp: marker_bytes_def\<close>)
  then have "skip_fill (pre @ 0xff # replicate k 0xff @ m # rest) (Suc (length pre))
      = Ok (Suc (length pre + k))"
    by simp
  then show ?thesis
    using assms
    by (simp add: take_marker_def marker_bytes_def checked_add_def get_at_def nth_append)
qed

lemma scan_marker_Lit:
  assumes "b \<noteq> 0xff" and "length (pre @ b # ys) \<le> usize_max"
  shows "scan_marker (pre @ b # ys) (length pre) = scan_marker (pre @ b # ys) (Suc (length pre))"
proof (cases "position (\<lambda>b. b = 0xff) ys")
  case None
  with assms show ?thesis
    by (subst (1 2) scan_marker.simps) (simp add: slice_simps)
next
  case (Some i)
  with assms show ?thesis
    by (subst (1 2) scan_marker.simps) (simp add: slice_simps checked_add_def)
qed

lemma position_marker_bytes: "position (\<lambda>b. b = 0xff) (marker_bytes k m @ rest) = Some 0"
  by (simp add: marker_bytes_def)

lemma scan_marker_at:
  assumes "length (pre @ marker_bytes k m @ rest) \<le> usize_max" and "m \<noteq> 0xff"
  shows "scan_marker (pre @ marker_bytes k m @ rest) (length pre) =
    (if is_scan_filler m then scan_marker (pre @ marker_bytes k m @ rest) (length pre + k + 2)
     else Ok (length pre, m, length pre + k + 2))"
  using assms
  by (subst scan_marker.simps)
    (simp add: slice_simps position_marker_bytes checked_add_def take_marker_run)

lemma filler_not_ff: "is_scan_filler m \<Longrightarrow> m \<noteq> 0xff"
  by (auto simp: is_scan_filler_def)

lemma scan_marker_run:
  assumes "length (pre @ concat (map print_entropy es) @ marker_bytes k m @ rest) \<le> usize_max"
    and "m \<noteq> 0xff" and "\<not> is_scan_filler m" and "list_all wf_entropy es"
  defines "mo \<equiv> length pre + length (concat (map print_entropy es))"
  shows "scan_marker (pre @ concat (map print_entropy es) @ marker_bytes k m @ rest) (length pre)
      = Ok (mo, m, mo + k + 2)"
  using assms(1,4) unfolding mo_def
proof (induction es arbitrary: pre)
  case Nil
  then show ?case using assms(2,3) by (simp add: scan_marker_at)
next
  case (Cons e es)
  let ?tl = "concat (map print_entropy es) @ marker_bytes k m @ rest"
  have IH: "scan_marker ((pre @ print_entropy e) @ ?tl) (length (pre @ print_entropy e))
      = Ok (length (pre @ print_entropy e) + length (concat (map print_entropy es)), m,
          length (pre @ print_entropy e) + length (concat (map print_entropy es)) + k + 2)"
    by (rule Cons.IH) (use Cons.prems in auto)
  show ?case
  proof (cases e)
    case (Lit b)
    then have "b \<noteq> 0xff" using Cons.prems by simp
    moreover have "length (pre @ b # ?tl) \<le> usize_max" using Cons.prems(1) Lit by simp
    ultimately have "scan_marker (pre @ b # ?tl) (length pre) = scan_marker (pre @ b # ?tl) (Suc (length pre))"
      by (rule scan_marker_Lit)
    with IH Lit show ?thesis by simp
  next
    case (Esc j f)
    then have f: "is_scan_filler f" using Cons.prems by simp
    have e: "print_entropy e = marker_bytes j f" using Esc by (simp add: marker_bytes_def)
    have "scan_marker (pre @ marker_bytes j f @ ?tl) (length pre)
        = scan_marker (pre @ marker_bytes j f @ ?tl) (length pre + j + 2)"
      using scan_marker_at [of pre j f ?tl] Cons.prems(1) f filler_not_ff [OF f] e by simp
    moreover have "length (pre @ print_entropy e) = length pre + j + 2"
      by (simp add: e marker_bytes_def)
    ultimately show ?thesis using IH e by simp
  qed
qed

lemma segment_end_run:
  assumes "length (pre @ body_bytes body @ rest) \<le> usize_max" and "length body + 2 < 65536"
    and "m = 0xda \<Longrightarrow> scan_header body"
  shows "segment_end (pre @ body_bytes body @ rest) mo m (length pre)
      = Ok (length pre + length (body_bytes body))"
proof -
  let ?xs = "pre @ body_bytes body @ rest"
  have w: "(read_u16_be ?xs (length pre) :: (u16, FrameParseError) outcome)
      = Ok (of_nat (length body + 2))"
    using assms(1) by (simp add: read_u16_be_Ok body_bytes_def u16_be.dec_enc)
  have u: "unat (of_nat (length body + 2) :: u16) = length body + 2"
    using assms(2) by (simp only: unat_of_nat) simp
  have idx: "?xs ! (length pre + 2) = hd body" if "body \<noteq> []"
    using that by (cases body) (simp_all add: body_bytes_def nth_append)
  show ?thesis
  proof (cases "m = 0xda")
    case True
    then have h: "body \<noteq> []" "hd body \<noteq> 0" "length body = 2 * unat (hd body) + 4"
      using assms(3) by (auto simp: scan_header_def)
    have "unat (hd body) < 256" using unsigned_less [of "hd body", where 'a = nat] by simp
    moreover have "0 < unat (hd body)" using h(2) by (simp add: unat_gt_0)
    ultimately show ?thesis
      unfolding segment_end_def w u Let_def and_then.simps
      using True h assms(1) idx [OF h(1)]
      by (simp add: saturating_sub_def checked_add_def checked_mul_def add_usize_def index_at_def
          const_simps)
  next
    case False
    then show ?thesis
      unfolding segment_end_def w u Let_def and_then.simps
      using assms(1) by (simp add: saturating_sub_def checked_add_def)
  qed
qed

lemma read_marker_run:
  assumes "length (pre @ concat (map print_entropy es) @ marker_bytes k m @ rest) \<le> usize_max"
    and "m \<noteq> 0xff" and "\<not> is_scan_filler m" and "list_all wf_entropy es" and "in_scan \<or> es = []"
  defines "mo \<equiv> length pre + length (concat (map print_entropy es))"
  shows "(if in_scan then scan_marker (pre @ concat (map print_entropy es) @ marker_bytes k m @ rest) (length pre)
          else next_marker (pre @ concat (map print_entropy es) @ marker_bytes k m @ rest) (length pre) saw)
      = Ok (mo, m, mo + k + 2)"
proof (cases in_scan)
  case True
  with assms show ?thesis by (simp add: scan_marker_run)
next
  case False
  then have "es = []" using assms(5) by simp
  moreover have "get_at (pre @ marker_bytes k m @ rest) (length pre) = Some 0xff"
    by (simp add: get_at_def marker_bytes_def nth_append)
  ultimately show ?thesis
    using False assms(1,2) by (simp add: mo_def next_marker_def take_marker_run)
qed

lemma plain_marker_iff:
  "plain_marker m \<longleftrightarrow>
     m \<noteq> 0xff \<and> m \<noteq> 0xd9 \<and> m \<noteq> 0xda \<and> \<not> (m = 0x00 \<or> m = 0x01 \<or> 0xd0 \<le> m \<and> m \<le> 0xd8)"
proof -
  have "0xd0 \<le> m \<and> m \<le> 0xd9 \<longleftrightarrow> m = 0xd9 \<or> 0xd0 \<le> m \<and> m \<le> 0xd8"
    by (auto simp: word_le_nat_alt word_unat_eq_iff)
  then show ?thesis by (auto simp: plain_marker_def)
qed

text \<open>The walk over a printed suffix, from any state of its flags.\<close>

lemma jpeg_walk_run:
  assumes "length (pre @ concat (map print_entropy es) @ concat (map print_segment segs)
      @ marker_bytes k 0xd9 @ tail) \<le> usize_max"
    and "list_all wf_entropy es" and "in_scan \<or> es = []" and "list_all wf_segment segs"
    and "saw \<or> list_ex is_Scan segs"
  shows "jpeg_walk (pre @ concat (map print_entropy es) @ concat (map print_segment segs)
      @ marker_bytes k 0xd9 @ tail) (length pre) in_scan saw
    = Ok (length (pre @ concat (map print_entropy es) @ concat (map print_segment segs)
      @ marker_bytes k 0xd9))"
  using assms
proof (induction segs arbitrary: pre es in_scan saw)
  case Nil
  let ?xs = "pre @ concat (map print_entropy es) @ marker_bytes k 0xd9 @ tail"
  have "\<not> is_scan_filler 0xd9" by (simp add: is_scan_filler_def)
  then have "(if in_scan then scan_marker ?xs (length pre) else next_marker ?xs (length pre) saw)
      = Ok (length (pre @ concat (map print_entropy es)), 0xd9,
            length (pre @ concat (map print_entropy es)) + k + 2)"
    using read_marker_run [of pre es k "0xd9" tail in_scan saw] Nil.prems by simp
  then have "jpeg_walk ?xs (length pre) in_scan saw
      = Ok (length (pre @ concat (map print_entropy es)) + k + 2)"
    by (subst jpeg_walk.simps) (use Nil.prems(5) in simp)
  then show ?case by simp
next
  case (Cons seg segs)
  obtain j m body es' where seg: "print_segment seg = marker_bytes j m @ body_bytes body @ concat (map print_entropy es')"
    and m: "m \<noteq> 0xff" "m \<noteq> 0xd9" "\<not> (m = 0x00 \<or> m = 0x01 \<or> 0xd0 \<le> m \<and> m \<le> 0xd8)"
    and body: "length body + 2 < 65536" "m = 0xda \<Longrightarrow> scan_header body"
    and es': "list_all wf_entropy es'" "m = 0xda \<or> es' = []" "is_Scan seg \<longleftrightarrow> m = 0xda"
  proof (cases seg)
    case (Segment j m body)
    with Cons.prems(4) that [of j m body "[]"] show ?thesis by (simp add: plain_marker_iff)
  next
    case (Scan j body es')
    have "unat (hd body) < 256" using unsigned_less [of "hd body", where 'a = nat] by simp
    with Scan Cons.prems(4) that [of j "0xda" body es'] show ?thesis by (auto simp: scan_header_def)
  qed
  let ?rest = "concat (map print_segment segs) @ marker_bytes k 0xd9 @ tail"
  let ?es = "concat (map print_entropy es)" and ?es' = "concat (map print_entropy es')"
  let ?pre1 = "pre @ ?es @ marker_bytes j m" and ?pre2 = "pre @ ?es @ marker_bytes j m @ body_bytes body"
  let ?xs = "pre @ ?es @ marker_bytes j m @ body_bytes body @ ?es' @ ?rest"
  have len: "length ?xs \<le> usize_max" using Cons.prems(1) by (simp add: seg)
  have "\<not> is_scan_filler m"
    using m by (auto simp: is_scan_filler_def word_le_nat_alt word_unat_eq_iff)
  then have mark: "(if in_scan then scan_marker ?xs (length pre) else next_marker ?xs (length pre) saw)
      = Ok (length (pre @ ?es), m, length ?pre1)"
    using read_marker_run [of pre es j m "body_bytes body @ ?es' @ ?rest" in_scan saw] len m Cons.prems(2,3)
    by simp
  have "segment_end ?xs (length (pre @ ?es)) m (length ?pre1) = Ok (length ?pre2)"
    using segment_end_run [of ?pre1 body "?es' @ ?rest" m "length (pre @ ?es)"] len body by simp
  moreover have "jpeg_walk (?pre2 @ ?es' @ ?rest) (length ?pre2) (m = 0xda) (saw \<or> m = 0xda)
    = Ok (length (?pre2 @ ?es' @ concat (map print_segment segs) @ marker_bytes k 0xd9))"
    by (rule Cons.IH) (use len es' Cons.prems(4,5) in auto)
  ultimately have "jpeg_walk ?xs (length pre) in_scan saw
    = Ok (length (?pre2 @ ?es' @ concat (map print_segment segs) @ marker_bytes k 0xd9))"
    by (subst jpeg_walk.simps) (use mark m in simp)
  then show ?case by (simp add: seg)
qed

lemma parse_jpeg_end_complete:
  assumes "wf_jpeg j" and "length (print_jpeg j @ tail) \<le> usize_max"
  shows "parse_jpeg_end (print_jpeg j @ tail) = Ok (length (print_jpeg j))"
proof (cases j)
  case (Jpeg segs k)
  with assms jpeg_walk_run [of "[0xff, 0xd8]" "[]" segs k tail False False] show ?thesis
    by (simp add: parse_jpeg_end_def starts_with_def numeral_2_eq_2)
qed

section \<open>Lemmas: what the walk accepts is a printed stream\<close>

lemma skip_fill_shape:
  "skip_fill xs c = Ok c' \<Longrightarrow> c \<le> length xs \<Longrightarrow>
     drop c xs = replicate (c' - c) 0xff @ drop c' xs \<and> c \<le> c' \<and> c' \<le> length xs
     \<and> (c' < length xs \<longrightarrow> xs ! c' \<noteq> 0xff)"
proof (induction xs c rule: skip_fill.induct)
  case (1 xs c)
  show ?case
  proof (cases "get_at xs c = Some 0xff")
    case True
    then have c: "c < length xs" "xs ! c = 0xff" by (auto simp: outcome_simps)
    from "1.prems"(1) True have "skip_fill xs (c + 1) = Ok c'" "c + 1 \<le> usize_max"
      by (subst (asm) skip_fill.simps; auto simp: outcome_simps)+
    with "1.IH" [OF True, of "c + 1"] c
    have "drop (c + 1) xs = replicate (c' - (c + 1)) 0xff @ drop c' xs \<and> c + 1 \<le> c' \<and> c' \<le> length xs
        \<and> (c' < length xs \<longrightarrow> xs ! c' \<noteq> 0xff)"
      by (simp add: checked_add_def)
    moreover have "drop c xs = 0xff # drop (c + 1) xs"
      using c Cons_nth_drop_Suc [of c xs] by simp
    moreover have "replicate (c' - c) (0xff :: u8) = 0xff # replicate (c' - (c + 1)) 0xff"
      if "c + 1 \<le> c'" using that by (cases "c' - c") (auto simp: Suc_diff_le)
    ultimately show ?thesis by auto
  next
    case False
    with "1.prems" show ?thesis
      by (subst (asm) skip_fill.simps) (auto simp: get_at_def)
  qed
qed

lemma take_marker_shape:
  assumes "take_marker xs mo = Ok (m, c)" and "xs ! mo = 0xff"
  obtains k where "drop mo xs = marker_bytes k m @ drop c xs" "m \<noteq> 0xff" "c = mo + k + 2" "c \<le> length xs"
proof -
  from assms(1) obtain e where sf: "skip_fill xs (mo + 1) = Ok e" and e: "e < length xs" "m = xs ! e" "c = e + 1"
    by (auto simp: take_marker_def outcome_simps)
  have mo: "mo + 1 \<le> e" using skip_fill_progress [OF sf] by simp
  from skip_fill_shape [OF sf] e mo have shape: "drop (mo + 1) xs = replicate (e - (mo + 1)) 0xff @ drop e xs"
    and ne: "xs ! e \<noteq> 0xff" by auto
  have "drop mo xs = 0xff # drop (mo + 1) xs"
    using assms(2) mo e(1) Cons_nth_drop_Suc [of mo xs] by simp
  moreover have "drop e xs = m # drop c xs"
    using e Cons_nth_drop_Suc [of e xs] by simp
  ultimately have "drop mo xs = marker_bytes (e - (mo + 1)) m @ drop c xs"
    using shape by (simp add: marker_bytes_def)
  then show ?thesis
    by (rule that) (use ne e mo in auto)
qed

lemma Lits_before:
  assumes "position (\<lambda>b. b = 0xff) ys = Some i"
  shows "list_all wf_entropy (map Lit (take i ys))"
    and "concat (map print_entropy (map Lit (take i ys))) = take i ys"
proof -
  have "b \<noteq> 0xff" if "b \<in> set (take i ys)" for b
    using that assms by (auto simp: position_Some in_set_conv_nth)
  then show "list_all wf_entropy (map Lit (take i ys))" by (simp add: list_all_iff)
  show "concat (map print_entropy (map Lit (take i ys))) = take i ys"
    by (simp add: comp_def concat_map_singleton)
qed

lemma scan_marker_shape:
  "scan_marker xs c = Ok (mo, m, c') \<Longrightarrow>
     \<exists>es k. drop c xs = concat (map print_entropy es) @ marker_bytes k m @ drop c' xs
       \<and> list_all wf_entropy es \<and> m \<noteq> 0xff \<and> \<not> is_scan_filler m \<and> c' \<le> length xs"
proof (induction xs c rule: scan_marker.induct)
  case (1 xs c)
  from "1.prems" obtain rel m1 c1 where
    pos: "c \<le> length xs" "position (\<lambda>b. b = 0xff) (drop c xs) = Some rel" "c + rel \<le> usize_max"
    and tm: "take_marker xs (c + rel) = Ok (m1, c1)"
    and rest: "(if is_scan_filler m1 then scan_marker xs c1 else Ok (c + rel, m1, c1)) = Ok (mo, m, c')"
    by (subst (asm) scan_marker.simps) (auto simp: outcome_simps split: option.splits)
  from pos have ff: "xs ! (c + rel) = 0xff" by (auto simp: position_Some)
  obtain k where k: "drop (c + rel) xs = marker_bytes k m1 @ drop c1 xs" "m1 \<noteq> 0xff" "c1 \<le> length xs"
    by (rule take_marker_shape [OF tm ff])
  let ?lits = "map Lit (take rel (drop c xs))"
  have split: "drop c xs = concat (map print_entropy ?lits) @ marker_bytes k m1 @ drop c1 xs"
    using k(1) append_take_drop_id [of rel "drop c xs"] Lits_before(2) [OF pos(2)]
    by (simp add: add.commute)
  show ?case
  proof (cases "is_scan_filler m1")
    case True
    have "\<exists>es k. drop c1 xs = concat (map print_entropy es) @ marker_bytes k m @ drop c' xs
       \<and> list_all wf_entropy es \<and> m \<noteq> 0xff \<and> \<not> is_scan_filler m \<and> c' \<le> length xs"
      by (rule "1.IH" [of "drop c xs" rel "c + rel" "(m1, c1)" m1 c1])
        (use pos tm rest True in \<open>simp_all add: slice_simps outcome_simps\<close>)
    then obtain es k' where es: "drop c1 xs = concat (map print_entropy es) @ marker_bytes k' m @ drop c' xs"
      "list_all wf_entropy es" and mm: "m \<noteq> 0xff" "\<not> is_scan_filler m" "c' \<le> length xs"
      by blast
    have "drop c xs = concat (map print_entropy (?lits @ Esc k m1 # es)) @ marker_bytes k' m @ drop c' xs"
      using split es(1) by (simp add: marker_bytes_def)
    moreover have "list_all wf_entropy (?lits @ Esc k m1 # es)"
      using Lits_before(1) [OF pos(2)] es(2) True by simp
    ultimately show ?thesis using mm by blast
  next
    case False
    with rest have "m = m1" "c' = c1" by auto
    with split Lits_before(1) [OF pos(2)] k False show ?thesis by blast
  qed
qed

lemma next_marker_shape:
  assumes "next_marker xs c saw = Ok (mo, m, c')"
  obtains k where "drop c xs = marker_bytes k m @ drop c' xs" "m \<noteq> 0xff" "c' \<le> length xs"
proof -
  from assms have "xs ! c = 0xff" "take_marker xs c = Ok (m, c')"
    by (auto simp: next_marker_def outcome_simps split: if_splits)
  then show ?thesis using that by (metis take_marker_shape)
qed

lemma segment_end_shape:
  assumes "segment_end xs mo m c = Ok e"
  obtains body where "drop c xs = body_bytes body @ drop e xs" "length body + 2 < 65536"
    "m = 0xda \<longrightarrow> scan_header body" "e \<le> length xs"
proof -
  define w :: u16 where "w = from_be_bytes (take 2 (drop c xs))"
  define body where "body = take (unat w - 2) (drop (c + 2) xs)"
  from assms have c: "c + 2 \<le> length xs" "c + 2 \<le> usize_max"
    by (auto simp: segment_end_def saturating_sub_def Let_def outcome_simps read_u16_be_def split: if_splits)
  have "(read_u16_be xs c :: (u16, FrameParseError) outcome) = Ok w"
    using c by (simp add: read_u16_be_Ok w_def)
  with assms have e: "2 \<le> unat w" "e = c + unat w" "e \<le> length xs"
    and sos: "m = 0xda \<Longrightarrow> 3 \<le> unat w \<and> unat (xs ! (c + 2)) \<noteq> 0 \<and> unat w = unat (xs ! (c + 2)) * 2 + 6"
    by (auto simp: segment_end_def Let_def outcome_simps split: if_splits option.splits)
  have lb: "length body + 2 = unat w" using e by (simp add: body_def)
  have w: "to_be_bytes 2 w = take 2 (drop c xs)"
    using c u16_be.enc_field [of c xs] by (simp add: w_def)
  have w': "of_nat (length body + 2) = w" using lb by simp
  have "drop c xs = take 2 (drop c xs) @ drop (c + 2) xs"
    using append_take_drop_id [of 2 "drop c xs"] by (simp add: add.commute)
  also have "drop (c + 2) xs = body @ drop e xs"
  proof -
    have "unat w - 2 + (c + 2) = e" using e by simp
    then show ?thesis
      using append_take_drop_id [of "unat w - 2" "drop (c + 2) xs"] by (simp only: body_def drop_drop)
  qed
  finally have "drop c xs = body_bytes body @ drop e xs"
    unfolding body_bytes_def w' w by simp
  moreover have "length body + 2 < 65536"
    using lb unsigned_less [of w, where 'a = nat] by simp
  moreover have "scan_header body" if "m = 0xda"
  proof -
    have "body \<noteq> []" "hd body = xs ! (c + 2)"
      using sos [OF that] lb e by (auto simp: body_def hd_drop_conv_nth hd_take)
    with sos [OF that] lb show ?thesis by (auto simp: scan_header_def)
  qed
  ultimately show ?thesis using that e(3) by blast
qed

lemma jpeg_walk_shape:
  "jpeg_walk xs c in_scan saw = Ok n \<Longrightarrow>
     \<exists>es segs k. drop c xs = concat (map print_entropy es) @ concat (map print_segment segs)
         @ marker_bytes k 0xd9 @ drop n xs
       \<and> list_all wf_entropy es \<and> (in_scan \<or> es = []) \<and> list_all wf_segment segs
       \<and> (saw \<or> list_ex is_Scan segs) \<and> n \<le> length xs"
proof (induction xs c in_scan saw rule: jpeg_walk.induct)
  case (1 xs c in_scan saw)
  from "1.prems" obtain mo m c1 where
    mark: "(if in_scan then scan_marker xs c else next_marker xs c saw) = Ok (mo, m, c1)"
    and rest: "(if m = 0xd9 then (if saw then Ok c1 else Err (JpegEndBeforeScan mo))
       else if m = 0x00 \<or> m = 0x01 \<or> 0xd0 \<le> m \<and> m \<le> 0xd8 then Err (UnexpectedJpegMarker mo m)
       else and_then (segment_end xs mo m c1) (\<lambda>end. jpeg_walk xs end (m = 0xda) (saw \<or> m = 0xda))) = Ok n"
    by (subst (asm) jpeg_walk.simps) (auto simp: outcome_simps)
  obtain es k where es: "drop c xs = concat (map print_entropy es) @ marker_bytes k m @ drop c1 xs"
    "list_all wf_entropy es" "in_scan \<or> es = []" and m: "m \<noteq> 0xff" and c1: "c1 \<le> length xs"
  proof (cases in_scan)
    case True
    with mark scan_marker_shape [of xs c mo m c1] that show ?thesis by auto
  next
    case False
    with mark have "next_marker xs c saw = Ok (mo, m, c1)" by simp
    then obtain k where "drop c xs = marker_bytes k m @ drop c1 xs" "m \<noteq> 0xff" "c1 \<le> length xs"
      by (rule next_marker_shape)
    with that [of "[]" k] show ?thesis by simp
  qed
  show ?case
  proof (cases "m = 0xd9")
    case True
    with rest have "saw" "n = c1" by (auto split: if_splits)
    with es c1 True have "drop c xs = concat (map print_entropy es) @ concat (map print_segment [])
         @ marker_bytes k 0xd9 @ drop n xs \<and> list_all wf_entropy es \<and> (in_scan \<or> es = [])
       \<and> list_all wf_segment [] \<and> (saw \<or> list_ex is_Scan []) \<and> n \<le> length xs" by simp
    then show ?thesis by blast
  next
    case False
    with rest obtain e where ordinary: "\<not> (m = 0x00 \<or> m = 0x01 \<or> 0xd0 \<le> m \<and> m \<le> 0xd8)"
      and se: "segment_end xs mo m c1 = Ok e"
      and walk: "jpeg_walk xs e (m = 0xda) (saw \<or> m = 0xda) = Ok n"
      by (auto simp: outcome_simps split: if_splits)
    obtain body where body: "drop c1 xs = body_bytes body @ drop e xs" "length body + 2 < 65536"
      "m = 0xda \<longrightarrow> scan_header body"
      by (rule segment_end_shape [OF se])
    from "1.IH" [OF mark refl refl False ordinary se walk] obtain es' segs k' where
      IH: "drop e xs = concat (map print_entropy es') @ concat (map print_segment segs)
         @ marker_bytes k' 0xd9 @ drop n xs" "list_all wf_entropy es'" "m = 0xda \<or> es' = []"
       "list_all wf_segment segs" "(saw \<or> m = 0xda) \<or> list_ex is_Scan segs" "n \<le> length xs"
      by blast
    define seg where "seg = (if m = 0xda then Scan k body es' else Segment k m body)"
    have "print_segment seg = marker_bytes k m @ body_bytes body @ concat (map print_entropy es')"
      using IH(3) by (auto simp: seg_def)
    then have "drop c xs = concat (map print_entropy es) @ concat (map print_segment (seg # segs))
         @ marker_bytes k' 0xd9 @ drop n xs"
      using es(1) body(1) IH(1) by simp
    moreover have "list_all wf_segment (seg # segs)"
      using IH(2,4) body ordinary m False by (simp add: seg_def plain_marker_iff)
    moreover have "saw \<or> list_ex is_Scan (seg # segs)"
      using IH(5) by (auto simp: seg_def)
    ultimately show ?thesis using es(2,3) IH(6) by blast
  qed
qed

lemma parse_jpeg_end_sound:
  assumes "parse_jpeg_end xs = Ok n"
  obtains j where "wf_jpeg j" "xs = print_jpeg j @ drop n xs" "n = length (print_jpeg j)"
proof -
  from assms have soi: "take 2 xs = [0xff, 0xd8]" and walk: "jpeg_walk xs 2 False False = Ok n"
    by (auto simp: parse_jpeg_end_def starts_with_def numeral_2_eq_2 split: if_splits)
  from jpeg_walk_shape [OF walk] obtain segs k where
    d: "drop 2 xs = concat (map print_segment segs) @ marker_bytes k 0xd9 @ drop n xs"
    and wf: "list_all wf_segment segs" "list_ex is_Scan segs" and n: "n \<le> length xs"
    by auto
  have xs: "xs = print_jpeg (Jpeg segs k) @ drop n xs"
    using append_take_drop_id [of 2 xs] soi d by simp
  then have "length xs = length (print_jpeg (Jpeg segs k)) + (length xs - n)"
    by (metis length_append length_drop)
  with n have "n = length (print_jpeg (Jpeg segs k))" by linarith
  with xs wf that [of "Jpeg segs k"] show ?thesis by simp
qed

section \<open>Lemmas: no panic and no overflow\<close>

definition benign :: "('a, FrameParseError) outcome \<Rightarrow> bool" where
  "benign r \<longleftrightarrow> r \<noteq> Panic \<and> r \<noteq> Err LengthOverflow \<and> (\<forall>w. r \<noteq> Err (DeclaredLengthDoesNotFit w))"

lemma benign_simps [simp]:
  "benign (Ok x)" "benign (Err e) \<longleftrightarrow> e \<noteq> LengthOverflow \<and> (\<forall>w. e \<noteq> DeclaredLengthDoesNotFit w)" "\<not> benign Panic"
  by (auto simp: benign_def)

lemma benign_and_then:
  "benign m \<Longrightarrow> (\<And>x. m = Ok x \<Longrightarrow> benign (f x)) \<Longrightarrow> benign (and_then m f)"
  by (cases m) auto

lemma benign_add: "a + b \<le> usize_max \<Longrightarrow> benign (ok_or (checked_add a b) LengthOverflow)"
  by (simp add: checked_add_def)

lemma benign_skip_fill:
  "length xs \<le> isize_max \<Longrightarrow> c \<le> length xs \<Longrightarrow> benign (skip_fill xs c)"
proof (induction xs c rule: skip_fill.induct)
  case (1 xs c)
  show ?case
  proof (cases "get_at xs c = Some 0xff")
    case True
    then have "c < length xs" by (simp add: outcome_simps)
    with True 1 show ?thesis
      by (subst skip_fill.simps) (auto simp: outcome_simps const_simps intro!: benign_and_then benign_add)
  next
    case False
    then show ?thesis by (subst skip_fill.simps) simp
  qed
qed

lemma benign_take_marker:
  assumes "length xs \<le> isize_max" and "mo < length xs"
  shows "benign (take_marker xs mo)"
  unfolding take_marker_def
  by (intro benign_and_then benign_add benign_skip_fill)
    (use assms in \<open>auto simp: outcome_simps const_simps ok_or_def split: option.splits
        dest!: skip_fill_progress\<close>)

lemma benign_scan_marker:
  "length xs \<le> isize_max \<Longrightarrow> c \<le> length xs \<Longrightarrow> benign (scan_marker xs c)"
proof (induction xs c rule: scan_marker.induct)
  case (1 xs c)
  show ?case
  proof (cases "position (\<lambda>b. b = 0xff) (drop c xs)")
    case None
    with 1 show ?thesis by (subst scan_marker.simps) (simp add: slice_simps)
  next
    case (Some rel)
    then have r: "c + rel < length xs" using "1.prems" by (auto simp: position_Some)
    have IH: "benign (scan_marker xs c1)"
      if "take_marker xs (c + rel) = Ok (m1, c1)" "is_scan_filler m1" for m1 c1
      by (rule "1.IH" [of "drop c xs" rel "c + rel" "(m1, c1)" m1 c1])
        (use that Some r "1.prems" take_marker_progress [OF that(1)] in
          \<open>simp_all add: slice_simps checked_add_def const_simps\<close>)
    have add: "checked_add c rel = Some (c + rel)"
      using r "1.prems" by (simp add: checked_add_def const_simps)
    show ?thesis
      by (subst scan_marker.simps)
        (use "1.prems" Some add r IH in \<open>auto simp: slice_simps intro!: benign_and_then benign_take_marker\<close>)
  qed
qed

lemma benign_next_marker:
  "length xs \<le> isize_max \<Longrightarrow> benign (next_marker xs c saw)"
  unfolding next_marker_def
  by (auto simp: outcome_simps ok_or_def split: option.splits intro!: benign_and_then benign_take_marker)

lemma benign_segment_end:
  assumes "length xs \<le> isize_max"
  shows "benign (segment_end xs mo m c)"
proof (cases "length xs - c < 2")
  case True
  then show ?thesis by (simp add: segment_end_def saturating_sub_def)
next
  case False
  define w :: u16 where "w = from_be_bytes (take 2 (drop c xs))"
  have r: "(read_u16_be xs c :: (u16, FrameParseError) outcome) = Ok w"
    using False assms by (simp add: read_u16_be_Ok w_def const_simps)
  have w: "unat w < 65536" using unsigned_less [of w, where 'a = nat] by simp
  have comp: "unat b < 256" for b :: u8 using unsigned_less [of b, where 'a = nat] by simp
  have add: "checked_add c (unat w) = Some (c + unat w)" "(add_usize c 2 :: (_, FrameParseError) outcome) = Ok (c + 2)"
    using False assms w by (auto simp: checked_add_def add_usize_def const_simps)
  have mul: "checked_mul (unat b) 2 = Some (unat b * 2)" "checked_add (unat b * 2) 6 = Some (unat b * 2 + 6)" for b :: u8
    using comp [of b] by (auto simp: checked_mul_def checked_add_def const_simps)
  have "checked_mul 0 2 = Some 0" "checked_add 0 6 = Some 6" by (simp_all add: checked_mul_def checked_add_def const_simps)
  then show ?thesis
    using False r add mul by (simp add: segment_end_def saturating_sub_def Let_def index_at_def)
qed

lemma benign_jpeg_walk:
  "length xs \<le> isize_max \<Longrightarrow> c \<le> length xs \<Longrightarrow> benign (jpeg_walk xs c in_scan saw)"
proof (induction xs c in_scan saw rule: jpeg_walk.induct)
  case (1 xs c in_scan saw)
  have "benign (jpeg_walk xs e (m = 0xda) (saw \<or> m = 0xda))"
    if "(if in_scan then scan_marker xs c else next_marker xs c saw) = Ok (mo, m, c1)"
      "m \<noteq> 0xd9" "\<not> (m = 0x00 \<or> m = 0x01 \<or> 0xd0 \<le> m \<and> m \<le> 0xd8)" "segment_end xs mo m c1 = Ok e" for mo m c1 e
    by (rule "1.IH" [OF that(1) refl refl that(2-4) "1.prems"(1)]) (use segment_end_progress [OF that(4)] in simp)
  with 1 show ?case
    by (subst jpeg_walk.simps)
      (auto intro!: benign_and_then benign_segment_end benign_scan_marker benign_next_marker)
qed

lemma benign_parse_jpeg_end: "length xs \<le> isize_max \<Longrightarrow> benign (parse_jpeg_end xs)"
  using benign_jpeg_walk [of xs 2 False False] take_all [of xs 2]
  by (cases "2 \<le> length xs") (auto simp: parse_jpeg_end_def starts_with_def)

section \<open>The contract of a prefix parser\<close>

text \<open>
  What the frame parser relies on: the JPEG parser returns the length of a stream at the front
  of its input, and finds every such stream, whatever follows it. The result then depends on
  the returned prefix only, and no stream is a proper prefix of another.
\<close>

locale prefix_parser =
  fixes parse :: "bytes \<Rightarrow> (usize, 'e) outcome"
    and stream :: "bytes \<Rightarrow> bool"
    and limit :: nat
  assumes sound: "parse xs = Ok n \<Longrightarrow> \<exists>ys. stream ys \<and> xs = ys @ drop n xs \<and> n = length ys"
    and complete: "stream ys \<Longrightarrow> length (ys @ zs) \<le> limit \<Longrightarrow> parse (ys @ zs) = Ok (length ys)"
begin

lemma consumed:
  assumes "parse xs = Ok n"
  shows "n \<le> length xs \<and> stream (take n xs)"
proof -
  from sound [OF assms] obtain ys where ys: "stream ys" "xs = ys @ drop n xs" "n = length ys"
    by blast
  from ys(2,3) have "take n xs = ys" by (metis append_eq_conv_conj)
  moreover from ys(2,3) have "n \<le> length xs" by (metis length_append le_add1)
  ultimately show ?thesis using ys(1) by simp
qed

lemma consumed_only:
  assumes "parse xs = Ok n" and "length (take n xs @ zs) \<le> limit"
  shows "parse (take n xs @ zs) = Ok n"
proof -
  have "stream (take n xs)" and "length (take n xs) = n" using consumed [OF assms(1)] by auto
  with complete [OF _ assms(2)] show ?thesis by simp
qed

lemma parse_iff:
  assumes "length xs \<le> limit"
  shows "parse xs = Ok n \<longleftrightarrow> (\<exists>ys zs. stream ys \<and> xs = ys @ zs \<and> n = length ys)"
proof
  assume "parse xs = Ok n"
  from sound [OF this] show "\<exists>ys zs. stream ys \<and> xs = ys @ zs \<and> n = length ys" by blast
next
  assume "\<exists>ys zs. stream ys \<and> xs = ys @ zs \<and> n = length ys"
  then show "parse xs = Ok n" using assms complete by auto
qed

lemma prefix_free:
  assumes "stream ys" and "stream (ys @ zs)" and "length (ys @ zs) \<le> limit"
  shows "zs = []"
  using complete [OF assms(1), of zs] complete [OF assms(2), of "[]"] assms(3) by simp

end

definition is_jpeg :: "bytes \<Rightarrow> bool" where
  "is_jpeg bs \<longleftrightarrow> (\<exists>j. wf_jpeg j \<and> bs = print_jpeg j)"

interpretation jpeg_end: prefix_parser parse_jpeg_end is_jpeg usize_max
proof
  fix xs n
  assume "parse_jpeg_end xs = Ok n"
  then obtain j where "wf_jpeg j" "xs = print_jpeg j @ drop n xs" "n = length (print_jpeg j)"
    by (rule parse_jpeg_end_sound)
  then show "\<exists>ys. is_jpeg ys \<and> xs = ys @ drop n xs \<and> n = length ys"
    unfolding is_jpeg_def by blast
next
  fix ys zs :: bytes
  assume "is_jpeg ys" and "length (ys @ zs) \<le> usize_max"
  then show "parse_jpeg_end (ys @ zs) = Ok (length ys)"
    by (auto simp: is_jpeg_def intro: parse_jpeg_end_complete)
qed

section \<open>The fixture of the unit tests\<close>

text \<open>An APP1 segment that contains the bytes of an EOI, a one-component scan whose data has a
  stuffed 0xff before 0xd9 and a restart marker, and the structural EOI.\<close>

definition synthetic_jpeg :: bytes where
  "synthetic_jpeg =
     [0xff, 0xd8,
      0xff, 0xe1, 0x00, 0x08, 0x11, 0xff, 0xd9, 0x22, 0x33,
      0x44,
      0xff, 0xda, 0x00, 0x08, 0x01, 0x01, 0x00, 0x00, 0x3f, 0x00,
      0x10, 0xff, 0x00, 0xd9, 0x20,
      0xff, 0xd0, 0x30,
      0xff, 0xd9]"

definition synthetic_tree :: jpeg where
  "synthetic_tree =
     Jpeg [Segment 0 0xe1 [0x11, 0xff, 0xd9, 0x22, 0x33, 0x44],
           Scan 0 [0x01, 0x01, 0x00, 0x00, 0x3f, 0x00]
             [Lit 0x10, Esc 0 0x00, Lit 0xd9, Lit 0x20, Esc 0 0xd0, Lit 0x30]] 0"

lemma to_be_bytes_2: "to_be_bytes 2 w = [ucast (drop_bit 8 w), ucast w]"
  by (simp add: to_be_bytes_def eval_nat_numeral)

lemma print_synthetic_tree: "print_jpeg synthetic_tree = synthetic_jpeg"
  by (simp add: synthetic_tree_def synthetic_jpeg_def marker_bytes_def body_bytes_def to_be_bytes_2)

lemma wf_synthetic_tree: "wf_jpeg synthetic_tree"
  by (simp add: synthetic_tree_def scan_header_def plain_marker_def is_scan_filler_def)

lemma is_jpeg_synthetic: "is_jpeg synthetic_jpeg"
  using wf_synthetic_tree print_synthetic_tree unfolding is_jpeg_def by metis

lemma length_synthetic_jpeg: "length synthetic_jpeg = 32"
  by (simp add: synthetic_jpeg_def)

section \<open>Properties\<close>

text \<open>C3: on every slice a Rust program can hold, \<open>parse_jpeg_end\<close> returns \<open>n\<close> exactly when the
  slice starts with a well-formed JPEG stream of length \<open>n\<close>: SOI, segments with consistent
  lengths of which at least one is a scan with a valid header, entropy-coded data with byte
  stuffing and restart markers after each scan, and EOI. Bytes that merely look like an EOI,
  inside a segment or after a stuffed 0xff, never end the stream.\<close>

theorem parse_jpeg_end_grammar:
  assumes "length xs \<le> isize_max"
  shows "parse_jpeg_end xs = Ok n \<longleftrightarrow>
    (\<exists>j tail. wf_jpeg j \<and> xs = print_jpeg j @ tail \<and> n = length (print_jpeg j))"
proof -
  have "length xs \<le> usize_max" using assms by (simp add: const_simps)
  from jpeg_end.parse_iff [OF this] show ?thesis by (auto simp: is_jpeg_def)
qed

theorem parse_jpeg_end_grammar_witness:
  "parse_jpeg_end (synthetic_jpeg @ [0xa5, 0xff, 0xd9]) = Ok 32"
proof -
  have "length (synthetic_jpeg @ [0xa5, 0xff, 0xd9]) \<le> isize_max"
    by (simp add: length_synthetic_jpeg const_simps)
  from parse_jpeg_end_grammar [OF this, of 32] show ?thesis
    using wf_synthetic_tree print_synthetic_tree length_synthetic_jpeg by metis
qed

text \<open>On every slice of a length the language allows, \<open>parse_jpeg_end\<close> terminates without a
  panic (no slice or index is out of range, no unchecked addition overflows), and the checked
  additions of the source never overflow either: \<open>LengthOverflow\<close> is not a possible result.\<close>

lemma parse_jpeg_end_robust:
  assumes "length xs \<le> isize_max"
  shows "(\<exists>n. parse_jpeg_end xs = Ok n \<and> n \<le> length xs)
    \<or> (\<exists>e. parse_jpeg_end xs = Err e \<and> e \<noteq> LengthOverflow)"
  using benign_parse_jpeg_end [OF assms] jpeg_end.consumed [of xs]
  by (cases "parse_jpeg_end xs") auto

text \<open>The walk never looks past the EOI it returns: once a slice is accepted with length
  \<open>n\<close>, replacing everything after its first \<open>n\<close> bytes leaves the result unchanged, and no
  accepted stream is a proper prefix of another.\<close>

lemma parse_jpeg_end_local:
  assumes "parse_jpeg_end xs = Ok n" and "length (take n xs @ zs) \<le> isize_max"
  shows "parse_jpeg_end (take n xs @ zs) = Ok n
    \<and> (is_jpeg (take n xs @ zs) \<longleftrightarrow> zs = [])"
proof
  have le: "length (take n xs @ zs) \<le> usize_max" using assms(2) by (simp add: const_simps)
  show "parse_jpeg_end (take n xs @ zs) = Ok n"
    by (rule jpeg_end.consumed_only [OF assms(1) le])
  show "is_jpeg (take n xs @ zs) \<longleftrightarrow> zs = []"
    using jpeg_end.prefix_free [OF _ _ le] jpeg_end.consumed [OF assms(1)] by auto
qed

end
