(* ===== verification/Envelope.thy ===== *)
theory Envelope
  imports Jpeg_Stream
begin

text \<open>
  The frame envelope of \<open>rust/src/protocol.rs\<close>: \<open>align_payload_length\<close> and
  \<open>parse_frame_envelope\<close>, and the packet fixture of the unit tests. A frame packet is a 48-byte
  header, a JPEG stream, 0x5000 bytes of decoder metadata and zero padding up to a multiple of
  the bulk endpoint's packet size. The lemmas show that the parser accepts exactly this layout.
\<close>

section \<open>Model\<close>

record FrameEnvelope =
  env_sequence :: u8
  unclassified_byte23 :: u8
  env_jpeg :: bytes
  decoder_metadata :: bytes
  env_padding :: bytes

text \<open>The remainder by zero is the panic of the source's \<open>%\<close>.\<close>

definition align_payload_length :: "usize \<Rightarrow> usize \<Rightarrow> (usize, FrameParseError) outcome" where
  "align_payload_length content_length max_packet_size =
     (if max_packet_size = 0 then Panic
      else let remainder = content_length mod max_packet_size in
        if remainder = 0 then Ok content_length
        else and_then (sub_usize max_packet_size remainder) (\<lambda>missing.
          ok_or (checked_add content_length missing) LengthOverflow))"

text \<open>The part after the JPEG stream: metadata, padding and alignment (\<open>HEADER_SIZE + jpeg_length\<close>
  onwards).\<close>

definition envelope_payload ::
  "bytes \<Rightarrow> usize \<Rightarrow> u8 \<Rightarrow> u8 \<Rightarrow> usize \<Rightarrow> (FrameEnvelope, FrameParseError) outcome" where
  "envelope_payload packet max_packet_size sequence b23 jpeg_length =
     and_then (ok_or (checked_add HEADER_SIZE jpeg_length) LengthOverflow) (\<lambda>jpeg_end.
     and_then (ok_or (checked_add jpeg_end JPEG_DECODER_METADATA_SIZE) LengthOverflow) (\<lambda>decoder_end.
     and_then (ensure (\<not> decoder_end > length packet)
                 (TruncatedDecoderMetadata (saturating_sub (length packet) jpeg_end)
                    JPEG_DECODER_METADATA_SIZE)) (\<lambda>_.
     and_then (slice_from packet decoder_end) (\<lambda>padding.
     and_then (ensure (\<not> length padding \<ge> max_packet_size)
                 (PaddingTooLong (length padding) (max_packet_size - 1))) (\<lambda>_.
     and_then (case find_indexed 0 (\<lambda>byte. byte \<noteq> 0) padding of
                 Some (offset, value) \<Rightarrow> Err (NonZeroPadding offset value)
               | None \<Rightarrow> Ok ()) (\<lambda>_.
     and_then (ok_or (checked_add jpeg_length JPEG_DECODER_METADATA_SIZE) LengthOverflow) (\<lambda>content_length.
     and_then (align_payload_length content_length max_packet_size) (\<lambda>expected_payload.
     and_then (ok_or (checked_sub (length packet) HEADER_SIZE) LengthOverflow) (\<lambda>actual_payload.
     and_then (ensure (actual_payload = expected_payload)
                 (UnalignedPayload actual_payload expected_payload max_packet_size)) (\<lambda>_.
     and_then (slice packet HEADER_SIZE jpeg_end) (\<lambda>jpeg.
     and_then (slice packet jpeg_end decoder_end) (\<lambda>metadata.
       Ok \<lparr>env_sequence = sequence, unclassified_byte23 = b23, env_jpeg = jpeg,
           decoder_metadata = metadata, env_padding = padding\<rparr>))))))))))))"

definition parse_frame_envelope ::
  "bytes \<Rightarrow> usize \<Rightarrow> (FrameEnvelope, FrameParseError) outcome" where
  "parse_frame_envelope packet max_packet_size =
     and_then (ensure (max_packet_size = HIGH_SPEED_MAX_PACKET_SIZE
                       \<or> max_packet_size = SUPER_SPEED_MAX_PACKET_SIZE)
                 (InvalidMaxPacketSize max_packet_size)) (\<lambda>_.
     and_then (ensure (\<not> length packet < HEADER_SIZE)
                 (FrameTooShort (length packet) HEADER_SIZE)) (\<lambda>_.
     and_then (slice_to packet (length WIRE_MAGIC)) (\<lambda>magic.
     and_then (ensure (magic = WIRE_MAGIC) FrameBadMagic) (\<lambda>_.
     and_then (read_u32_le packet 12) (\<lambda>declared_wire.
     and_then (ok_or (usize_try_from (unat declared_wire))
                 (DeclaredLengthDoesNotFit declared_wire)) (\<lambda>declared.
     and_then (ensure (declared = length packet)
                 (DeclaredLengthMismatch declared (length packet))) (\<lambda>_.
     and_then (read_u32_le packet 16) (\<lambda>signature.
     and_then (ensure (signature = FRAME_SIGNATURE) (InvalidSignature signature)) (\<lambda>_.
     and_then (index_at packet 20) (\<lambda>b20.
     and_then (index_at packet 21) (\<lambda>b21.
     and_then (ensure (\<not> (b20 \<noteq> FRAME_TYPE \<or> b21 \<noteq> FRAME_SUBTYPE)) (InvalidFrameType b20 b21)) (\<lambda>_.
     and_then (index_at packet 22) (\<lambda>sequence.
     and_then (index_at packet 23) (\<lambda>b23.
     and_then (slice_from packet HEADER_SIZE) (\<lambda>payload.
     and_then (parse_jpeg_end payload) (\<lambda>jpeg_length.
       envelope_payload packet max_packet_size sequence b23 jpeg_length))))))))))))))))"

section \<open>The fixture of the unit tests\<close>

definition frame_with_parts :: "bytes \<Rightarrow> usize \<Rightarrow> usize \<Rightarrow> (bytes, 'e) outcome" where
  "frame_with_parts jpeg decoder_length padding_length =
     (let total = HEADER_SIZE + length jpeg + decoder_length + padding_length in
      and_then (copy_into (replicate total 0) 0 (length WIRE_MAGIC) WIRE_MAGIC) (\<lambda>packet.
      and_then (expect (if total < 2 ^ 32 then Some (of_nat total :: u32) else None)) (\<lambda>wire_total.
      and_then (copy_into packet 12 16 (to_le_bytes 4 wire_total)) (\<lambda>packet.
      and_then (copy_into packet 16 20 (to_le_bytes 4 FRAME_SIGNATURE)) (\<lambda>packet.
      and_then (set_at packet 20 FRAME_TYPE) (\<lambda>packet.
      and_then (set_at packet 21 FRAME_SUBTYPE) (\<lambda>packet.
      and_then (set_at packet 22 0x89) (\<lambda>packet.
      and_then (copy_into packet HEADER_SIZE (HEADER_SIZE + length jpeg) jpeg) (\<lambda>packet.
        copy_into packet (HEADER_SIZE + length jpeg) (HEADER_SIZE + length jpeg + decoder_length)
          (replicate decoder_length 0xa5))))))))))"

definition synthetic_frame :: "usize \<Rightarrow> (bytes, 'e) outcome" where
  "synthetic_frame max_packet_size =
     (let jpeg = synthetic_jpeg; content_length = length jpeg + JPEG_DECODER_METADATA_SIZE in
      and_then (expect (case align_payload_length content_length max_packet_size of
                          Ok n \<Rightarrow> Some n | _ \<Rightarrow> None)) (\<lambda>padded_length.
      and_then (sub_usize padded_length content_length) (\<lambda>padding_length.
        frame_with_parts jpeg JPEG_DECODER_METADATA_SIZE padding_length)))"

section \<open>The layout\<close>

text \<open>The zero bytes that bring a content length to the next multiple of the packet size.\<close>

definition pad_length :: "nat \<Rightarrow> nat \<Rightarrow> nat" where
  "pad_length mps content = (mps - content mod mps) mod mps"

definition envelope_header :: "u8 \<Rightarrow> u8 \<Rightarrow> nat \<Rightarrow> bytes \<Rightarrow> bytes" where
  "envelope_header sequence b23 len reserved =
     WIRE_MAGIC @ to_le_bytes 4 (of_nat len :: u32) @ to_le_bytes 4 FRAME_SIGNATURE
     @ [FRAME_TYPE, FRAME_SUBTYPE, sequence, b23] @ reserved"

definition envelope_layout :: "usize \<Rightarrow> FrameEnvelope \<Rightarrow> bytes \<Rightarrow> bool" where
  "envelope_layout mps e p \<longleftrightarrow>
     (mps = 512 \<or> mps = 1024) \<and> length p < 2 ^ 32
     \<and> is_jpeg (env_jpeg e) \<and> length (decoder_metadata e) = 0x5000
     \<and> env_padding e = replicate (pad_length mps (length (env_jpeg e) + 0x5000)) 0
     \<and> (\<exists>reserved. length reserved = 24
          \<and> p = envelope_header (env_sequence e) (unclassified_byte23 e) (length p) reserved
               @ env_jpeg e @ decoder_metadata e @ env_padding e)"

section \<open>Lemmas\<close>

lemma pad_length_less: "0 < mps \<Longrightarrow> pad_length mps n < mps"
  by (simp add: pad_length_def)

lemma pad_length_aligned: "0 < mps \<Longrightarrow> (n + pad_length mps n) mod mps = 0"
proof -
  assume "0 < mps"
  then have "n mod mps < mps" by simp
  then have "n + (mps - n mod mps) = mps * (n div mps) + mps"
    using mult_div_mod_eq [of mps n] by linarith
  then have "(n + (mps - n mod mps)) mod mps = 0" by simp
  then show ?thesis unfolding pad_length_def by (simp only: mod_add_right_eq)
qed

lemma pad_length_unique:
  assumes "0 < mps" and "k < mps" and "(n + k) mod mps = 0"
  shows "k = pad_length mps n"
proof -
  have "(n + k) mod mps = (n + pad_length mps n) mod mps"
    using assms pad_length_aligned by simp
  then have "k mod mps = pad_length mps n mod mps"
    by (simp add: nat_mod_eq_iff)
  with assms pad_length_less [OF assms(1), of n] show ?thesis by simp
qed

lemma align_payload_length_eq:
  assumes "0 < mps"
  shows "align_payload_length n mps =
    (if n + pad_length mps n \<le> usize_max \<or> n mod mps = 0 then Ok (n + pad_length mps n) else Err LengthOverflow)"
proof (cases "n mod mps = 0")
  case True
  with assms show ?thesis by (simp add: align_payload_length_def pad_length_def)
next
  case False
  have "n mod mps < mps" using assms by simp
  with False assms show ?thesis
    by (auto simp: align_payload_length_def pad_length_def sub_usize_def checked_add_def ok_or_def Let_def)
qed

text \<open>What the parser does after the JPEG stream of length \<open>n\<close>, without the overflow branches.\<close>

definition envelope_tail :: "bytes \<Rightarrow> usize \<Rightarrow> nat \<Rightarrow> (FrameEnvelope, FrameParseError) outcome" where
  "envelope_tail p mps n =
     (let padding = drop (48 + n + 0x5000) p; expected = n + 0x5000 + pad_length mps (n + 0x5000) in
      if length p < 48 + n + 0x5000 then Err (TruncatedDecoderMetadata (length p - (48 + n)) 0x5000)
      else if mps \<le> length padding then Err (PaddingTooLong (length padding) (mps - 1))
      else case find_indexed 0 (\<lambda>b. b \<noteq> 0) padding of
          Some (offset, value) \<Rightarrow> Err (NonZeroPadding offset value)
        | None \<Rightarrow>
            if length p - 48 \<noteq> expected then Err (UnalignedPayload (length p - 48) expected mps)
            else Ok \<lparr>env_sequence = p ! 22, unclassified_byte23 = p ! 23,
                     env_jpeg = take n (drop 48 p), decoder_metadata = take 0x5000 (drop (48 + n) p),
                     env_padding = padding\<rparr>)"

lemma length_drop_jpeg: "parse_jpeg_end (drop 48 p) = Ok n \<Longrightarrow> n \<le> length p - 48"
  using jpeg_end.consumed [of "drop 48 p" n] by simp

lemma pad_length_bound: "mps = 512 \<or> mps = 1024 \<Longrightarrow> pad_length mps n < 1024"
  using pad_length_less [of mps n] by auto

lemma align_small:
  "mps = 512 \<or> mps = 1024 \<Longrightarrow> n < 2 ^ 33 \<Longrightarrow> align_payload_length n mps = Ok (n + pad_length mps n)"
  using pad_length_bound [of mps n] by (auto simp: align_payload_length_eq const_simps)

lemma envelope_payload_eq:
  assumes mps: "mps = 512 \<or> mps = 1024" and len: "length p < 2 ^ 32" "48 + n \<le> length p"
  shows "envelope_payload p mps (p ! 22) (p ! 23) n = envelope_tail p mps n"
proof -
  from len have "48 + n \<le> usize_max" "48 + n + 20480 \<le> usize_max" "n + 20480 \<le> usize_max"
    "n + 20480 < 2 ^ 33" "48 \<le> length p"
    by (simp_all add: const_simps)
  with mps show ?thesis
    unfolding envelope_payload_def envelope_tail_def HEADER_SIZE_def JPEG_DECODER_METADATA_SIZE_def Let_def
    by (simp add: checked_add_def checked_sub_def align_small ensure_def saturating_sub_def slice_simps
        split: option.split)
qed

lemma parse_frame_envelope_eq:
  "parse_frame_envelope p mps =
     (if \<not> (mps = 512 \<or> mps = 1024) then Err (InvalidMaxPacketSize mps)
      else if length p < 48 then Err (FrameTooShort (length p) 48)
      else if take 12 p \<noteq> WIRE_MAGIC then Err FrameBadMagic
      else let declared = unat (from_le_bytes (take 4 (drop 12 p)) :: u32);
               signature = from_le_bytes (take 4 (drop 16 p)) :: u32 in
        if declared \<noteq> length p then Err (DeclaredLengthMismatch declared (length p))
        else if signature \<noteq> FRAME_SIGNATURE then Err (InvalidSignature signature)
        else if \<not> (p ! 20 = FRAME_TYPE \<and> p ! 21 = FRAME_SUBTYPE) then Err (InvalidFrameType (p ! 20) (p ! 21))
        else and_then (parse_jpeg_end (drop 48 p)) (envelope_tail p mps))"
proof (cases "(mps = 512 \<or> mps = 1024) \<and> 48 \<le> length p")
  case True
  then have l: "48 \<le> length p" by simp
  have "unat declared = length p \<Longrightarrow> parse_jpeg_end (drop 48 p) = Ok n \<Longrightarrow>
      envelope_payload p mps (p ! 22) (p ! 23) n = envelope_tail p mps n" for declared :: u32 and n
    using True length_drop_jpeg [of p n] unsigned_less [of declared, where 'a = nat]
    by (intro envelope_payload_eq) auto
  then have "unat declared = length p \<Longrightarrow>
      and_then (parse_jpeg_end (drop 48 p)) (envelope_payload p mps (p ! 22) (p ! 23)) =
      and_then (parse_jpeg_end (drop 48 p)) (envelope_tail p mps)" for declared :: u32
    by (cases "parse_jpeg_end (drop 48 p)") auto
  moreover have "unat d \<le> usize_max" for d :: u32
    using unsigned_less [of d, where 'a = nat] by (simp add: const_simps)
  ultimately show ?thesis
    using True l
    by (auto simp: parse_frame_envelope_def const_simps read_u32_le_Ok slice_simps usize_try_from_def
        ensure_def Let_def)
next
  case False
  then show ?thesis by (auto simp: parse_frame_envelope_def const_simps)
qed

text \<open>Splitting a packet at the offsets of the frame header and of the payload.\<close>

lemma header_split_24:
  assumes "48 \<le> length p"
  shows "p = take 12 p @ take 4 (drop 12 p) @ take 4 (drop 16 p)
    @ [p ! 20, p ! 21, p ! 22, p ! 23] @ take 24 (drop 24 p) @ drop 48 p"
proof -
  have "p = take 12 p @ take 4 (drop 12 p) @ take 4 (drop 16 p) @ [p ! 20] @ drop 21 p"
    using assms by (intro header_split) simp
  also have "drop 21 p = [p ! 21, p ! 22, p ! 23] @ drop 24 p"
    using assms Cons_nth_drop_Suc [of 21 p] Cons_nth_drop_Suc [of 22 p] Cons_nth_drop_Suc [of 23 p] by simp
  also have "drop 24 p = take 24 (drop 24 p) @ drop 48 p"
    using append_take_drop_id [of 24 "drop 24 p"] by simp
  finally show ?thesis by simp
qed

lemma payload_split: "drop k p = take n (drop k p) @ take m (drop (k + n) p) @ drop (k + n + m) p"
  using append_take_drop_id [of n "drop k p"] append_take_drop_id [of m "drop (k + n) p"]
  by (simp add: add.commute add.left_commute)

lemma all_zero_replicate: "(\<forall>b \<in> set xs. b = 0) \<longleftrightarrow> xs = replicate (length xs) 0"
  by (metis in_set_replicate replicate_length_same)

lemma find_indexed_zeros [simp]: "find_indexed i (\<lambda>b. b \<noteq> 0) (replicate m (0 :: u8)) = None"
  by (simp add: find_indexed_None)

lemma envelope_tail_Ok:
  assumes "mps = 512 \<or> mps = 1024"
  shows "envelope_tail p mps n = Ok e \<longleftrightarrow>
    (let k = pad_length mps (n + 0x5000) in
     length p = 48 + n + 0x5000 + k \<and> drop (48 + n + 0x5000) p = replicate k 0
     \<and> e = \<lparr>env_sequence = p ! 22, unclassified_byte23 = p ! 23, env_jpeg = take n (drop 48 p),
            decoder_metadata = take 0x5000 (drop (48 + n) p), env_padding = replicate k 0\<rparr>)"
proof -
  have k: "pad_length mps (n + 20480) < mps" using assms by (intro pad_length_less) auto
  have "find_indexed 0 (\<lambda>b. b \<noteq> 0) xs = None \<longleftrightarrow> xs = replicate (length xs) 0" for xs :: bytes
    using all_zero_replicate [of xs] by (simp add: find_indexed_None)
  with k show ?thesis
    by (auto simp: envelope_tail_def Let_def split: option.split)
qed

lemma parse_frame_envelope_sound:
  assumes "parse_frame_envelope p mps = Ok e"
  shows "envelope_layout mps e p"
proof -
  from assms obtain n where mps: "mps = 512 \<or> mps = 1024" and len: "48 \<le> length p"
    and magic: "take 12 p = WIRE_MAGIC" and w12: "unat (from_le_bytes (take 4 (drop 12 p)) :: u32) = length p"
    and w16: "from_le_bytes (take 4 (drop 16 p)) = FRAME_SIGNATURE"
    and kind: "p ! 20 = FRAME_TYPE" "p ! 21 = FRAME_SUBTYPE"
    and jpeg: "parse_jpeg_end (drop 48 p) = Ok n" and tail: "envelope_tail p mps n = Ok e"
    unfolding parse_frame_envelope_eq Let_def by (auto simp: outcome_simps split: if_splits)
  define k where "k = pad_length mps (n + 0x5000)"
  from tail have size: "length p = 48 + n + 0x5000 + k" and pad: "drop (48 + n + 0x5000) p = replicate k 0"
    and e: "e = \<lparr>env_sequence = p ! 22, unclassified_byte23 = p ! 23, env_jpeg = take n (drop 48 p),
            decoder_metadata = take 0x5000 (drop (48 + n) p), env_padding = replicate k 0\<rparr>"
    unfolding envelope_tail_Ok [OF mps] k_def Let_def by blast+
  have small: "length p < 2 ^ 32"
    using unsigned_less [of "from_le_bytes (take 4 (drop 12 p)) :: u32", where 'a = nat] w12 by simp
  have f12: "take 4 (drop 12 p) = to_le_bytes 4 (of_nat (length p) :: u32)"
    using len arg_cong [OF w12, of "of_nat :: nat \<Rightarrow> u32"] by (simp add: u32_le.dec_eq_iff)
  have f16: "take 4 (drop 16 p) = to_le_bytes 4 FRAME_SIGNATURE"
    using len w16 by (simp add: u32_le.dec_eq_iff)
  have "p = envelope_header (env_sequence e) (unclassified_byte23 e) (length p) (take 24 (drop 24 p)) @ drop 48 p"
    using header_split_24 [OF len] unfolding magic f12 f16 kind envelope_header_def
    by (simp only: append_assoc e FrameEnvelope.select_convs)
  also have "drop 48 p = env_jpeg e @ decoder_metadata e @ env_padding e"
    using payload_split [of 48 p n "0x5000"] pad by (simp add: e)
  finally have p: "p = envelope_header (env_sequence e) (unclassified_byte23 e) (length p) (take 24 (drop 24 p))
      @ env_jpeg e @ decoder_metadata e @ env_padding e" .
  have "is_jpeg (env_jpeg e)" "length (env_jpeg e) = n"
    using jpeg_end.consumed [OF jpeg] by (simp_all add: e)
  moreover from size have "length (decoder_metadata e) = 0x5000" "length (take 24 (drop 24 p)) = 24"
    by (simp_all add: e)
  ultimately show ?thesis
    unfolding envelope_layout_def using mps small p by (auto simp only: e k_def FrameEnvelope.select_convs)
qed

lemma parse_frame_envelope_complete:
  assumes "envelope_layout mps e p"
  shows "parse_frame_envelope p mps = Ok e"
proof -
  define n k where "n = length (env_jpeg e)" and "k = pad_length mps (n + 0x5000)"
  from assms obtain reserved where mps: "mps = 512 \<or> mps = 1024" and small: "length p < 2 ^ 32"
    and jpeg: "is_jpeg (env_jpeg e)" and meta: "length (decoder_metadata e) = 0x5000"
    and pad: "env_padding e = replicate k 0" and res: "length reserved = 24"
    and p: "p = envelope_header (env_sequence e) (unclassified_byte23 e) (length p) reserved
        @ env_jpeg e @ decoder_metadata e @ env_padding e"
    unfolding envelope_layout_def n_def k_def by blast
  have head: "length (envelope_header s b l reserved) = 48" for s b l
    by (simp add: envelope_header_def res)
  have fields: "take 12 p = WIRE_MAGIC" "take 4 (drop 12 p) = to_le_bytes 4 (of_nat (length p) :: u32)"
    "take 4 (drop 16 p) = to_le_bytes 4 FRAME_SIGNATURE"
    "p ! 20 = FRAME_TYPE" "p ! 21 = FRAME_SUBTYPE" "p ! 22 = env_sequence e" "p ! 23 = unclassified_byte23 e"
    by (subst p, simp add: envelope_header_def nth_append)+
  have d48: "drop 48 p = env_jpeg e @ decoder_metadata e @ env_padding e"
    by (subst p) (simp add: head)
  have size: "length p = 48 + n + 0x5000 + k"
    by (subst p) (simp add: head meta pad n_def)
  have rest: "drop (48 + n) p = decoder_metadata e @ env_padding e" "drop (48 + n + 0x5000) p = env_padding e"
    using arg_cong [OF d48, of "drop n"] arg_cong [OF d48, of "drop (n + 0x5000)"]
    by (simp_all add: n_def meta add.commute add.left_commute)
  have "parse_jpeg_end (drop 48 p) = Ok n"
    unfolding d48 n_def using small size
    by (intro jpeg_end.complete jpeg) (simp add: meta pad n_def const_simps)
  moreover have "envelope_tail p mps n = Ok e"
    unfolding envelope_tail_Ok [OF mps] Let_def k_def [symmetric] using size rest
    by (auto intro!: FrameEnvelope.equality simp: fields d48 pad meta n_def)
  moreover have "unat (of_nat (length p) :: u32) = length p"
    using small by (simp add: unat_of_nat)
  ultimately show ?thesis
    unfolding parse_frame_envelope_eq using mps size by (simp add: fields u32_le.dec_enc)
qed

lemma parse_frame_envelope_layout: "parse_frame_envelope p mps = Ok e \<longleftrightarrow> envelope_layout mps e p"
  using parse_frame_envelope_sound parse_frame_envelope_complete by blast

lemma benign_parse_frame_envelope: "benign (parse_frame_envelope p mps)"
proof (cases "unat (from_le_bytes (take 4 (drop 12 p)) :: u32) = length p")
  case True
  then have "length (drop 48 p) \<le> isize_max"
    using unsigned_less [of "from_le_bytes (take 4 (drop 12 p)) :: u32", where 'a = nat]
    by (simp add: const_simps)
  then have "benign (and_then (parse_jpeg_end (drop 48 p)) (envelope_tail p mps))"
    by (intro benign_and_then benign_parse_jpeg_end)
      (auto simp: envelope_tail_def Let_def split: option.split)
  then show ?thesis by (auto simp: parse_frame_envelope_eq Let_def)
next
  case False
  then show ?thesis by (simp add: parse_frame_envelope_eq Let_def)
qed

interpretation frame_envelope: strict_decoder "\<lambda>p. parse_frame_envelope p mps" "envelope_layout mps" for mps
proof
  fix p
  show "parse_frame_envelope p mps \<noteq> Panic"
    using benign_parse_frame_envelope [of p mps] by (auto simp: benign_def)
qed (rule parse_frame_envelope_layout)

section \<open>Lemmas: the fixture\<close>

lemma frame_with_parts_eq:
  "frame_with_parts jpeg d k =
     (let t = 48 + length jpeg + d + k in
      if t < 2 ^ 32 then Ok (envelope_header 0x89 0 t (replicate 24 0) @ jpeg @ replicate d 0xa5 @ replicate k 0)
      else Panic)"
proof -
  define m where "m = length jpeg + d + k"
  have r: "replicate (48 + m) (0 :: u8) = replicate 12 0 @ replicate 4 0 @ replicate 4 0 @ [0, 0, 0, 0]
      @ replicate 24 0 @ replicate (length jpeg) 0 @ replicate d 0 @ replicate k 0"
    by (simp add: m_def replicate_add [symmetric] replicate_app_Cons_same eval_nat_numeral)
  have t: "48 + length jpeg + d + k = 48 + m" by (simp add: m_def)
  show ?thesis
    unfolding frame_with_parts_def envelope_header_def HEADER_SIZE_def Let_def t r
    by (simp add: copy_into_def set_at_def list_update_append take_Cons' drop_Cons')
qed

lemma synthetic_frame_eq:
  assumes "mps = 512 \<or> mps = 1024"
  shows "synthetic_frame mps = frame_with_parts synthetic_jpeg 0x5000 (pad_length mps (length synthetic_jpeg + 0x5000))"
  using assms align_small [OF assms, of "length synthetic_jpeg + 0x5000"]
  by (simp add: synthetic_frame_def Let_def const_simps sub_usize_def length_synthetic_jpeg)

section \<open>Lemmas: cut and extended packets\<close>

lemma parse_frame_envelope_mismatch:
  assumes "mps = 512 \<or> mps = 1024" and "48 \<le> length q" and "take 12 q = WIRE_MAGIC"
    and "take 4 (drop 12 q) = to_le_bytes 4 (of_nat n :: u32)" and "n < 2 ^ 32" and "n \<noteq> length q"
  shows "parse_frame_envelope q mps = Err (DeclaredLengthMismatch n (length q))"
  using assms by (simp add: parse_frame_envelope_eq u32_le.dec_enc unat_of_nat)

lemma envelope_layout_fields:
  assumes "envelope_layout mps e p"
  shows "mps = 512 \<or> mps = 1024" "48 \<le> length p" "length p < 2 ^ 32" "take 12 p = WIRE_MAGIC"
    "take 4 (drop 12 p) = to_le_bytes 4 (of_nat (length p) :: u32)"
proof -
  from assms obtain reserved where r: "length reserved = 24"
    and p: "p = envelope_header (env_sequence e) (unclassified_byte23 e) (length p) reserved
        @ env_jpeg e @ decoder_metadata e @ env_padding e"
    unfolding envelope_layout_def by blast
  show "48 \<le> length p" by (subst p) (simp add: envelope_header_def r)
  show "take 12 p = WIRE_MAGIC" "take 4 (drop 12 p) = to_le_bytes 4 (of_nat (length p) :: u32)"
    by (subst p, simp add: envelope_header_def)+
qed (use assms in \<open>simp_all add: envelope_layout_def\<close>)

section \<open>Properties\<close>

text \<open>C2: \<open>parse_frame_envelope\<close> accepts a packet with a result exactly when the packet is a frame
  of the layout: an endpoint packet size of 512 or 1024, the magic, the packet's own length, the
  frame signature and type, one complete JPEG stream of the grammar, 0x5000 metadata bytes, and
  zero padding of exactly the length that aligns the payload; the result's fields are those parts.\<close>

theorem frame_envelope_exact:
  "parse_frame_envelope p mps = Ok e \<longleftrightarrow> envelope_layout mps e p"
  by (rule frame_envelope.parse_Ok_iff)

text \<open>C5: on every byte string and every packet size \<open>parse_frame_envelope\<close> ends with a result or an
  error, without a panic, and the length arithmetic never overflows: neither \<open>LengthOverflow\<close> nor
  \<open>DeclaredLengthDoesNotFit\<close> is ever reported.\<close>

theorem frame_envelope_robust:
  "parse_frame_envelope p mps \<noteq> Panic
   \<and> parse_frame_envelope p mps \<noteq> Err LengthOverflow
   \<and> (\<forall>w. parse_frame_envelope p mps \<noteq> Err (DeclaredLengthDoesNotFit w))"
  using benign_parse_frame_envelope unfolding benign_def by blast

text \<open>A packet assembled from a JPEG stream of the grammar, 0x5000 metadata bytes and the aligning
  number of padding bytes parses back to these parts, for every such stream that fits a 32-bit
  packet length.\<close>

lemma frame_with_parts_roundtrip:
  assumes "mps = 512 \<or> mps = 1024" and "is_jpeg jpeg"
    and "48 + length jpeg + 0x5000 + pad_length mps (length jpeg + 0x5000) < 2 ^ 32"
  shows "and_then (frame_with_parts jpeg 0x5000 (pad_length mps (length jpeg + 0x5000)))
      (\<lambda>p. parse_frame_envelope p mps) =
    Ok \<lparr>env_sequence = 0x89, unclassified_byte23 = 0, env_jpeg = jpeg,
        decoder_metadata = replicate 0x5000 0xa5,
        env_padding = replicate (pad_length mps (length jpeg + 0x5000)) 0\<rparr>"
proof -
  have "length (envelope_header s b l (replicate 24 0)) = 48" for s b l
    by (simp add: envelope_header_def)
  with assms show ?thesis
    by (auto simp: frame_with_parts_eq Let_def parse_frame_envelope_layout envelope_layout_def add.assoc
        intro!: exI [of _ "replicate 24 0"])
qed

text \<open>An accepted packet that loses bytes at its end, or gains some, is rejected, and the error
  names the cause: too short for the header, or a declared length that is not the packet's.\<close>

lemma frame_envelope_cut_or_extended:
  assumes "parse_frame_envelope p mps = Ok e" and "n < length p" and "ys \<noteq> []"
  shows "parse_frame_envelope (take n p) mps =
      Err (if n < 48 then FrameTooShort n 48 else DeclaredLengthMismatch (length p) n)
    \<and> parse_frame_envelope (p @ ys) mps =
      Err (DeclaredLengthMismatch (length p) (length p + length ys))"
proof
  from assms(1) have "envelope_layout mps e p" by (simp add: parse_frame_envelope_layout)
  note lay = envelope_layout_fields [OF this]
  show "parse_frame_envelope (p @ ys) mps = Err (DeclaredLengthMismatch (length p) (length p + length ys))"
    using parse_frame_envelope_mismatch [OF lay(1), of "p @ ys" "length p"] lay assms(3) by simp
  show "parse_frame_envelope (take n p) mps =
      Err (if n < 48 then FrameTooShort n 48 else DeclaredLengthMismatch (length p) n)"
  proof (cases "n < 48")
    case True
    with lay(1) assms(2) show ?thesis by (auto simp: parse_frame_envelope_eq)
  next
    case False
    then have "min 4 (n - 12) = 4" "min 12 n = 12" "min n 12 = 12" by simp_all
    with False show ?thesis
      using parse_frame_envelope_mismatch [OF lay(1), of "take n p" "length p"] lay assms(2)
      by (simp add: drop_take)
  qed
qed

lemma frame_envelope_cut_or_extended_sample:
  "\<exists>p. synthetic_frame 512 = (Ok p :: (bytes, FrameParseError) outcome) \<and> length p = 21040
     \<and> parse_frame_envelope (take 100 p) 512 = Err (DeclaredLengthMismatch 21040 100)
     \<and> parse_frame_envelope (p @ [0]) 512 = Err (DeclaredLengthMismatch 21040 21041)"
proof -
  have k: "pad_length 512 (length synthetic_jpeg + 0x5000) = 480"
    by (simp add: pad_length_def length_synthetic_jpeg)
  define p where "p = envelope_header 0x89 0 21040 (replicate 24 0) @ synthetic_jpeg
    @ replicate 0x5000 0xa5 @ replicate 480 0"
  have len: "length p = 21040" by (simp add: p_def envelope_header_def length_synthetic_jpeg)
  have "envelope_layout 512 \<lparr>env_sequence = 0x89, unclassified_byte23 = 0, env_jpeg = synthetic_jpeg,
      decoder_metadata = replicate 0x5000 0xa5, env_padding = replicate 480 0\<rparr> p"
    unfolding envelope_layout_def len using k
    by (auto simp: is_jpeg_synthetic p_def intro!: exI [of _ "replicate 24 0"])
  then have "parse_frame_envelope p 512 = Ok \<lparr>env_sequence = 0x89, unclassified_byte23 = 0,
      env_jpeg = synthetic_jpeg, decoder_metadata = replicate 0x5000 0xa5, env_padding = replicate 480 0\<rparr>"
    by (simp add: parse_frame_envelope_layout)
  from frame_envelope_cut_or_extended [OF this, of 100 "[0]"] len
  have "parse_frame_envelope (take 100 p) 512 = Err (DeclaredLengthMismatch 21040 100)"
    "parse_frame_envelope (p @ [0]) 512 = Err (DeclaredLengthMismatch 21040 21041)"
    by simp_all
  moreover have "synthetic_frame 512 = (Ok p :: (bytes, FrameParseError) outcome)"
    by (simp add: synthetic_frame_eq frame_with_parts_eq length_synthetic_jpeg p_def
        pad_length_def)
  ultimately show ?thesis using len by blast
qed

text \<open>For a content length that fits \<open>usize\<close>, \<open>align_payload_length\<close> returns the least multiple of
  the packet size that is not below it; it reports an overflow exactly when that multiple
  does not fit, and divides by zero exactly for a packet size of zero.\<close>

lemma align_payload_length_spec:
  assumes "n \<le> usize_max"
  shows "(align_payload_length n mps = Panic \<longleftrightarrow> mps = 0)
    \<and> (align_payload_length n mps = Ok m \<longleftrightarrow>
        0 < mps \<and> mps dvd m \<and> n \<le> m \<and> m < n + mps \<and> m \<le> usize_max)
    \<and> (align_payload_length n mps = Err e \<longleftrightarrow>
        0 < mps \<and> e = LengthOverflow \<and> usize_max < n + pad_length mps n)"
proof (cases "mps = 0")
  case True
  then show ?thesis by (simp add: align_payload_length_def)
next
  case False
  then have pos: "0 < mps" by simp
  have "m = n + pad_length mps n \<longleftrightarrow> mps dvd m \<and> n \<le> m \<and> m < n + mps"
    using pad_length_unique [OF pos, of "m - n" n] pad_length_aligned [OF pos, of n]
      pad_length_less [OF pos, of n] by (auto simp: dvd_eq_mod_eq_0)
  moreover have "n mod mps = 0 \<Longrightarrow> pad_length mps n = 0" by (simp add: pad_length_def)
  ultimately show ?thesis
    using assms pos by (auto simp: align_payload_length_eq)
qed

end
