(* ===== verification/Decode_Command.thy ===== *)
theory Decode_Command
  imports Console Hex_Input Envelope
begin

text \<open>
  The offline decoder of \<open>rust/src/main.rs\<close>: \<open>decode\<close>, which classifies a packet and prints what it
  holds, and \<open>print_protocol_info\<close>. The lemmas show which packets the decoder accepts, that guessing
  the endpoint's packet size from the payload length loses no frame, and that the packets printed by
  the program are read back by it.
\<close>

section \<open>Model\<close>

definition decode_frame :: "bytes \<Rightarrow> unit console" where
  "decode_frame packet =
     (let payload_length = saturating_sub (length packet) HEADER_SIZE;
          max_packet_size = (if payload_length mod SUPER_SPEED_MAX_PACKET_SIZE = 0
                             then SUPER_SPEED_MAX_PACKET_SIZE else HIGH_SPEED_MAX_PACKET_SIZE)
      in attempt (map_err display_FrameParseError (parse_frame_envelope packet max_packet_size)) (\<lambda>frame.
           println (''sequence='' @ show_u8 (env_sequence frame)
             @ '' byte23='' @ show_hex_alt 4 (unat (unclassified_byte23 frame))
             @ '' jpeg='' @ show_nat (length (env_jpeg frame))
             @ '' decoder='' @ show_nat (length (decoder_metadata frame))
             @ '' padding='' @ show_nat (length (env_padding frame))) finished))"

definition decode_ack :: "bytes \<Rightarrow> unit console" where
  "decode_ack packet =
     attempt (map_err display_FrameAckParseError (parse_frame_ack packet)) (\<lambda>ack.
       let b = (\<lambda>i. show_hex_pad 2 (unat (unclassified_bytes21_23 ack ! i))) in
       println (''frame-ack sequence='' @ show_u8 (ack_sequence ack)
         @ '' bytes21-23='' @ b 0 @ b 1 @ b 2) finished)"

definition mode_line :: "nat \<Rightarrow> Mode \<Rightarrow> string" where
  "mode_line index mode =
     ''mode['' @ show_nat index @ '']='' @ show_u32 (mode_width mode) @ ''x'' @ show_u32 (mode_height mode)
     @ ''@'' @ show_u32 (refresh_hz mode) @ '' '' @ show_u32 (bits_per_pixel mode) @ ''bpp''"

definition decode :: "bytes \<Rightarrow> unit console" where
  "decode packet =
     attempt (map_err display_ParseError (parse_header packet)) (\<lambda>header.
       if word16 header = FRAME_SIGNATURE then decode_frame packet
       else if length packet = FRAME_ACK_SIZE \<and> word16 header = FRAME_ACK_SIGNATURE
       then decode_ack packet
       else println (''bytes='' @ show_nat (length packet)
              @ '' word12='' @ show_hex_alt 10 (unat (word12 header))
              @ '' word16='' @ show_hex_alt 10 (unat (word16 header))
              @ '' byte20='' @ show_hex_alt 4 (unat (byte20 header)))
         (case parse_canonical_command_request packet of
            Ok request \<Rightarrow>
              println (''request class='' @ show_hex_alt 0 (unat COMMAND_CLASS)
                @ '' opcode='' @ show_hex_alt 4 (unat (request_opcode request))
                @ '' length='' @ show_nat (request_length request)) finished
          | Panic \<Rightarrow> ([], Panic)
          | Err _ \<Rightarrow>
              if length packet < HEADER_SIZE then finished
              else attempt (map_err display_ParseError (parse_observed_modes packet)) (\<lambda>modes.
                print_lines (map (\<lambda>(index, mode). mode_line index mode) (enumerate 0 modes)) finished)))"

definition hex_text :: "bytes \<Rightarrow> string" where
  "hex_text packet = concat (map (\<lambda>byte. show_hex_pad 2 (unat byte)) packet)"

definition print_protocol_info :: "unit console" where
  "print_protocol_info =
     println (''display-interface='' @ show_u8 DISPLAY_INTERFACE @ '' alt='' @ show_u8 DISPLAY_ALT_SETTING
       @ '' interrupt-in='' @ show_hex_alt 4 (unat INTERRUPT_IN_ENDPOINT)
       @ '' interrupt-out='' @ show_hex_alt 4 (unat INTERRUPT_OUT_ENDPOINT)
       @ '' bulk-out='' @ show_hex_alt 4 (unat BULK_OUT_ENDPOINT))
     (attempt build_capabilities_request (\<lambda>capabilities.
      attempt (expect (case build_bulk_heartbeat_request 0 of Ok packet \<Rightarrow> Some packet | _ \<Rightarrow> None)) (\<lambda>heartbeat.
        print_lines (map (\<lambda>(name, packet). name @ ''='' @ hex_text packet)
                       [(''capabilities'', capabilities), (''bulk-heartbeat'', heartbeat)])
          (println ''transmission=disabled'' finished))))"

section \<open>Lemmas: frames\<close>

text \<open>A payload that is aligned to the larger packet size and padded for the smaller one is padded for
  both; so the guess agrees with every packet size that accepts the packet.\<close>

definition guessed_packet_size :: "bytes \<Rightarrow> nat" where
  "guessed_packet_size p = (if (length p - 48) mod 1024 = 0 then 1024 else 512)"

lemma pad_length_both:
  assumes "(n + pad_length 512 n) mod 1024 = 0"
  shows "pad_length 1024 n = pad_length 512 n"
  using assms pad_length_less [of 512 n] by (intro pad_length_unique [symmetric]) auto

lemma envelope_payload_length:
  assumes "envelope_layout mps e p"
  shows "length p - 48 = length (env_jpeg e) + 0x5000 + pad_length mps (length (env_jpeg e) + 0x5000)"
proof -
  from assms obtain reserved where r: "length reserved = 24" and m: "length (decoder_metadata e) = 0x5000"
    and d: "env_padding e = replicate (pad_length mps (length (env_jpeg e) + 0x5000)) 0"
    and p: "p = envelope_header (env_sequence e) (unclassified_byte23 e) (length p) reserved
        @ env_jpeg e @ decoder_metadata e @ env_padding e"
    unfolding envelope_layout_def by blast
  show ?thesis by (subst p) (simp add: envelope_header_def r m d)
qed

lemma envelope_layout_guess:
  assumes "envelope_layout mps e p"
  shows "envelope_layout (guessed_packet_size p) e p"
proof -
  let ?n = "length (env_jpeg e) + 0x5000"
  note len = envelope_payload_length [OF assms]
  from assms consider "mps = 1024" | "mps = 512" unfolding envelope_layout_def by blast
  then have "pad_length (guessed_packet_size p) ?n = pad_length mps ?n"
  proof cases
    case 1
    then show ?thesis using pad_length_aligned [of 1024 ?n] len by (simp add: guessed_packet_size_def)
  next
    case 2
    then show ?thesis using pad_length_both [of ?n] len by (simp add: guessed_packet_size_def)
  qed
  moreover have "guessed_packet_size p = 512 \<or> guessed_packet_size p = 1024"
    by (simp add: guessed_packet_size_def)
  ultimately show ?thesis
    using assms unfolding envelope_layout_def by metis
qed

lemma parse_frame_envelope_guess:
  "parse_frame_envelope p mps = Ok e \<Longrightarrow> parse_frame_envelope p (guessed_packet_size p) = Ok e"
  unfolding parse_frame_envelope_layout by (rule envelope_layout_guess)

lemma decode_frame_eq:
  "decode_frame p =
     attempt (map_err display_FrameParseError (parse_frame_envelope p (guessed_packet_size p))) (\<lambda>frame.
       println (''sequence='' @ show_u8 (env_sequence frame)
         @ '' byte23='' @ show_hex_alt 4 (unat (unclassified_byte23 frame))
         @ '' jpeg='' @ show_nat (length (env_jpeg frame))
         @ '' decoder='' @ show_nat (length (decoder_metadata frame))
         @ '' padding='' @ show_nat (length (env_padding frame))) finished)"
  unfolding decode_frame_def Let_def guessed_packet_size_def saturating_sub_def const_simps ..

lemma decode_frame_result:
  "snd (decode_frame p) \<noteq> Panic \<and> (snd (decode_frame p) = Ok () \<longleftrightarrow> (\<exists>mps e. parse_frame_envelope p mps = Ok e))"
proof -
  have np: "parse_frame_envelope p (guessed_packet_size p) \<noteq> Panic" by (rule frame_envelope.no_panic)
  show ?thesis
  proof (cases "parse_frame_envelope p (guessed_packet_size p)")
    case (Ok e)
    then show ?thesis by (auto simp: decode_frame_eq)
  next
    case (Err x)
    then have "parse_frame_envelope p mps \<noteq> Ok e" for mps e
      using parse_frame_envelope_guess [of p mps e] by auto
    with Err show ?thesis by (simp add: decode_frame_eq)
  qed (use np in simp)
qed

section \<open>Lemmas: the other packets\<close>

lemma decode_ack_result:
  assumes h: "parse_header p = Ok h" and len: "length p = 1024" and sig: "word16 h = FRAME_ACK_SIGNATURE"
  shows "snd (decode_ack p) \<noteq> Panic \<and> (snd (decode_ack p) = Ok () \<longleftrightarrow> word12 h = 1024)"
  using assms by (auto simp: decode_ack_def parse_frame_ack_eq parse_header_eq Let_def split: if_splits)

lemma parse_observed_modes_after_header:
  assumes "parse_header p = Ok h" and "48 \<le> length p"
  shows "\<exists>modes. parse_observed_modes p = Ok modes"
  using assms by (auto simp: parse_observed_modes_eq parse_header_eq split: if_splits)

lemma decode_other_result:
  assumes h: "parse_header p = Ok h" and nf: "word16 h \<noteq> FRAME_SIGNATURE"
    and na: "\<not> (length p = 1024 \<and> word16 h = FRAME_ACK_SIGNATURE)"
  shows "snd (decode p) = Ok ()"
  using assms parse_observed_modes_after_header [OF h] command_request.no_panic [of p]
  by (auto simp: decode_def snd_attempt const_simps split: outcome.splits)

lemma envelope_header_signature:
  assumes "envelope_layout mps e p"
  shows "\<exists>h. parse_header p = Ok h \<and> word16 h = FRAME_SIGNATURE"
proof -
  from assms obtain reserved where
    p: "p = envelope_header (env_sequence e) (unclassified_byte23 e) (length p) reserved
        @ env_jpeg e @ decoder_metadata e @ env_padding e"
    unfolding envelope_layout_def by blast
  have "header_layout \<lparr>word12 = of_nat (length p), word16 = FRAME_SIGNATURE, byte20 = FRAME_TYPE\<rparr> p"
    unfolding header_layout_def
    by (rule exI [of _ "[FRAME_SUBTYPE, env_sequence e, unclassified_byte23 e] @ reserved
          @ env_jpeg e @ decoder_metadata e @ env_padding e"])
      (subst p, simp add: envelope_header_def)
  then show ?thesis unfolding parse_header_layout [symmetric] by force
qed

lemma decode_result:
  "snd (decode p) \<noteq> Panic
   \<and> (snd (decode p) = Ok () \<longleftrightarrow>
       (\<exists>h. header_layout h p
         \<and> (if word16 h = FRAME_SIGNATURE then \<exists>mps e. envelope_layout mps e p
            else if length p = 1024 \<and> word16 h = FRAME_ACK_SIGNATURE then word12 h = 1024
            else True)))"
proof (cases "parse_header p")
  case (Ok h)
  then have unique: "header_layout h' p \<longleftrightarrow> h' = h" for h'
    by (auto simp: parse_header_layout [symmetric])
  have "snd (decode p) = snd (decode_frame p)" if "word16 h = FRAME_SIGNATURE"
    using that Ok by (simp add: decode_def)
  moreover have "snd (decode p) = snd (decode_ack p)"
    if "word16 h \<noteq> FRAME_SIGNATURE" "length p = 1024 \<and> word16 h = FRAME_ACK_SIGNATURE"
    using that Ok by (simp add: decode_def const_simps)
  ultimately show ?thesis
    using decode_frame_result [of p] decode_ack_result [OF Ok] decode_other_result [OF Ok]
    unfolding unique parse_frame_envelope_layout by simp
next
  case (Err e)
  then have "\<nexists>h. header_layout h p" by (simp add: parse_header_layout [symmetric])
  with Err show ?thesis by (simp add: decode_def)
next
  case Panic
  with wire_header.no_panic show ?thesis by blast
qed

lemma decode_request:
  assumes "request_layout r p"
  shows "decode p =
    ([''bytes='' @ show_nat (length p) @ '' word12='' @ show_hex_alt 10 (length p)
      @ '' word16='' @ show_hex_alt 10 6 @ '' byte20='' @ show_hex_alt 4 (unat (request_opcode r)),
      ''request class='' @ show_hex_alt 0 6 @ '' opcode='' @ show_hex_alt 4 (unat (request_opcode r))
      @ '' length='' @ show_nat (length p)], Ok ())"
proof -
  define h where "h = \<lparr>word12 = of_nat (length p), word16 = COMMAND_CLASS, byte20 = request_opcode r\<rparr>"
  have "header_layout h p" using assms by (auto simp: request_layout_def header_layout_def h_def)
  then have h: "parse_header p = Ok h" by (simp add: parse_header_layout)
  have r: "parse_canonical_command_request p = Ok r" using assms by (simp add: parse_canonical_layout)
  have "unat (word12 h) = length p" and len: "request_length r = length p"
    using assms by (simp_all add: h_def request_layout_def unat_of_nat)
  moreover have "word16 h = 6" "byte20 h = request_opcode r" by (simp_all add: h_def const_simps)
  ultimately show ?thesis
    by (simp add: decode_def h r println_def const_simps)
qed

lemma replicate_numeral_eq: "replicate (numeral k) x = x # replicate (pred_numeral k) x"
  by (simp add: numeral_eq_Suc)

lemmas show_eval =
  show_radix.simps digit_char_def char_of_def bit_0 zero_pad_def show_hex_alt_def replicate_numeral_eq

section \<open>Lemmas: hexadecimal text\<close>

lemma of_char_hex_digit: "d < 16 \<Longrightarrow> (of_char (digit_char d) :: nat) = (if d < 10 then 48 + d else 87 + d)"
  by (simp add: digit_char_def)

lemma to_digit_16_digit_char: "d < 16 \<Longrightarrow> to_digit_16 (of_char (digit_char d)) = Some d"
  by (simp add: of_char_hex_digit to_digit_16_def)

lemma digit_char_separator: "d < 16 \<Longrightarrow> \<not> is_separator (of_char (digit_char d))"
  using to_digit_16_digit_char [of d] to_digit_16_separator by fastforce

lemma hex_text_eq: "hex_text bs = concat (map (\<lambda>b. map digit_char (byte_digits b)) bs)"
proof -
  have "show_hex_pad 2 (unat b) = map digit_char (byte_digits b)" for b :: u8
    using unsigned_less [of b, where 'a = nat] by (simp add: show_hex_pad_2 byte_digits_def)
  then show ?thesis by (simp add: hex_text_def)
qed

lemma byte_digits_bound: "d \<in> set (byte_digits b) \<Longrightarrow> d < 16"
  using unsigned_less [of b, where 'a = nat] by (auto simp: byte_digits_def)

lemma parse_hex_hex_text: "parse_hex printable (hex_text bs) = Ok bs"
proof -
  let ?ds = "concat (map byte_digits bs)"
  have hex: "hex_text bs = map digit_char ?ds" by (simp add: hex_text_eq map_concat comp_def)
  have bound: "\<forall>d \<in> set ?ds. d < 16" using byte_digits_bound by fastforce
  have "\<forall>c \<in> set (map digit_char ?ds). (of_char c :: nat) < 128"
    using bound of_char_hex_digit by fastforce
  then have chars: "chars (hex_text bs) = map of_char (map digit_char ?ds)"
    unfolding hex by (rule chars_ascii)
  have "hex_digits (map of_char (map digit_char ds)) = map Some ds" if "\<forall>d \<in> set ds. d < 16" for ds
    using that by (induction ds) (auto simp: digit_char_separator to_digit_16_digit_char)
  with bound show ?thesis unfolding parse_hex_Ok chars by blast
qed

lemma print_protocol_info_Ok: "snd print_protocol_info = Ok ()"
  by (simp add: print_protocol_info_def snd_attempt build_capabilities_request_def build_zeroed_request_eq
      build_bulk_heartbeat_request_eq const_simps)

section \<open>Properties\<close>

text \<open>C20: the decoder handles every byte string without a panic, and accepts exactly the packets that
  begin with a header of the protocol and whose signature does not promise more than they hold: with
  the frame signature the packet is a complete frame for one of the two packet sizes, a packet of
  acknowledgement size with the acknowledgement signature declares that size, and every other packet
  is reported as it is.\<close>

theorem decode_accepts:
  "snd (decode p) \<noteq> Panic
   \<and> (snd (decode p) = Ok () \<longleftrightarrow>
       (\<exists>h. header_layout h p
         \<and> (if word16 h = FRAME_SIGNATURE then \<exists>mps e. envelope_layout mps e p
            else if length p = 1024 \<and> word16 h = FRAME_ACK_SIGNATURE then word12 h = 1024
            else True)))"
  by (rule decode_result)

text \<open>C21: the packet size that the decoder guesses from the payload length loses no frame: a packet
  that \<open>parse_frame_envelope\<close> accepts for either endpoint packet size is decoded, with the fields of
  that result.\<close>

theorem decode_frame_any_speed:
  assumes "parse_frame_envelope p mps = Ok e"
  shows "decode p =
    ([''sequence='' @ show_u8 (env_sequence e) @ '' byte23='' @ show_hex_alt 4 (unat (unclassified_byte23 e))
      @ '' jpeg='' @ show_nat (length (env_jpeg e)) @ '' decoder=20480 padding=''
      @ show_nat (length (env_padding e))], Ok ())"
proof -
  have lay: "envelope_layout mps e p" using assms by (simp only: parse_frame_envelope_layout)
  then obtain h where h: "parse_header p = Ok h" "word16 h = FRAME_SIGNATURE"
    using envelope_header_signature by blast
  have meta: "length (decoder_metadata e) = 20480" using lay by (simp add: envelope_layout_def)
  have digits: "show_nat 20480 = ''20480''" by (simp add: show_eval)
  show ?thesis
    using parse_frame_envelope_guess [OF assms]
    by (simp add: decode_def h decode_frame_eq println_def meta digits)
qed

theorem decode_frame_any_speed_witness:
  "\<exists>p. synthetic_frame 512 = (Ok p :: (bytes, string) outcome) \<and>
     decode p = ([''sequence=137 byte23=0x00 jpeg=32 decoder=20480 padding=480''], Ok ())"
proof -
  have k: "pad_length 512 (length synthetic_jpeg + 0x5000) = 480"
    by (simp add: pad_length_def length_synthetic_jpeg)
  define p where "p = envelope_header 0x89 0 21040 (replicate 24 0) @ synthetic_jpeg
    @ replicate 0x5000 0xa5 @ replicate 480 0"
  have len: "length p = 21040" by (simp add: p_def envelope_header_def length_synthetic_jpeg)
  have "parse_frame_envelope p 512 = Ok \<lparr>env_sequence = 0x89, unclassified_byte23 = 0,
      env_jpeg = synthetic_jpeg, decoder_metadata = replicate 0x5000 0xa5, env_padding = replicate 480 0\<rparr>"
    unfolding parse_frame_envelope_layout envelope_layout_def len using k
    by (auto simp: is_jpeg_synthetic p_def intro!: exI [of _ "replicate 24 0"])
  from decode_frame_any_speed [OF this]
  have "decode p = ([''sequence='' @ show_nat 137 @ '' byte23='' @ show_hex_alt 4 0 @ '' jpeg='' @ show_nat 32
       @ '' decoder=20480 padding='' @ show_nat 480], Ok ())"
    by (simp add: show_u8_def length_synthetic_jpeg)
  then have "decode p = ([''sequence=137 byte23=0x00 jpeg=32 decoder=20480 padding=480''], Ok ())"
    by (simp add: show_eval)
  moreover have "synthetic_frame 512 = (Ok p :: (bytes, string) outcome)"
    by (simp add: synthetic_frame_eq frame_with_parts_eq length_synthetic_jpeg p_def pad_length_def)
  ultimately show ?thesis by blast
qed

text \<open>What the program prints it reads back. The protocol summary prints the capability and the
  heartbeat request in hexadecimal; parsing either text and decoding the packet reports a canonical
  request with the opcode and the length of that request.\<close>

lemma protocol_info_decodes:
  "\<exists>first caps beat p q.
     print_protocol_info = ([first, ''capabilities='' @ caps, ''bulk-heartbeat='' @ beat, ''transmission=disabled''], Ok ())
     \<and> parse_hex printable caps = Ok p \<and> parse_hex printable beat = Ok q
     \<and> decode p = ([''bytes=48 word12=0x00000030 word16=0x00000006 byte20=0x65'',
                    ''request class=0x6 opcode=0x65 length=48''], Ok ())
     \<and> decode q = ([''bytes=44 word12=0x0000002c word16=0x00000006 byte20=0xec'',
                    ''request class=0x6 opcode=0xec length=44''], Ok ())"
proof -
  obtain p where p: "build_capabilities_request = (Ok p :: (bytes, string) outcome)"
    and lay_p: "request_layout \<lparr>request_length = 48, request_opcode = 0x65\<rparr> p"
    by (auto simp: build_capabilities_request_def build_zeroed_request_eq const_simps request_layout_def)
  have zero: "show_u32 0 = ''0''" by (simp add: show_u32_def show_eval)
  have zero: "show_u32 0 = ''0''" by (simp add: show_u32_def show_eval)
  obtain q where q: "build_bulk_heartbeat_request 0 = Ok q"
    and lay_q: "request_layout \<lparr>request_length = 44, request_opcode = 0xec\<rparr> q"
    by (auto simp: build_bulk_heartbeat_request_eq heartbeat_bytes_def request_layout_def const_simps
        zero)
  have "length p = 48" "length q = 44" using lay_p lay_q by (simp_all add: request_layout_def)
  with decode_request [OF lay_p] decode_request [OF lay_q]
  have "decode p = ([''bytes=48 word12=0x00000030 word16=0x00000006 byte20=0x65'',
                    ''request class=0x6 opcode=0x65 length=48''], Ok ())"
    and "decode q = ([''bytes=44 word12=0x0000002c word16=0x00000006 byte20=0xec'',
                    ''request class=0x6 opcode=0xec length=44''], Ok ())"
    by (simp_all add: show_eval)
  moreover obtain first where "print_protocol_info =
      ([first, ''capabilities='' @ hex_text p, ''bulk-heartbeat='' @ hex_text q, ''transmission=disabled''], Ok ())"
    by (simp add: print_protocol_info_def p q println_def print_lines_def)
  ultimately show ?thesis using parse_hex_hex_text by blast
qed

end
