(* ===== verification/Usb_Devices.thy ===== *)
theory Usb_Devices
  imports Wire
begin

text \<open>
  The passive libusb layer of \<open>rust/src/usb.rs\<close>: device keys and their order, the ordered map that
  \<open>target_devices\<close> builds, the context and its release. libusb is a parameter, a record of its
  functions over a library state; pointers are numbers, a null pointer is \<open>None\<close>, and the strings
  are the bytes before the terminating NUL.
\<close>

section \<open>Keys and devices\<close>

datatype DeviceKey = DeviceKey (bus: u8) (address: u8)

text \<open>The derived \<open>Ord\<close>: by bus, then by address.\<close>

instantiation DeviceKey :: linorder
begin

definition less_eq_DeviceKey :: "DeviceKey \<Rightarrow> DeviceKey \<Rightarrow> bool" where
  "less_eq_DeviceKey a b \<longleftrightarrow> bus a < bus b \<or> bus a = bus b \<and> address a \<le> address b"

definition less_DeviceKey :: "DeviceKey \<Rightarrow> DeviceKey \<Rightarrow> bool" where
  "less_DeviceKey a b \<longleftrightarrow> bus a < bus b \<or> bus a = bus b \<and> address a < address b"

instance
  by standard (auto simp: less_eq_DeviceKey_def less_DeviceKey_def intro: DeviceKey.expand)

end

datatype Speed = Unknown | Low | Full | High | Super | SuperPlus | Other int

definition Speed_from :: "int \<Rightarrow> Speed" where
  "Speed_from value =
     (if value = 0 then Unknown else if value = 1 then Low else if value = 2 then Full
      else if value = 3 then High else if value = 4 then Super else if value = 5 then SuperPlus
      else Other value)"

record DeviceInfo =
  info_key :: DeviceKey
  port :: u8
  usb_version :: u16
  device_version :: u16
  speed :: Speed

record LibusbDeviceDescriptor =
  b_length :: u8
  b_descriptor_type :: u8
  bcd_usb :: u16
  b_device_class :: u8
  b_device_sub_class :: u8
  b_device_protocol :: u8
  b_max_packet_size0 :: u8
  id_vendor :: u16
  id_product :: u16
  bcd_device :: u16
  i_manufacturer :: u8
  i_product :: u8
  i_serial_number :: u8
  b_num_configurations :: u8

definition format_bcd :: "u16 \<Rightarrow> string" where
  "format_bcd value = show_hex (unat (drop_bit 8 value)) @ ''.'' @ show_hex_pad 2 (unat (value AND 0xff))"

section \<open>Ordered maps\<close>

text \<open>\<open>BTreeMap\<close> as the list of its entries in ascending key order.\<close>

type_synonym ('k, 'v) btree = "('k \<times> 'v) list"

fun btree_insert :: "'k::linorder \<Rightarrow> 'v \<Rightarrow> ('k, 'v) btree \<Rightarrow> ('k, 'v) btree" where
  "btree_insert k v [] = [(k, v)]"
| "btree_insert k v ((k', v') # m) =
     (if k < k' then (k, v) # (k', v') # m
      else if k = k' then (k, v) # m
      else (k', v') # btree_insert k v m)"

definition contains_key :: "('k, 'v) btree \<Rightarrow> 'k \<Rightarrow> bool" where
  "contains_key m k \<longleftrightarrow> k \<in> set (map fst m)"

section \<open>libusb\<close>

record 'w libusb =
  libusb_init :: "'w \<Rightarrow> (int \<times> nat option) \<times> 'w"
  libusb_exit :: "nat \<Rightarrow> 'w \<Rightarrow> 'w"
  libusb_get_device_list :: "nat \<Rightarrow> 'w \<Rightarrow> (int \<times> (nat \<times> nat option list) option) \<times> 'w"
  libusb_free_device_list :: "nat \<Rightarrow> int \<Rightarrow> 'w \<Rightarrow> 'w"
  libusb_get_device_descriptor :: "nat \<Rightarrow> 'w \<Rightarrow> (int \<times> LibusbDeviceDescriptor) \<times> 'w"
  libusb_get_bus_number :: "nat \<Rightarrow> 'w \<Rightarrow> u8 \<times> 'w"
  libusb_get_device_address :: "nat \<Rightarrow> 'w \<Rightarrow> u8 \<times> 'w"
  libusb_get_port_number :: "nat \<Rightarrow> 'w \<Rightarrow> u8 \<times> 'w"
  libusb_get_device_speed :: "nat \<Rightarrow> 'w \<Rightarrow> int \<times> 'w"
  libusb_error_name :: "int \<Rightarrow> 'w \<Rightarrow> bytes option \<times> 'w"

definition show_int :: "int \<Rightarrow> string" where
  "show_int i = (if i < 0 then ''-'' @ show_nat (nat (- i)) else show_nat (nat i))"

definition error_name :: "'w libusb \<Rightarrow> int \<Rightarrow> 'w \<Rightarrow> string \<times> 'w" where
  "error_name lib code w =
     (case libusb_error_name lib code w of
        (None, w) \<Rightarrow> (''libusb error '' @ show_int code, w)
      | (Some text, w) \<Rightarrow> (from_utf8_lossy text, w))"

definition UsbContext_new :: "'w libusb \<Rightarrow> 'w \<Rightarrow> (nat, string) outcome \<times> 'w" where
  "UsbContext_new lib w =
     (case libusb_init lib w of ((result, raw), w) \<Rightarrow>
      if result \<noteq> 0 then (case error_name lib result w of (e, w) \<Rightarrow> (Err e, w))
      else case raw of
          None \<Rightarrow> (Err ''libusb_init returned a null context'', w)
        | Some raw \<Rightarrow> (Ok raw, w))"

definition UsbContext_drop :: "'w libusb \<Rightarrow> nat \<Rightarrow> 'w \<Rightarrow> 'w" where
  "UsbContext_drop lib raw w = libusb_exit lib raw w"

definition DeviceList_drop :: "'w libusb \<Rightarrow> nat \<Rightarrow> 'w \<Rightarrow> 'w" where
  "DeviceList_drop lib raw w = libusb_free_device_list lib raw 1 w"

text \<open>One turn of the loop over the list: a null entry, a failing descriptor and another vendor or
  product are skipped.\<close>

definition probe_device ::
  "'w libusb \<Rightarrow> nat option \<Rightarrow> (DeviceKey, DeviceInfo) btree \<times> 'w \<Rightarrow> (DeviceKey, DeviceInfo) btree \<times> 'w" where
  "probe_device lib entry = (\<lambda>(devices, w).
     case entry of
       None \<Rightarrow> (devices, w)
     | Some device \<Rightarrow>
         (case libusb_get_device_descriptor lib device w of ((result, descriptor), w) \<Rightarrow>
          if result \<noteq> 0 \<or> id_vendor descriptor \<noteq> VENDOR_ID \<or> id_product descriptor \<noteq> SM768_PRODUCT_ID
          then (devices, w)
          else
            (case libusb_get_bus_number lib device w of (bus_number, w) \<Rightarrow>
             case libusb_get_device_address lib device w of (device_address, w) \<Rightarrow>
             case libusb_get_port_number lib device w of (port_number, w) \<Rightarrow>
             case libusb_get_device_speed lib device w of (device_speed, w) \<Rightarrow>
             let key = DeviceKey bus_number device_address;
                 info = \<lparr>info_key = key, port = port_number, usb_version = bcd_usb descriptor,
                         device_version = bcd_device descriptor, speed = Speed_from device_speed\<rparr>
             in (btree_insert key info devices, w))))"

text \<open>\<open>for index in 0..count\<close>, reading the list by index; reading past its end is \<open>Panic\<close>.\<close>

fun probe_list ::
  "'w libusb \<Rightarrow> nat option list \<Rightarrow> nat list \<Rightarrow> (DeviceKey, DeviceInfo) btree \<times> 'w \<Rightarrow>
     ((DeviceKey, DeviceInfo) btree, string) outcome \<times> 'w" where
  "probe_list lib entries [] (devices, w) = (Ok devices, w)"
| "probe_list lib entries (index # rest) (devices, w) =
     (if index < length entries
      then probe_list lib entries rest (probe_device lib (entries ! index) (devices, w))
      else (Panic, w))"

text \<open>\<open>count as c_int\<close> keeps the low 32 bits.\<close>

definition as_c_int :: "int \<Rightarrow> int" where
  "as_c_int n = (n + 2 ^ 31) mod 2 ^ 32 - 2 ^ 31"

definition target_devices ::
  "'w libusb \<Rightarrow> nat \<Rightarrow> 'w \<Rightarrow> ((DeviceKey, DeviceInfo) btree, string) outcome \<times> 'w" where
  "target_devices lib context w =
     (case libusb_get_device_list lib context w of ((count, raw_list), w) \<Rightarrow>
      if count < 0 then (case error_name lib (as_c_int count) w of (e, w) \<Rightarrow> (Err e, w))
      else case raw_list of
          None \<Rightarrow> (Err ''libusb returned a null device list'', w)
        | Some (raw, entries) \<Rightarrow>
            (case probe_list lib entries [0..<nat count] ([], w) of (r, w) \<Rightarrow>
               (r, DeviceList_drop lib raw w)))"

section \<open>The contract of an ordered map\<close>

text \<open>
  What the clients of \<open>BTreeMap\<close> rely on: lookup after insertion, and an iteration in ascending key
  order over exactly the entries. The iteration is then determined by the contents alone.
\<close>

locale ordered_map =
  fixes empty :: "'m"
    and insert :: "'k::linorder \<Rightarrow> 'v \<Rightarrow> 'm \<Rightarrow> 'm"
    and lookup :: "'m \<Rightarrow> 'k \<Rightarrow> 'v option"
    and entries :: "'m \<Rightarrow> ('k \<times> 'v) list"
    and invar :: "'m \<Rightarrow> bool"
  assumes invar_empty: "invar empty"
    and invar_insert: "invar m \<Longrightarrow> invar (insert k v m)"
    and lookup_empty: "lookup empty k = None"
    and lookup_insert: "invar m \<Longrightarrow> lookup (insert k v m) = (lookup m)(k \<mapsto> v)"
    and entries_sorted: "invar m \<Longrightarrow> sorted_wrt (<) (map fst (entries m))"
    and entries_lookup: "invar m \<Longrightarrow> (k, v) \<in> set (entries m) \<longleftrightarrow> lookup m k = Some v"
begin

lemma fold_insert:
  "invar m \<Longrightarrow> invar (fold (\<lambda>(k, v). insert k v) kvs m)
     \<and> lookup (fold (\<lambda>(k, v). insert k v) kvs m) = lookup m ++ map_of (rev kvs)"
  by (induction kvs arbitrary: m) (auto simp: invar_insert lookup_insert map_add_def fun_eq_iff split: option.splits)

lemma build_entries:
  assumes "distinct (map fst kvs)"
  shows "set (entries (fold (\<lambda>(k, v). insert k v) kvs empty)) = set kvs"
proof -
  let ?m = "fold (\<lambda>(k, v). insert k v) kvs empty"
  have m: "invar ?m" "lookup ?m = map_of (rev kvs)"
    using fold_insert [OF invar_empty, of kvs] by (auto simp: lookup_empty map_add_def fun_eq_iff split: option.splits)
  have "(k, v) \<in> set (entries ?m) \<longleftrightarrow> (k, v) \<in> set kvs" for k v
    using assms entries_lookup [OF m(1)] m(2) map_of_eq_Some_iff [of "rev kvs" k v]
    by (simp add: rev_map [symmetric])
  then show ?thesis by auto
qed

lemma iteration_canonical:
  assumes "invar m" and "invar m'" and "lookup m = lookup m'"
  shows "entries m = entries m'"
proof -
  have set: "set (entries m) = set (entries m')"
    using entries_lookup [OF assms(1)] entries_lookup [OF assms(2)] assms(3) by auto
  have keys: "map fst (entries m) = map fst (entries m')"
    using entries_sorted [OF assms(1)] entries_sorted [OF assms(2)] set
    by (metis list.set_map strict_sorted_equal strict_sorted_iff)
  show ?thesis
  proof (rule nth_equalityI)
    show len: "length (entries m) = length (entries m')" using keys by (metis length_map)
    fix i
    assume i: "i < length (entries m)"
    have fst: "fst (entries m ! i) = fst (entries m' ! i)" using keys i len by (metis nth_map)
    have "entries m ! i \<in> set (entries m)" using i by (rule nth_mem)
    moreover have "entries m' ! i \<in> set (entries m)" unfolding set using i len by (intro nth_mem) simp
    ultimately have "lookup m (fst (entries m ! i)) = Some (snd (entries m ! i))"
      "lookup m (fst (entries m' ! i)) = Some (snd (entries m' ! i))"
      by (simp_all add: entries_lookup [OF assms(1), symmetric])
    with fst show "entries m ! i = entries m' ! i" by (simp add: prod_eq_iff)
  qed
qed

end

definition btree_invar :: "('k::linorder, 'v) btree \<Rightarrow> bool" where
  "btree_invar m \<longleftrightarrow> sorted_wrt (<) (map fst m)"

lemma set_btree_insert: "fst ` set (btree_insert k v m) = insert k (fst ` set m)"
  by (induction k v m rule: btree_insert.induct) auto

lemma btree_invar_insert: "btree_invar m \<Longrightarrow> btree_invar (btree_insert k v m)"
  unfolding btree_invar_def
proof (induction k v m rule: btree_insert.induct)
  case (2 k v k' v' m)
  then show ?case by (auto simp: set_btree_insert)
qed simp

lemma map_of_btree_insert: "map_of (btree_insert k v m) = (map_of m)(k \<mapsto> v)"
  by (induction k v m rule: btree_insert.induct) auto

interpretation device_map: ordered_map "[]" btree_insert map_of "\<lambda>m. m"
  "btree_invar :: ('k::linorder, 'v) btree \<Rightarrow> bool"
proof
  fix m :: "('k, 'v) btree" and k :: 'k and v :: 'v
  assume m: "btree_invar m"
  show "btree_invar (btree_insert k v m)" using m by (rule btree_invar_insert)
  show "map_of (btree_insert k v m) = (map_of m)(k \<mapsto> v)" by (rule map_of_btree_insert)
  from m have "distinct (map fst m)" by (simp add: btree_invar_def strict_sorted_iff)
  then show "((k, v) \<in> set m) = (map_of m k = Some v)" by simp
  show "sorted_wrt (<) (map fst m)" using m by (simp add: btree_invar_def)
qed (simp_all add: btree_invar_def)

section \<open>Lemmas: enumeration\<close>

text \<open>
  The documented behaviour of the accessors: reading a descriptor, an address or a speed of a device
  in the list gives the value of that device and changes nothing. A device is a target when its
  descriptor can be read and names the adapter.
\<close>

record device_view =
  view_result :: int
  view_descriptor :: LibusbDeviceDescriptor
  view_bus :: u8
  view_address :: u8
  view_port :: u8
  view_speed :: int

definition reads_devices :: "'w libusb \<Rightarrow> (nat \<Rightarrow> device_view) \<Rightarrow> bool" where
  "reads_devices lib view \<longleftrightarrow>
     (\<forall>d w. libusb_get_device_descriptor lib d w = ((view_result (view d), view_descriptor (view d)), w)
        \<and> libusb_get_bus_number lib d w = (view_bus (view d), w)
        \<and> libusb_get_device_address lib d w = (view_address (view d), w)
        \<and> libusb_get_port_number lib d w = (view_port (view d), w)
        \<and> libusb_get_device_speed lib d w = (view_speed (view d), w))"

definition is_target :: "device_view \<Rightarrow> bool" where
  "is_target v \<longleftrightarrow> view_result v = 0 \<and> id_vendor (view_descriptor v) = 0x090c
     \<and> id_product (view_descriptor v) = 0x0768"

definition key_of :: "device_view \<Rightarrow> DeviceKey" where
  "key_of v = DeviceKey (view_bus v) (view_address v)"

definition info_of :: "device_view \<Rightarrow> DeviceInfo" where
  "info_of v = \<lparr>info_key = key_of v, port = view_port v, usb_version = bcd_usb (view_descriptor v),
     device_version = bcd_device (view_descriptor v), speed = Speed_from (view_speed v)\<rparr>"

definition targets :: "(nat \<Rightarrow> device_view) \<Rightarrow> nat option list \<Rightarrow> device_view list" where
  "targets view entries = filter is_target (map view (List.map_filter id entries))"

definition probe_view :: "(nat \<Rightarrow> device_view) \<Rightarrow> nat option \<Rightarrow> (DeviceKey, DeviceInfo) btree \<Rightarrow> (DeviceKey, DeviceInfo) btree" where
  "probe_view view entry m =
     (case entry of None \<Rightarrow> m
      | Some d \<Rightarrow> if is_target (view d) then btree_insert (key_of (view d)) (info_of (view d)) m else m)"

lemma probe_device_view:
  "reads_devices lib view \<Longrightarrow> probe_device lib entry (m, w) = (probe_view view entry m, w)"
  by (auto simp: reads_devices_def probe_device_def probe_view_def is_target_def key_of_def info_of_def
      const_simps Let_def split: option.split)

lemma probe_list_view:
  assumes "reads_devices lib view" and "\<forall>i \<in> set is. i < length entries"
  shows "probe_list lib entries is (m, w) = (Ok (fold (probe_view view) (map ((!) entries) is) m), w)"
  using assms(2)
  by (induction "is" arbitrary: m) (simp_all add: probe_device_view [OF assms(1)])

lemma fold_probe_view:
  "fold (probe_view view) entries m =
     fold (\<lambda>(k, v). btree_insert k v) (map (\<lambda>v. (key_of v, info_of v)) (targets view entries)) m"
  by (induction entries arbitrary: m)
    (auto simp: targets_def probe_view_def List.map_filter_def split: option.split)

lemma probe_list_Ok:
  "\<forall>i \<in> set is. i < length entries \<Longrightarrow> is_ok (fst (probe_list lib entries is mw))"
proof (induction "is" arbitrary: mw)
  case Nil
  then show ?case by (cases mw) simp
next
  case (Cons i "is")
  then show ?case by (cases mw) simp
qed

lemma digit_char_inject: "c < 16 \<Longrightarrow> d < 16 \<Longrightarrow> digit_char c = digit_char d \<longleftrightarrow> c = d"
proof
  assume small: "c < 16" "d < 16" and eq: "digit_char c = digit_char d"
  from small have "(of_char (digit_char c) :: nat) = (if c < 10 then 48 + c else 87 + c)"
    "(of_char (digit_char d) :: nat) = (if d < 10 then 48 + d else 87 + d)"
    by (auto simp: digit_char_def)
  with eq have "(if c < 10 then 48 + c else 87 + c) = (if d < 10 then 48 + d else 87 + d)" by (simp only:)
  then show "c = d" using small by (simp split: if_splits)
qed simp

lemma show_hex_inject: "show_hex m = show_hex n \<longleftrightarrow> m = n"
proof (induction m arbitrary: n rule: less_induct)
  case (less m)
  consider "m < 16" "n < 16" | "m < 16" "16 \<le> n" | "16 \<le> m" "n < 16" | "16 \<le> m" "16 \<le> n" by linarith
  then show ?case
  proof cases
    case 4
    have "m div 16 = n div 16 \<and> m mod 16 = n mod 16 \<longleftrightarrow> m = n" by (metis div_mult_mod_eq)
    with 4 less [of "m div 16" "n div 16"] show ?thesis
      by (simp add: show_radix_big digit_char_inject)
  qed (auto simp: show_radix_small show_radix_big digit_char_inject show_radix_nonempty [symmetric])
qed

lemma word16_bytes: "v = push_bit 8 (drop_bit 8 v) + (v AND 0xff)" for v :: u16
  using bits_ident [of 8 v] by (simp add: take_bit_eq_mask mask_eq_exp_minus_1)

section \<open>A library for the witnesses\<close>

text \<open>Three entries: an adapter, a null entry and a device of another vendor. The library state
  counts the lists that are not freed yet.\<close>

definition stub_view :: "nat \<Rightarrow> device_view" where
  "stub_view d = \<lparr>view_result = 0,
     view_descriptor = \<lparr>b_length = 18, b_descriptor_type = 1, bcd_usb = 0x0320, b_device_class = 0,
       b_device_sub_class = 0, b_device_protocol = 0, b_max_packet_size0 = 9,
       id_vendor = (if d = 10 then 0x090c else 0x1d6b), id_product = 0x0768, bcd_device = 1,
       i_manufacturer = 0, i_product = 0, i_serial_number = 0, b_num_configurations = 1\<rparr>,
     view_bus = 4, view_address = of_nat d, view_port = 2, view_speed = 4\<rparr>"

definition stub_libusb :: "int libusb" where
  "stub_libusb =
     \<lparr>libusb_init = (\<lambda>w. ((0, Some 7), w)), libusb_exit = (\<lambda>h w. w),
      libusb_get_device_list = (\<lambda>h w. ((3, Some (5, [Some 10, None, Some 11])), w + 1)),
      libusb_free_device_list = (\<lambda>l u w. w - 1),
      libusb_get_device_descriptor = (\<lambda>d w. ((0, view_descriptor (stub_view d)), w)),
      libusb_get_bus_number = (\<lambda>d w. (4, w)), libusb_get_device_address = (\<lambda>d w. (of_nat d, w)),
      libusb_get_port_number = (\<lambda>d w. (2, w)), libusb_get_device_speed = (\<lambda>d w. (4, w)),
      libusb_error_name = (\<lambda>e w. (None, w))\<rparr>"

lemma stub_reads: "reads_devices stub_libusb stub_view"
  by (simp add: reads_devices_def stub_libusb_def stub_view_def)

lemma stub_targets: "targets stub_view [Some 10, None, Some 11] = [stub_view 10]"
  by (simp add: targets_def List.map_filter_def is_target_def stub_view_def)

section \<open>Properties\<close>

text \<open>C31: \<open>target_devices\<close> reports exactly the attached adapters. With a device list of the reported
  length, accessors that only read, and no two adapters at one bus address, the result holds one
  entry for each adapter of the list, with its own data, in ascending order of bus and address;
  null entries, unreadable descriptors and other devices do not appear; and the list is given
  back to the library as the last action.\<close>

theorem target_devices_exact:
  assumes "reads_devices lib view"
    and "libusb_get_device_list lib ctx w = ((int (length entries), Some (raw, entries)), w1)"
    and "distinct (map key_of (targets view entries))"
  shows "\<exists>m. target_devices lib ctx w = (Ok m, libusb_free_device_list lib raw 1 w1)
    \<and> sorted_wrt (<) (map fst m)
    \<and> set m = (\<lambda>v. (key_of v, info_of v)) ` set (targets view entries)"
proof -
  let ?kvs = "map (\<lambda>v. (key_of v, info_of v)) (targets view entries)"
  let ?m = "fold (\<lambda>(k, v). btree_insert k v) ?kvs []"
  have "probe_list lib entries [0..<length entries] ([], w1) = (Ok ?m, w1)"
    by (simp add: probe_list_view [OF assms(1)] map_nth fold_probe_view)
  then have "target_devices lib ctx w = (Ok ?m, libusb_free_device_list lib raw 1 w1)"
    by (simp add: target_devices_def assms(2) DeviceList_drop_def)
  moreover have "sorted_wrt (<) (map fst ?m)"
    using device_map.fold_insert [OF device_map.invar_empty, of ?kvs] device_map.entries_sorted by blast
  moreover have "set ?m = set ?kvs"
    using assms(3) by (intro device_map.build_entries) (simp add: comp_def)
  ultimately show ?thesis by auto
qed

theorem target_devices_exact_witness:
  "\<exists>m. target_devices stub_libusb 7 0 = (Ok m, 0) \<and> set (map fst m) = {DeviceKey 4 10}"
proof -
  have "libusb_get_device_list stub_libusb 7 0 =
      ((int (length [Some 10, None, Some (11 :: nat)]), Some (5, [Some 10, None, Some 11])), 1)"
    by (simp add: stub_libusb_def)
  from target_devices_exact [OF stub_reads this] obtain m where
    m: "target_devices stub_libusb 7 0 = (Ok m, libusb_free_device_list stub_libusb 5 1 1)"
    "sorted_wrt (<) (map fst m)" "set m = {(key_of (stub_view 10), info_of (stub_view 10))}"
    by (auto simp: stub_targets)
  then have "set (map fst m) = {DeviceKey 4 10}" by (simp add: key_of_def stub_view_def)
  with m(1) show ?thesis by (simp add: stub_libusb_def)
qed

text \<open>Enumeration cannot fail in the middle: as long as libusb's list has the entries its count
  announces, \<open>target_devices\<close> ends with a map exactly when the count is not negative and the list
  pointer not null, and with an error otherwise; it never reads past the list.\<close>

lemma target_devices_total:
  assumes "libusb_get_device_list lib ctx w = ((count, raw_list), w1)"
    and "\<And>raw entries. raw_list = Some (raw, entries) \<Longrightarrow> count \<le> int (length entries)"
  shows "fst (target_devices lib ctx w) \<noteq> Panic
    \<and> (is_ok (fst (target_devices lib ctx w)) \<longleftrightarrow> 0 \<le> count \<and> raw_list \<noteq> None)"
proof (cases "0 \<le> count \<and> raw_list \<noteq> None")
  case True
  then obtain raw entries where raw: "raw_list = Some (raw, entries)" by auto
  have "is_ok (fst (probe_list lib entries [0..<nat count] ([], w1)))"
    using assms(2) [OF raw] True by (intro probe_list_Ok) auto
  with True raw have "is_ok (fst (target_devices lib ctx w))"
    by (simp add: target_devices_def assms(1) case_prod_unfold)
  then show ?thesis using True by (auto simp: is_ok_iff)
next
  case False
  then show ?thesis
    by (cases raw_list) (auto simp: target_devices_def assms(1) split: prod.split)
qed

text \<open>The printed form of a BCD version determines the version: two different \<open>u16\<close> values never
  print alike.\<close>

lemma format_bcd_inject: "format_bcd v = format_bcd u \<longleftrightarrow> v = u"
proof
  assume eq: "format_bcd v = format_bcd u"
  have byte: "unat (x AND 0xff) < 256" for x :: u16
  proof -
    have "unat (x AND 0xff) \<le> unat (0xff :: u16)" by (intro word_le_nat_alt [THEN iffD1] word_and_le1)
    then show ?thesis by simp
  qed
  have "show_hex (unat (drop_bit 8 v)) = show_hex (unat (drop_bit 8 u))"
    and pad: "show_hex_pad 2 (unat (v AND 0xff)) = show_hex_pad 2 (unat (u AND 0xff))"
    using eq byte [of u] byte [of v] by (simp_all add: format_bcd_def show_hex_pad_2)
  then have hi: "drop_bit 8 v = drop_bit 8 u" by (simp add: show_hex_inject word_unat_eq_iff)
  have "unat (v AND 0xff) div 16 = unat (u AND 0xff) div 16" "unat (v AND 0xff) mod 16 = unat (u AND 0xff) mod 16"
    using pad byte [of u] byte [of v] by (simp_all add: show_hex_pad_2 digit_char_inject)
  then have "unat (v AND 0xff) = unat (u AND 0xff)" by (metis div_mult_mod_eq)
  then have "v AND 0xff = u AND 0xff" by (simp add: word_unat_eq_iff)
  with hi show "v = u" using word16_bytes [of v] word16_bytes [of u] by metis
qed simp

end
