(* ===== verification/Observer.thy ===== *)
theory Observer
  imports Usb_Devices
begin

text \<open>
  The passive observer of \<open>rust/src/main.rs\<close>: the polling loop of \<open>observe\<close>, which reports arrivals
  and departures of adapters, with the signal handlers and the deadline. The clock, the stop flag that
  the signal handlers set, sleeping and the installation of handlers are parameters, a record of
  functions over the state of the outside world. The loop may run forever, so it is a partial function
  whose value is \<open>None\<close> when it does not return.
\<close>

section \<open>Model\<close>

record 'w host =
  install_handler :: "int \<Rightarrow> 'w \<Rightarrow> 'w"
  stop_requested :: "'w \<Rightarrow> bool \<times> 'w"
  instant_now :: "'w \<Rightarrow> nat \<times> 'w"
  thread_sleep :: "nat \<Rightarrow> 'w \<Rightarrow> 'w"

text \<open>An \<open>Instant\<close> is a number of nanoseconds; its seconds are an \<open>i64\<close>, which is what
  \<open>checked_add\<close> checks.\<close>

definition instant_checked_add :: "nat \<Rightarrow> u64 \<Rightarrow> nat option" where
  "instant_checked_add now seconds =
     (if now div 1000000000 + unat seconds < 2 ^ 63 then Some (now + unat seconds * 1000000000) else None)"

definition install_signal_handlers :: "'w host \<Rightarrow> 'w \<Rightarrow> 'w" where
  "install_signal_handlers host w = install_handler host 15 (install_handler host 2 w)"

datatype ObserverEvent = Arrived u64 DeviceKey DeviceInfo | Departed DeviceKey

fun debug_Speed :: "Speed \<Rightarrow> string" where
  "debug_Speed Unknown = ''Unknown''"
| "debug_Speed Low = ''Low''"
| "debug_Speed Full = ''Full''"
| "debug_Speed High = ''High''"
| "debug_Speed Super = ''Super''"
| "debug_Speed SuperPlus = ''SuperPlus''"
| "debug_Speed (Other value) = ''Other('' @ show_int value @ '')''"

fun event_line :: "ObserverEvent \<Rightarrow> string" where
  "event_line (Arrived generation key info) =
     ''smiusbd-rs: generation='' @ show_u64 generation @ '' arrived bus='' @ show_u8 (bus key)
     @ '' address='' @ show_u8 (address key) @ '' port='' @ show_u8 (port info)
     @ '' usb='' @ format_bcd (usb_version info) @ '' device='' @ format_bcd (device_version info)
     @ '' speed='' @ debug_Speed (speed info) @ '' (passive; no open, claim, or transfer)''"
| "event_line (Departed key) =
     ''smiusbd-rs: departed bus='' @ show_u8 (bus key) @ '' address='' @ show_u8 (address key)
     @ '' (passive observer)''"

text \<open>The loop over \<open>current\<close>: the events reported, and the new generation unless its increment
  overflows.\<close>

fun arrivals ::
  "(DeviceKey, DeviceInfo) btree \<Rightarrow> (DeviceKey, DeviceInfo) btree \<Rightarrow> u64 \<Rightarrow>
     ObserverEvent list \<times> (u64, string) outcome" where
  "arrivals previous [] generation = ([], Ok generation)"
| "arrivals previous ((key, info) # rest) generation =
     (if contains_key previous key then arrivals previous rest generation
      else case add_u64 generation 1 of
          Ok next \<Rightarrow> (case arrivals previous rest next of (events, r) \<Rightarrow> (Arrived next key info # events, r))
        | Err e \<Rightarrow> ([], Err e)
        | Panic \<Rightarrow> ([], Panic))"

definition departures ::
  "(DeviceKey, DeviceInfo) btree \<Rightarrow> (DeviceKey, DeviceInfo) btree \<Rightarrow> ObserverEvent list" where
  "departures previous current = map Departed (filter (\<lambda>key. \<not> contains_key current key) (map fst previous))"

text \<open>One turn of the polling loop: it leaves the loop with a result, or goes on with the new
  \<open>previous\<close> and \<open>generation\<close>.\<close>

datatype 'w turn_result =
    Leave "ObserverEvent list" "(unit, string) outcome" 'w
  | Next "ObserverEvent list" "(DeviceKey, DeviceInfo) btree" u64 'w

definition before_deadline :: "'w host \<Rightarrow> nat option \<Rightarrow> 'w \<Rightarrow> bool \<times> 'w" where
  "before_deadline host deadline w =
     (case deadline of
        None \<Rightarrow> (True, w)
      | Some limit \<Rightarrow> (case instant_now host w of (now, w) \<Rightarrow> (now < limit, w)))"

definition poll ::
  "'w libusb \<Rightarrow> 'w host \<Rightarrow> nat \<Rightarrow> (DeviceKey, DeviceInfo) btree \<Rightarrow> u64 \<Rightarrow> 'w \<Rightarrow> 'w turn_result" where
  "poll lib host context previous generation w =
     (case target_devices lib context w of
        (Err e, w) \<Rightarrow> Leave [] (Err e) w
      | (Panic, w) \<Rightarrow> Leave [] Panic w
      | (Ok current, w) \<Rightarrow>
          (case arrivals previous current generation of
             (events, Ok generation) \<Rightarrow>
               Next (events @ departures previous current) current generation (thread_sleep host 250 w)
           | (events, Err e) \<Rightarrow> Leave events (Err e) w
           | (events, Panic) \<Rightarrow> Leave events Panic w))"

definition turn ::
  "'w libusb \<Rightarrow> 'w host \<Rightarrow> nat \<Rightarrow> nat option \<Rightarrow> (DeviceKey, DeviceInfo) btree \<Rightarrow> u64 \<Rightarrow> 'w \<Rightarrow> 'w turn_result" where
  "turn lib host context deadline previous generation w =
     (case stop_requested host w of (stop, w) \<Rightarrow>
      if stop then Leave [] (Ok ()) w
      else case before_deadline host deadline w of (go, w) \<Rightarrow>
        if \<not> go then Leave [] (Ok ()) w else poll lib host context previous generation w)"

partial_function (option) observe_loop ::
  "'w libusb \<Rightarrow> 'w host \<Rightarrow> nat \<Rightarrow> nat option \<Rightarrow> (DeviceKey, DeviceInfo) btree \<Rightarrow> u64 \<Rightarrow> 'w \<Rightarrow>
     (ObserverEvent list \<times> (unit, string) outcome \<times> 'w) option" where
  "observe_loop lib host context deadline previous generation w =
     (case turn lib host context deadline previous generation w of
        Leave events r w \<Rightarrow> Some (events, r, w)
      | Next events current generation w \<Rightarrow>
          Option.bind (observe_loop lib host context deadline current generation w) (\<lambda>(later, r, w).
            Some (events @ later, r, w)))"

text \<open>The context is released when the function returns, on every path after its creation.\<close>

definition observe ::
  "'w libusb \<Rightarrow> 'w host \<Rightarrow> u64 option \<Rightarrow> 'w \<Rightarrow> (ObserverEvent list \<times> (unit, string) outcome \<times> 'w) option" where
  "observe lib host duration w =
     (case UsbContext_new lib w of
        (Err e, w) \<Rightarrow> Some ([], Err e, w)
      | (Panic, w) \<Rightarrow> Some ([], Panic, w)
      | (Ok context, w) \<Rightarrow>
          (let w = install_signal_handlers host w in
           Option.bind
             (case duration of
                None \<Rightarrow> observe_loop lib host context None [] 0 w
              | Some seconds \<Rightarrow>
                  (case instant_now host w of (now, w) \<Rightarrow>
                   case instant_checked_add now seconds of
                     None \<Rightarrow> Some ([], Err ''duration is too large for this platform'', w)
                   | Some limit \<Rightarrow> observe_loop lib host context (Some limit) [] 0 w))
             (\<lambda>(events, r, w). Some (events, r, UsbContext_drop lib context w))))"

section \<open>Lemmas: one poll\<close>

text \<open>Replaying a log on a set of attached devices and a generation count: an arrival must be of a
  device that is absent and carry the next generation, a departure of one that is present.\<close>

fun replay :: "ObserverEvent list \<Rightarrow> DeviceKey set \<times> nat \<Rightarrow> (DeviceKey set \<times> nat) option" where
  "replay [] (attached, n) = Some (attached, n)"
| "replay (Arrived generation key info # events) (attached, n) =
     (if key \<notin> attached \<and> unat generation = Suc n then replay events (insert key attached, Suc n) else None)"
| "replay (Departed key # events) (attached, n) =
     (if key \<in> attached then replay events (attached - {key}, n) else None)"

lemma replay_append: "replay (us @ vs) st = Option.bind (replay us st) (replay vs)"
  by (induction us st rule: replay.induct) auto

lemma add_u64_1:
  "add_u64 g 1 = (if Suc (unat g) < 2 ^ 64 then Ok (g + 1) else Panic)"
  "Suc (unat g) < 2 ^ 64 \<Longrightarrow> unat (g + 1) = Suc (unat g)" for g :: u64
  by (simp_all add: add_u64_def unat_word_ariths)

lemma arrivals_replay:
  assumes "distinct (map fst current)" and "\<forall>k \<in> fst ` set current. k \<in> A \<longleftrightarrow> contains_key previous k"
  shows "case arrivals previous current g of
      (events, Ok g') \<Rightarrow> replay events (A, unat g) = Some (A \<union> fst ` set current, unat g')
    | (events, Err e) \<Rightarrow> False
    | (events, Panic) \<Rightarrow> replay events (A, unat g) \<noteq> None"
  using assms
proof (induction previous current g arbitrary: A rule: arrivals.induct)
  case (2 previous key info rest g)
  show ?case
  proof (cases "contains_key previous key")
    case True
    with 2 have "insert key A = A" by auto
    with True 2 show ?thesis by (auto split: prod.splits outcome.splits)
  next
    case False
    show ?thesis
    proof (cases "Suc (unat g) < 2 ^ 64")
      case True
      have next_g: "add_u64 g 1 = (Ok (g + 1) :: (u64, string) outcome)" "unat (g + 1) = Suc (unat g)"
        using True by (simp_all add: add_u64_1)
      have "distinct (map fst rest)" and "key \<notin> A"
        and "\<forall>k \<in> fst ` set rest. k \<in> insert key A \<longleftrightarrow> contains_key previous k"
        using "2.prems" False by auto
      with "2.IH"(2) [OF False next_g(1), of "insert key A"] False next_g show ?thesis
        by (cases "arrivals previous rest (g + 1)"; cases "snd (arrivals previous rest (g + 1))") auto
    qed (use False in \<open>simp add: add_u64_1\<close>)
  qed
qed simp

lemma departures_replay:
  "distinct ks \<Longrightarrow> set ks \<subseteq> A \<Longrightarrow> replay (map Departed ks) (A, n) = Some (A - set ks, n)"
proof (induction ks arbitrary: A)
  case (Cons k ks)
  then have "set ks \<subseteq> A - {k}" by auto
  moreover have "A - {k} - set ks = A - set (k # ks)" by auto
  ultimately show ?case using Cons by simp
qed simp

lemma poll_replay:
  assumes prev: "btree_invar previous" and cur: "btree_invar current"
    and new: "arrivals previous current g = (events, Ok g')"
  shows "replay (events @ departures previous current) (fst ` set previous, unat g)
    = Some (fst ` set current, unat g')"
proof -
  let ?P = "fst ` set previous" and ?C = "fst ` set current"
  let ?ks = "filter (\<lambda>key. \<not> contains_key current key) (map fst previous)"
  have distinct: "distinct (map fst previous)" "distinct (map fst current)"
    using prev cur by (simp_all add: btree_invar_def strict_sorted_iff)
  have "replay events (?P, unat g) = Some (?P \<union> ?C, unat g')"
    using arrivals_replay [OF distinct(2), of ?P previous g] new by (simp add: contains_key_def)
  moreover have "replay (map Departed ?ks) (?P \<union> ?C, unat g') = Some (?P \<union> ?C - set ?ks, unat g')"
    using distinct(1) by (intro departures_replay) auto
  moreover have "?P \<union> ?C - set ?ks = ?C" by (auto simp: contains_key_def)
  ultimately show ?thesis by (simp add: departures_def replay_append)
qed

section \<open>Lemmas: the loop\<close>

lemma probe_device_invar: "btree_invar (fst mw) \<Longrightarrow> btree_invar (fst (probe_device lib entry mw))"
  by (cases mw) (auto simp: probe_device_def Let_def btree_invar_insert split: option.split prod.split)

lemma probe_list_invar:
  "btree_invar (fst mw) \<Longrightarrow> fst (probe_list lib entries is mw) = Ok m \<Longrightarrow> btree_invar m"
proof (induction "is" arbitrary: mw)
  case Nil
  then show ?case by (cases mw) simp
next
  case (Cons i "is")
  then show ?case
    using probe_device_invar [of mw lib "entries ! i"] by (cases mw) (auto split: if_splits)
qed

lemma target_devices_invar:
  assumes "target_devices lib ctx w = (Ok m, w')"
  shows "btree_invar m"
proof -
  have start: "fst (probe_list lib entries is ([], w)) = Ok m \<Longrightarrow> btree_invar m" for entries "is" w
    by (rule probe_list_invar [of "([], w)"]) (simp_all add: btree_invar_def)
  show ?thesis
    using assms by (auto simp: target_devices_def case_prod_unfold split: if_splits option.splits intro: start)
qed

lemma turn_replay:
  assumes "btree_invar previous"
  shows "case turn lib host ctx deadline previous g w of
      Leave events r w' \<Rightarrow> replay events (fst ` set previous, unat g) \<noteq> None
    | Next events current g' w' \<Rightarrow> btree_invar current
        \<and> replay events (fst ` set previous, unat g) = Some (fst ` set current, unat g')"
proof -
  have poll: "case poll lib host ctx previous g w of
      Leave events r w' \<Rightarrow> replay events (fst ` set previous, unat g) \<noteq> None
    | Next events current g' w' \<Rightarrow> btree_invar current
        \<and> replay events (fst ` set previous, unat g) = Some (fst ` set current, unat g')" for w
  proof (cases "target_devices lib ctx w")
    case (Pair r w1)
    show ?thesis
    proof (cases r)
      case (Ok current)
      with Pair have inv: "btree_invar current" using target_devices_invar [of lib ctx w current w1] by simp
      then have distinct: "distinct (map fst current)" by (simp add: btree_invar_def strict_sorted_iff)
      have "\<forall>k \<in> fst ` set current. k \<in> fst ` set previous \<longleftrightarrow> contains_key previous k"
        by (simp add: contains_key_def)
      note arr = arrivals_replay [OF distinct this, of g]
      show ?thesis
        using arr poll_replay [OF assms inv, of g] inv Ok Pair
        by (cases "arrivals previous current g"; cases "snd (arrivals previous current g)") (auto simp: poll_def)
    qed (use Pair in \<open>auto simp: poll_def\<close>)
  qed
  then show ?thesis by (auto simp: turn_def split: prod.split)
qed

lemma observe_loop_replay:
  assumes "observe_loop lib host ctx deadline previous g w = Some y" and "btree_invar previous"
  shows "replay (fst y) (fst ` set previous, unat g) \<noteq> None"
proof -
  have "btree_invar previous \<longrightarrow> replay (fst y) (fst ` set previous, unat g) \<noteq> None"
    using assms(1)
  proof (rule observe_loop.raw_induct [where P = "\<lambda>lib host ctx deadline previous g w y.
        btree_invar previous \<longrightarrow> replay (fst y) (fst ` set previous, unat g) \<noteq> None", rotated], goal_cases)
    case (1 loop lib host ctx deadline previous g w y)
    show ?case
    proof
      assume inv: "btree_invar previous"
      note turn = turn_replay [OF inv, where lib = lib and host = host and ctx = ctx and deadline = deadline and g = g and w = w]
      show "replay (fst y) (fst ` set previous, unat g) \<noteq> None"
      proof (cases "turn lib host ctx deadline previous g w")
        case (Leave events' r' w'')
        with 1(2) turn show ?thesis by auto
      next
        case (Next now current g' w'')
        with 1(2) obtain later where later: "loop lib host ctx deadline current g' w'' = Some later"
          and y: "fst y = now @ fst later"
          by (auto split: Option.bind_splits)
        show ?thesis using turn Next 1(1) [OF later] by (auto simp: y replay_append)
      qed
    qed
  qed
  with assms(2) show ?thesis by blast
qed

lemma arrivals_counts:
  assumes "unat g + length (filter (\<lambda>kv. \<not> contains_key previous (fst kv)) current) < 2 ^ 64"
  shows "\<exists>events g'. arrivals previous current g = (events, Ok g')
    \<and> length events = length (filter (\<lambda>kv. \<not> contains_key previous (fst kv)) current)
    \<and> (\<forall>e \<in> set events. \<exists>n k i. e = Arrived n k i \<and> (k, i) \<in> set current)"
  using assms
proof (induction previous current g rule: arrivals.induct)
  case (2 previous key info rest g)
  show ?case
  proof (cases "contains_key previous key")
    case True
    with 2 show ?thesis by fastforce
  next
    case False
    then have "Suc (unat g) < 2 ^ 64" using "2.prems" by simp
    then have next_g: "add_u64 g 1 = (Ok (g + 1) :: (u64, string) outcome)" "unat (g + 1) = Suc (unat g)"
      by (simp_all add: add_u64_1)
    with "2.IH"(2) [OF False next_g(1)] "2.prems" False show ?thesis by fastforce
  qed
qed simp

section \<open>Lemmas: the deadline\<close>

text \<open>The documented behaviour of the clock: it reads the time, never goes back in a call of the
  standard library or of libusb, and a sleep lasts at least as long as asked.\<close>

definition clock_advances :: "'w libusb \<Rightarrow> 'w host \<Rightarrow> ('w \<Rightarrow> nat) \<Rightarrow> bool" where
  "clock_advances lib host time \<longleftrightarrow>
     (\<forall>w. fst (instant_now host w) = time w \<and> time w \<le> time (snd (instant_now host w)))
     \<and> (\<forall>w. time w \<le> time (snd (stop_requested host w)))
     \<and> (\<forall>ms w. time w + ms * 1000000 \<le> time (thread_sleep host ms w))
     \<and> (\<forall>h w. time w \<le> time (snd (libusb_get_device_list lib h w)))
     \<and> (\<forall>l u w. time w \<le> time (libusb_free_device_list lib l u w))
     \<and> (\<forall>d w. time w \<le> time (snd (libusb_get_device_descriptor lib d w)))
     \<and> (\<forall>d w. time w \<le> time (snd (libusb_get_bus_number lib d w)))
     \<and> (\<forall>d w. time w \<le> time (snd (libusb_get_device_address lib d w)))
     \<and> (\<forall>d w. time w \<le> time (snd (libusb_get_port_number lib d w)))
     \<and> (\<forall>d w. time w \<le> time (snd (libusb_get_device_speed lib d w)))
     \<and> (\<forall>e w. time w \<le> time (snd (libusb_error_name lib e w)))"

lemma probe_device_time:
  assumes "clock_advances lib host time"
  shows "time (snd mw) \<le> time (snd (probe_device lib entry mw))"
proof (cases mw)
  case (Pair m w)
  have t: "time w \<le> time (snd (libusb_get_device_descriptor lib d w))"
    "time w \<le> time (snd (libusb_get_bus_number lib d w))"
    "time w \<le> time (snd (libusb_get_device_address lib d w))"
    "time w \<le> time (snd (libusb_get_port_number lib d w))"
    "time w \<le> time (snd (libusb_get_device_speed lib d w))" for d w
    using assms by (simp_all add: clock_advances_def)
  note all = order_trans [OF t(1) order_trans [OF t(2) order_trans [OF t(3) order_trans [OF t(4) t(5)]]]]
  show ?thesis
    by (auto simp: Pair probe_device_def case_prod_unfold Let_def t(1) all split: option.split)
qed

lemma probe_list_time:
  assumes "clock_advances lib host time"
  shows "time (snd mw) \<le> time (snd (probe_list lib entries is mw))"
proof (induction "is" arbitrary: mw)
  case Nil
  show ?case by (cases mw) simp
next
  case (Cons i "is")
  show ?case
    using Cons [of "probe_device lib (entries ! i) mw"] probe_device_time [OF assms, of mw "entries ! i"]
    by (cases mw) (auto intro: order_trans)
qed

lemma target_devices_time:
  assumes "clock_advances lib host time"
  shows "time w \<le> time (snd (target_devices lib ctx w))"
proof -
  have lib: "time w \<le> time (snd (libusb_get_device_list lib h w))" "time w \<le> time (snd (libusb_error_name lib e w))"
    "time w \<le> time (libusb_free_device_list lib l u w)" for h e l u w
    using assms by (simp_all add: clock_advances_def)
  have list: "time w \<le> time (snd (probe_list lib entries is (m, w)))" for entries "is" m w
    using probe_list_time [OF assms, of "(m, w)"] by simp
  have name: "time w \<le> time (snd (error_name lib e w))" for e w
    using lib(2) [of w e] by (auto simp: error_name_def split: prod.split option.split)
  show ?thesis
    by (auto simp: target_devices_def case_prod_unfold DeviceList_drop_def split: option.split
        intro: order_trans [OF lib(1)] name order_trans [OF list lib(3)] order_trans [OF order_trans [OF lib(1) list] lib(3)])
qed

lemma turn_time:
  assumes clock: "clock_advances lib host time"
    and "turn lib host ctx (Some limit) previous g w = Next events current g' w'"
  shows "time w < limit \<and> time w + 250000000 \<le> time w'"
proof -
  define w1 where "w1 = snd (stop_requested host w)"
  define w2 where "w2 = snd (instant_now host w1)"
  define w3 where "w3 = snd (target_devices lib ctx w2)"
  have "time w \<le> time w1" "fst (instant_now host w1) = time w1" "time w1 \<le> time w2"
    using clock by (simp_all add: clock_advances_def w1_def w2_def)
  moreover have "time w3 + 250 * 1000000 \<le> time (thread_sleep host 250 w3)"
    using clock unfolding clock_advances_def by blast
  moreover have "time w2 \<le> time w3" unfolding w3_def by (rule target_devices_time [OF clock])
  moreover have "fst (instant_now host w1) < limit \<and> w' = thread_sleep host 250 w3"
    using assms(2) unfolding w3_def w2_def w1_def
    by (auto simp: turn_def before_deadline_def poll_def case_prod_unfold split: if_splits prod.splits outcome.splits)
  ultimately show ?thesis by auto
qed

lemma observe_loop_returns:
  assumes clock: "clock_advances lib host time"
  shows "\<exists>y. observe_loop lib host ctx (Some limit) previous g w = Some y"
proof (induction "limit - time w" arbitrary: previous g w rule: less_induct)
  case less
  show ?case
  proof (cases "turn lib host ctx (Some limit) previous g w")
    case (Leave events r w')
    then show ?thesis by (subst observe_loop.simps) simp
  next
    case (Next events current g' w')
    from turn_time [OF clock this] have "limit - time w' < limit - time w" by linarith
    from less [OF this] obtain y where "observe_loop lib host ctx (Some limit) current g' w' = Some y" by blast
    with Next show ?thesis by (subst observe_loop.simps) (simp add: case_prod_unfold)
  qed
qed

lemma observe_with_duration:
  assumes "clock_advances lib host time"
  shows "\<exists>events r w'. observe lib host (Some seconds) w = Some (events, r, w')"
proof (cases "UsbContext_new lib w")
  case (Pair r w1)
  define w2 where "w2 = install_signal_handlers host w1"
  show ?thesis
  proof (cases r)
    case (Ok ctx)
    show ?thesis
    proof (cases "instant_checked_add (fst (instant_now host w2)) seconds")
      case (Some limit)
      obtain y where "observe_loop lib host ctx (Some limit) [] 0 (snd (instant_now host w2)) = Some y"
        using observe_loop_returns [OF assms] by blast
      with Some Ok Pair show ?thesis
        by (cases y) (simp add: observe_def Let_def case_prod_unfold w2_def)
    qed (use Ok Pair in \<open>simp add: observe_def Let_def case_prod_unfold w2_def\<close>)
  qed (use Pair in \<open>simp_all add: observe_def\<close>)
qed

section \<open>A host for the witnesses\<close>

text \<open>The world is a clock in nanoseconds; one adapter is attached and no signal arrives.\<close>

definition clock_host :: "nat host" where
  "clock_host = \<lparr>install_handler = (\<lambda>s w. w), stop_requested = (\<lambda>w. (False, w)),
     instant_now = (\<lambda>w. (w, w)), thread_sleep = (\<lambda>ms w. w + ms * 1000000)\<rparr>"

definition clock_libusb :: "nat libusb" where
  "clock_libusb =
     \<lparr>libusb_init = (\<lambda>w. ((0, Some 7), w)), libusb_exit = (\<lambda>h w. w),
      libusb_get_device_list = (\<lambda>h w. ((1, Some (5, [Some 10])), w)),
      libusb_free_device_list = (\<lambda>l u w. w),
      libusb_get_device_descriptor = (\<lambda>d w. ((0, view_descriptor (stub_view d)), w)),
      libusb_get_bus_number = (\<lambda>d w. (4, w)), libusb_get_device_address = (\<lambda>d w. (of_nat d, w)),
      libusb_get_port_number = (\<lambda>d w. (2, w)), libusb_get_device_speed = (\<lambda>d w. (4, w)),
      libusb_error_name = (\<lambda>e w. (None, w))\<rparr>"

lemma clock_host_advances: "clock_advances clock_libusb clock_host (\<lambda>w. w)"
  by (simp add: clock_advances_def clock_host_def clock_libusb_def)

definition adapter :: DeviceInfo where
  "adapter = \<lparr>info_key = DeviceKey 4 10, port = 2, usb_version = 0x0320, device_version = 1, speed = Super\<rparr>"

lemma clock_target_devices: "target_devices clock_libusb 7 w = (Ok [(DeviceKey 4 10, adapter)], w)"
  by (simp add: target_devices_def clock_libusb_def probe_device_def stub_view_def const_simps
      DeviceList_drop_def adapter_def Speed_from_def Let_def)

section \<open>Properties\<close>

text \<open>C9: one poll reports exactly what changed. When libusb answers a poll with a device map and the
  generation counter does not overflow, the loop goes on with that map and sleeps; the events
  replay from the devices of the previous poll, every arrival with the next generation number, to
  the devices of this poll; there is one event for each device that came or went, and an arrival
  carries the data of this poll.\<close>

theorem poll_reports_difference:
  assumes "btree_invar previous" and "target_devices lib ctx w = (Ok current, w1)"
    and "unat g + card (fst ` set current - fst ` set previous) < 2 ^ 64"
  shows "\<exists>events g'. poll lib host ctx previous g w = Next events current g' (thread_sleep host 250 w1)
    \<and> replay events (fst ` set previous, unat g) = Some (fst ` set current, unat g')
    \<and> length events = card (fst ` set current - fst ` set previous) + card (fst ` set previous - fst ` set current)
    \<and> (\<forall>n k i. Arrived n k i \<in> set events \<longrightarrow> (k, i) \<in> set current)"
proof -
  let ?new = "filter (\<lambda>kv. \<not> contains_key previous (fst kv)) current"
  let ?gone = "filter (\<lambda>key. \<not> contains_key current key) (map fst previous)"
  have inv: "btree_invar current" using assms(2) by (rule target_devices_invar)
  have distinct: "distinct (map fst previous)" "distinct (map fst current)"
    using assms(1) inv by (simp_all add: btree_invar_def strict_sorted_iff)
  have "distinct (map fst ?new)" using distinct(2) by (rule distinct_map_filter)
  then have "length ?new = card (fst ` set ?new)" using distinct_card [of "map fst ?new"] by simp
  also have "fst ` set ?new = fst ` set current - fst ` set previous"
    by (auto simp: contains_key_def)
  finally have new: "length ?new = card (fst ` set current - fst ` set previous)" .
  have "length ?gone = card (set ?gone)" using distinct(1) by (metis distinct_card distinct_filter)
  also have "set ?gone = fst ` set previous - fst ` set current" by (auto simp: contains_key_def)
  finally have gone: "length ?gone = card (fst ` set previous - fst ` set current)" .
  obtain events g' where arr: "arrivals previous current g = (events, Ok g')"
    and len: "length events = length ?new"
    and info: "\<forall>e \<in> set events. \<exists>n k i. e = Arrived n k i \<and> (k, i) \<in> set current"
    using arrivals_counts [of g previous current] assms(3) new by auto
  let ?events = "events @ departures previous current"
  have "poll lib host ctx previous g w = Next ?events current g' (thread_sleep host 250 w1)"
    by (simp add: poll_def assms(2) arr)
  moreover have "length ?events = length ?new + length ?gone" by (simp add: departures_def len)
  moreover have "(k, i) \<in> set current" if "Arrived n k i \<in> set ?events" for n k i
    using that info by (auto simp: departures_def)
  ultimately show ?thesis using poll_replay [OF assms(1) inv arr] new gone by metis
qed

theorem poll_reports_difference_witness:
  "\<exists>events g'. poll clock_libusb clock_host 7 [] 0 0 = Next events [(DeviceKey 4 10, adapter)] g' 250000000
     \<and> replay events ({}, 0) = Some ({DeviceKey 4 10}, unat g') \<and> length events = 1"
proof -
  have "btree_invar ([] :: (DeviceKey, DeviceInfo) btree)" by (simp add: btree_invar_def)
  from poll_reports_difference [OF this clock_target_devices [of 0], of 0 clock_host]
  show ?thesis by (force simp: clock_host_def)
qed

text \<open>C28: every log of the observer, of any length and however the run ends, replays from no attached
  device: it never reports the arrival of a device that is attached or the departure of one that
  is not, and the generations of the arrivals are 1, 2, 3 and so on without a gap.\<close>

theorem observe_log_replays:
  assumes "observe lib host duration w = Some (events, r, w')"
  shows "\<exists>attached n. replay events ({}, 0) = Some (attached, n)"
proof -
  have "replay (fst y) ({}, 0) \<noteq> None" if "observe_loop lib host ctx deadline [] 0 w1 = Some y"
    for ctx deadline w1 y
    using observe_loop_replay [OF that] by (simp add: btree_invar_def)
  with assms show ?thesis
    by (fastforce simp: observe_def Let_def split: prod.splits outcome.splits option.splits Option.bind_splits)
qed

theorem observe_log_replays_witness:
  "\<exists>events r w' attached n. observe clock_libusb clock_host (Some 1) 0 = Some (events, r, w')
     \<and> replay events ({}, 0) = Some (attached, n)"
proof -
  obtain events r w' where "observe clock_libusb clock_host (Some 1) 0 = Some (events, r, w')"
    using observe_with_duration [OF clock_host_advances] by blast
  with observe_log_replays [OF this] show ?thesis by blast
qed

text \<open>C29: with a duration the observer returns. For a clock that never goes back and sleeps that last
  at least as long as asked, \<open>observe\<close> with a duration ends with a result, whatever libusb answers;
  a duration that the clock cannot represent is an error.\<close>

theorem observe_returns:
  assumes "clock_advances lib host time"
  shows "\<exists>events r w'. observe lib host (Some seconds) w = Some (events, r, w')"
  using assms by (rule observe_with_duration)

theorem observe_returns_witness:
  "\<exists>events r w'. observe clock_libusb clock_host (Some 1) 0 = Some (events, r, w')"
  using observe_returns [OF clock_host_advances] .

end
