(* ===== verification/Cli_Args.thy ===== *)
theory Cli_Args
  imports Hex_Input
begin

text \<open>
  The command line of \<open>rust/src/main.rs\<close>: the type \<open>Command\<close>, \<open>PatternOptions\<close>, \<open>parse_args\<close> and
  \<open>parse_pattern_args\<close>. Arguments are UTF-8 strings, as \<open>env::args\<close> delivers them.
\<close>

section \<open>Model\<close>

record PatternOptions =
  po_width :: u32
  po_height :: u32
  po_frames :: u64
  po_queue_capacity :: usize
  po_quality :: u8

text \<open>\<open>Duration::from_secs(n)\<close> is kept as the number of seconds.\<close>

datatype Command =
    Observe "u64 option"
  | DecodeHex bytes
  | DecodeHexFile str
  | ProtocolInfo
  | Pattern PatternOptions bool
  | ScreenCastVersion

definition DEFAULT_PATTERN_FRAMES :: u64 where [const_simps]: "DEFAULT_PATTERN_FRAMES = 6"
definition DEFAULT_QUEUE_CAPACITY :: usize where [const_simps]: "DEFAULT_QUEUE_CAPACITY = 2"
definition DEFAULT_JPEG_QUALITY :: u8 where [const_simps]: "DEFAULT_JPEG_QUALITY = 80"
definition MAX_PATTERN_FRAMES :: u64 where [const_simps]: "MAX_PATTERN_FRAMES = 1000"
definition MAX_QUEUE_CAPACITY :: usize where [const_simps]: "MAX_QUEUE_CAPACITY = 256"

text \<open>The variables of the option loop.\<close>

record option_state =
  os_frames :: u64
  os_queue_capacity :: usize
  os_quality :: u8
  os_saw_frames :: bool
  os_saw_queue :: bool
  os_saw_quality :: bool

definition option_defaults :: option_state where
  "option_defaults = \<lparr>os_frames = DEFAULT_PATTERN_FRAMES, os_queue_capacity = DEFAULT_QUEUE_CAPACITY,
     os_quality = DEFAULT_JPEG_QUALITY, os_saw_frames = False, os_saw_queue = False,
     os_saw_quality = False\<rparr>"

definition pattern_option :: "option_state \<Rightarrow> str \<Rightarrow> str \<Rightarrow> (option_state, string) outcome" where
  "pattern_option st opt v =
     (if opt = ''--frames'' \<and> \<not> os_saw_frames st then
        and_then (ok_or (parse_u64 v) ''frame count must be a positive integer'') (\<lambda>frames.
          Ok (st\<lparr>os_frames := frames, os_saw_frames := True\<rparr>))
      else if opt = ''--queue'' \<and> \<not> os_saw_queue st then
        and_then (ok_or (parse_usize v) ''queue capacity must be a positive integer'') (\<lambda>queue_capacity.
          Ok (st\<lparr>os_queue_capacity := queue_capacity, os_saw_queue := True\<rparr>))
      else if opt = ''--quality'' \<and> \<not> os_saw_quality st then
        and_then (ok_or (parse_u8 v) ''JPEG quality must be an integer from 1 to 100'') (\<lambda>quality.
          Ok (st\<lparr>os_quality := quality, os_saw_quality := True\<rparr>))
      else if opt = ''--frames'' \<or> opt = ''--queue'' \<or> opt = ''--quality''
      then Err (''duplicate option: '' @ opt)
      else Err (''unknown pattern option: '' @ opt))"

fun pattern_options :: "option_state \<Rightarrow> str list \<Rightarrow> (option_state, string) outcome" where
  "pattern_options st [] = Ok st"
| "pattern_options st [opt] = Err (opt @ '' requires a value'')"
| "pattern_options st (opt # v # rest) =
     and_then (pattern_option st opt v) (\<lambda>st'. pattern_options st' rest)"

definition is_dimension_separator :: "char \<Rightarrow> bool" where
  "is_dimension_separator c \<longleftrightarrow> c = CHR ''x'' \<or> c = CHR ''X''"

definition parse_dimensions :: "str \<Rightarrow> (u32 \<times> u32, string) outcome" where
  "parse_dimensions dimensions =
     and_then (ok_or (position is_dimension_separator dimensions)
       ''pattern dimensions must use WIDTHxHEIGHT'') (\<lambda>separator.
     and_then (slice_to dimensions separator) (\<lambda>width.
     and_then (slice_from dimensions separator) (\<lambda>height_with_separator.
     and_then (slice_from height_with_separator 1) (\<lambda>height.
     and_then (ensure (\<not> (width = [] \<or> height = [] \<or> list_ex is_dimension_separator height))
       ''pattern dimensions must use WIDTHxHEIGHT'') (\<lambda>_.
     and_then (ok_or (parse_u32 width) ''pattern width must be a positive integer'') (\<lambda>width.
     and_then (ok_or (parse_u32 height) ''pattern height must be a positive integer'') (\<lambda>height.
       Ok (width, height))))))))"

definition parse_pattern_args :: "str list \<Rightarrow> (PatternOptions, string) outcome" where
  "parse_pattern_args arguments =
     (case arguments of
        [] \<Rightarrow> Err ''--pattern requires WIDTHxHEIGHT''
      | dimensions # options \<Rightarrow>
          and_then (parse_dimensions dimensions) (\<lambda>(width, height).
          and_then (pattern_options option_defaults options) (\<lambda>st.
          and_then (ensure (\<not> (os_frames st = 0 \<or> os_frames st > MAX_PATTERN_FRAMES))
            (''frame count must be between 1 and '' @ show_u64 MAX_PATTERN_FRAMES)) (\<lambda>_.
          and_then (ensure (\<not> (os_queue_capacity st = 0 \<or> os_queue_capacity st > MAX_QUEUE_CAPACITY))
            (''queue capacity must be between 1 and '' @ show_nat MAX_QUEUE_CAPACITY)) (\<lambda>_.
          and_then (ensure (1 \<le> os_quality st \<and> os_quality st \<le> 100)
            ''JPEG quality must be between 1 and 100'') (\<lambda>_.
            Ok \<lparr>po_width = width, po_height = height, po_frames = os_frames st,
                po_queue_capacity = os_queue_capacity st, po_quality = os_quality st\<rparr>))))))"

definition usage :: string where
  "usage =
     ''usage: smiusbd-rs --observe [--duration SECONDS]\<newline>       smiusbd-rs --decode-hex HEX\<newline>       smiusbd-rs --decode-hex-file PATH|-\<newline>       smiusbd-rs --protocol-info\<newline>       smiusbd-rs --pattern WIDTHxHEIGHT [--frames COUNT] [--queue CAPACITY]\<newline>       smiusbd-rs --encode-plan WIDTHxHEIGHT [--frames COUNT] [--queue CAPACITY] [--quality 1..100]\<newline>       smiusbd-rs --screen-cast-version''"

fun match_args :: "(nat \<Rightarrow> bool) \<Rightarrow> str list \<Rightarrow> (Command, string) outcome" where
  "match_args printable [mode] =
     (if mode = ''--observe'' then Ok (Observe None)
      else if mode = ''--protocol-info'' then Ok ProtocolInfo
      else if mode = ''--screen-cast-version'' then Ok ScreenCastVersion
      else Err usage)"
| "match_args printable [mode, input] =
     (if mode = ''--decode-hex'' then map_ok DecodeHex (parse_hex printable input)
      else if mode = ''--decode-hex-file'' then Ok (DecodeHexFile input)
      else Err usage)"
| "match_args printable [mode, duration_flag, seconds] =
     (if mode = ''--observe'' \<and> duration_flag = ''--duration'' then
        and_then (ok_or (parse_u64 seconds) ''duration must be a positive integer'') (\<lambda>seconds.
        and_then (ensure (seconds \<noteq> 0) ''duration must be a positive integer'') (\<lambda>_.
          Ok (Observe (Some seconds))))
      else Err usage)"
| "match_args printable _ = Err usage"

definition parse_args :: "(nat \<Rightarrow> bool) \<Rightarrow> str list \<Rightarrow> (Command, string) outcome" where
  "parse_args printable arguments =
     (if arguments \<noteq> [] \<and> (hd arguments = ''--pattern'' \<or> hd arguments = ''--encode-plan'')
      then map_ok (\<lambda>options. Pattern options (hd arguments = ''--encode-plan''))
             (parse_pattern_args (tl arguments))
      else match_args printable arguments)"

section \<open>Lemmas: dimensions\<close>

lemma parse_unsigned_chars:
  "parse_unsigned m s = Some v \<Longrightarrow> c \<in> set s \<Longrightarrow> c = CHR ''+'' \<or> is_ascii_digit c"
proof -
  have digits: "parse_digits m a t = Some v \<Longrightarrow> c \<in> set t \<Longrightarrow> is_ascii_digit c" for a t
    by (induction t arbitrary: a) (auto simp: Let_def split: if_splits)
  assume "parse_unsigned m s = Some v" "c \<in> set s"
  then show ?thesis
    using digits by (fastforce simp: parse_unsigned_def simp del: parse_digits.simps split: list.splits if_splits)
qed

lemma parse_u32_no_separator:
  "parse_u32 s = Some v \<Longrightarrow> c \<in> set s \<Longrightarrow> \<not> is_dimension_separator c"
  using parse_unsigned_chars [of _ s _ c]
  by (force simp: parse_u32_def is_dimension_separator_def is_ascii_digit_def)

lemma parse_u32_nonempty: "parse_u32 s = Some v \<Longrightarrow> s \<noteq> []"
  by (auto simp: parse_u32_def parse_unsigned_def)

lemma position_first: "(\<forall>x \<in> set a. \<not> P x) \<Longrightarrow> P c \<Longrightarrow> position P (a @ c # b) = Some (length a)"
  by (simp add: position_Some nth_append)

definition dimensions_layout :: "u32 \<times> u32 \<Rightarrow> str \<Rightarrow> bool" where
  "dimensions_layout wh s \<longleftrightarrow>
     (\<exists>a c b. s = a @ c # b \<and> is_dimension_separator c
        \<and> parse_u32 a = Some (fst wh) \<and> parse_u32 b = Some (snd wh))"

lemma parse_dimensions_Ok: "parse_dimensions s = Ok wh \<longleftrightarrow> dimensions_layout wh s"
  (is "?l \<longleftrightarrow> ?r")
proof
  assume ?l
  then obtain i where i: "position is_dimension_separator s = Some i"
    by (auto simp: parse_dimensions_def ok_or_def split: option.splits)
  then have bound: "i < length s" and sep: "is_dimension_separator (s ! i)" by (auto simp: position_Some)
  then have "s = take i s @ s ! i # drop (Suc i) s" by (simp add: id_take_nth_drop)
  moreover have "parse_u32 (take i s) = Some (fst wh) \<and> parse_u32 (drop (Suc i) s) = Some (snd wh)"
    using \<open>?l\<close> i bound
    by (auto simp: parse_dimensions_def ok_or_def ensure_def slice_to_def slice_from_def
        split: option.splits if_splits)
  ultimately show ?r using sep unfolding dimensions_layout_def by blast
next
  assume ?r
  then obtain a c b where s: "s = a @ c # b" and c: "is_dimension_separator c"
    and a: "parse_u32 a = Some (fst wh)" and b: "parse_u32 b = Some (snd wh)"
    unfolding dimensions_layout_def by blast
  have "position is_dimension_separator s = Some (length a)"
    unfolding s using c parse_u32_no_separator [OF a] by (intro position_first) auto
  moreover have "\<not> list_ex is_dimension_separator b"
    using parse_u32_no_separator [OF b] by (auto simp: list_ex_iff)
  ultimately show ?l
    using a b parse_u32_nonempty [OF a] parse_u32_nonempty [OF b]
    by (simp add: parse_dimensions_def s slice_to_def slice_from_def ok_or_def ensure_def)
qed

lemma parse_dimensions_no_panic: "parse_dimensions s \<noteq> Panic"
  by (auto simp: parse_dimensions_def slice_to_def slice_from_def ok_or_def ensure_def position_Some
      Suc_le_eq split: option.splits)

interpretation dimensions: strict_decoder parse_dimensions dimensions_layout
  by unfold_locales (simp_all add: parse_dimensions_Ok parse_dimensions_no_panic)

section \<open>Lemmas: options\<close>

text \<open>What a list of options does to one variable of the loop and its flag.\<close>

definition option_effect ::
  "(str \<times> str) list \<Rightarrow> str \<Rightarrow> (str \<Rightarrow> 'v option) \<Rightarrow> bool \<Rightarrow> 'v \<Rightarrow> bool \<Rightarrow> 'v \<Rightarrow> bool"
where
  "option_effect pairs name parse saw v saw' v' =
     (case map_of pairs name of
        None \<Rightarrow> saw' = saw \<and> v' = v
      | Some text \<Rightarrow> \<not> saw \<and> saw' \<and> parse text = Some v')"

definition options_accepted :: "(str \<times> str) list \<Rightarrow> option_state \<Rightarrow> option_state \<Rightarrow> bool" where
  "options_accepted pairs st st' \<longleftrightarrow>
     distinct (map fst pairs) \<and> fst ` set pairs \<subseteq> {''--frames'', ''--queue'', ''--quality''}
     \<and> option_effect pairs ''--frames'' parse_u64 (os_saw_frames st) (os_frames st)
         (os_saw_frames st') (os_frames st')
     \<and> option_effect pairs ''--queue'' parse_usize (os_saw_queue st) (os_queue_capacity st)
         (os_saw_queue st') (os_queue_capacity st')
     \<and> option_effect pairs ''--quality'' parse_u8 (os_saw_quality st) (os_quality st)
         (os_saw_quality st') (os_quality st')"

definition flat_options :: "(str \<times> str) list \<Rightarrow> str list" where
  "flat_options pairs = concat (map (\<lambda>(name, v). [name, v]) pairs)"

lemma flat_options_simps [simp]:
  "flat_options [] = []" "flat_options ((n, v) # pairs) = n # v # flat_options pairs"
  by (simp_all add: flat_options_def)

lemma flat_options_eq_simps:
  "[] = flat_options pairs \<longleftrightarrow> pairs = []"
  "[n] = flat_options pairs \<longleftrightarrow> False"
  "n # v # rest = flat_options pairs \<longleftrightarrow> (\<exists>more. pairs = (n, v) # more \<and> rest = flat_options more)"
  by (cases pairs; auto simp: flat_options_def)+

lemma options_accepted_Nil: "options_accepted [] st st' \<longleftrightarrow> st' = st"
  by (auto simp: options_accepted_def option_effect_def)

lemma option_effect_other:
  "m \<noteq> n \<Longrightarrow> option_effect ((m, v) # pairs) n parse saw x saw' x' = option_effect pairs n parse saw x saw' x'"
  by (simp add: option_effect_def)

lemma option_effect_same:
  "n \<notin> fst ` set pairs \<and> option_effect ((n, v) # pairs) n parse saw x saw' x' \<longleftrightarrow>
     \<not> saw \<and> (\<exists>y. parse v = Some y \<and> option_effect pairs n parse True y saw' x')"
  unfolding map_of_eq_None_iff [symmetric]
  by (cases "map_of pairs n") (auto simp: option_effect_def)

lemma option_names_distinct:
  "''--frames'' \<noteq> ''--queue''" "''--queue'' \<noteq> ''--frames''" "''--frames'' \<noteq> ''--quality''"
  "''--quality'' \<noteq> ''--frames''" "''--queue'' \<noteq> ''--quality''" "''--quality'' \<noteq> ''--queue''"
  by simp_all

lemma options_accepted_Cons_iff:
  "options_accepted ((n, v) # pairs) st st' \<longleftrightarrow>
     n \<notin> fst ` set pairs \<and> distinct (map fst pairs)
     \<and> n \<in> {''--frames'', ''--queue'', ''--quality''} \<and> fst ` set pairs \<subseteq> {''--frames'', ''--queue'', ''--quality''}
     \<and> option_effect ((n, v) # pairs) ''--frames'' parse_u64 (os_saw_frames st) (os_frames st)
         (os_saw_frames st') (os_frames st')
     \<and> option_effect ((n, v) # pairs) ''--queue'' parse_usize (os_saw_queue st) (os_queue_capacity st)
         (os_saw_queue st') (os_queue_capacity st')
     \<and> option_effect ((n, v) # pairs) ''--quality'' parse_u8 (os_saw_quality st) (os_quality st)
         (os_saw_quality st') (os_quality st')"
  unfolding options_accepted_def by (simp only: list.map distinct.simps set_map list.set image_insert fst_conv insert_subset) blast

lemma conj_regroup:
  assumes "(N \<and> E) = (\<not> w \<and> (\<exists>y. P y \<and> F y))" and M
  shows "(N \<and> D \<and> M \<and> S \<and> E \<and> Q \<and> R) = (\<not> w \<and> (\<exists>y. P y \<and> D \<and> S \<and> F y \<and> Q \<and> R))"
    and "(N \<and> D \<and> M \<and> S \<and> Q \<and> E \<and> R) = (\<not> w \<and> (\<exists>y. P y \<and> D \<and> S \<and> Q \<and> F y \<and> R))"
    and "(N \<and> D \<and> M \<and> S \<and> Q \<and> R \<and> E) = (\<not> w \<and> (\<exists>y. P y \<and> D \<and> S \<and> Q \<and> R \<and> F y))"
  using assms by blast+

lemmas options_accepted_step =
  options_accepted_def option_effect_other option_names_distinct
  not_False_eq_True option_state.simps

lemma options_accepted_frames:
  "options_accepted ((''--frames'', v) # pairs) st st' \<longleftrightarrow>
     \<not> os_saw_frames st \<and> (\<exists>y. parse_u64 v = Some y
       \<and> options_accepted pairs (st\<lparr>os_frames := y, os_saw_frames := True\<rparr>) st')"
  unfolding options_accepted_Cons_iff
  by (cases st, simp only: options_accepted_step) (rule conj_regroup(1) [OF option_effect_same], simp)

lemma options_accepted_queue:
  "options_accepted ((''--queue'', v) # pairs) st st' \<longleftrightarrow>
     \<not> os_saw_queue st \<and> (\<exists>y. parse_usize v = Some y
       \<and> options_accepted pairs (st\<lparr>os_queue_capacity := y, os_saw_queue := True\<rparr>) st')"
  unfolding options_accepted_Cons_iff
  by (cases st, simp only: options_accepted_step) (rule conj_regroup(2) [OF option_effect_same], simp)

lemma options_accepted_quality:
  "options_accepted ((''--quality'', v) # pairs) st st' \<longleftrightarrow>
     \<not> os_saw_quality st \<and> (\<exists>y. parse_u8 v = Some y
       \<and> options_accepted pairs (st\<lparr>os_quality := y, os_saw_quality := True\<rparr>) st')"
  unfolding options_accepted_Cons_iff
  by (cases st, simp only: options_accepted_step) (rule conj_regroup(3) [OF option_effect_same], simp)

lemma options_accepted_Cons:
  "options_accepted ((n, v) # pairs) st st' \<longleftrightarrow>
     (\<exists>st1. pattern_option st n v = Ok st1 \<and> options_accepted pairs st1 st')"
proof -
  consider "n = ''--frames''" | "n = ''--queue''" | "n = ''--quality''"
    | "n \<notin> {''--frames'', ''--queue'', ''--quality''}" by blast
  then show ?thesis
  proof cases
    case 1
    then show ?thesis by (auto simp: options_accepted_frames pattern_option_def ok_or_def split: option.splits)
  next
    case 2
    then show ?thesis by (auto simp: options_accepted_queue pattern_option_def ok_or_def split: option.splits)
  next
    case 3
    then show ?thesis by (auto simp: options_accepted_quality pattern_option_def ok_or_def split: option.splits)
  next
    case 4
    then show ?thesis unfolding options_accepted_Cons_iff pattern_option_def by (simp only: insert_iff) simp
  qed
qed

lemma pattern_options_Ok:
  "pattern_options st args = Ok st' \<longleftrightarrow> (\<exists>pairs. args = flat_options pairs \<and> options_accepted pairs st st')"
proof (induction st args rule: pattern_options.induct)
  case (3 st opt v rest)
  show ?case
  proof (cases "pattern_option st opt v")
    case (Ok st1)
    with 3 show ?thesis by (auto simp: flat_options_eq_simps options_accepted_Cons)
  qed (auto simp: flat_options_eq_simps options_accepted_Cons)
qed (auto simp: flat_options_eq_simps options_accepted_Nil)

lemma pattern_options_no_panic: "pattern_options st args \<noteq> Panic"
proof (induction st args rule: pattern_options.induct)
  case (3 st opt v rest)
  then show ?case
    by (cases "pattern_option st opt v") (auto simp: pattern_option_def ok_or_def split: if_splits option.splits)
qed auto

definition option_value :: "(str \<times> str) list \<Rightarrow> str \<Rightarrow> (str \<Rightarrow> 'v option) \<Rightarrow> 'v \<Rightarrow> 'v option" where
  "option_value pairs name parse d =
     (case map_of pairs name of None \<Rightarrow> Some d | Some text \<Rightarrow> parse text)"

lemma option_effect_initial:
  "option_effect pairs name parse False d saw' v' \<longleftrightarrow>
     saw' = (map_of pairs name \<noteq> None) \<and> option_value pairs name parse d = Some v'"
  by (auto simp: option_effect_def option_value_def split: option.splits)

lemma options_accepted_defaults:
  "(\<exists>st. options_accepted pairs option_defaults st
      \<and> os_frames st = frames \<and> os_queue_capacity st = capacity \<and> os_quality st = quality) \<longleftrightarrow>
   distinct (map fst pairs) \<and> fst ` set pairs \<subseteq> {''--frames'', ''--queue'', ''--quality''}
   \<and> option_value pairs ''--frames'' parse_u64 DEFAULT_PATTERN_FRAMES = Some frames
   \<and> option_value pairs ''--queue'' parse_usize DEFAULT_QUEUE_CAPACITY = Some capacity
   \<and> option_value pairs ''--quality'' parse_u8 DEFAULT_JPEG_QUALITY = Some quality"
  (is "(\<exists>st. ?P st) \<longleftrightarrow> ?Q")
proof
  assume "\<exists>st. ?P st"
  then show ?Q
    by (auto simp only: options_accepted_def option_defaults_def option_state.simps option_effect_initial)
next
  assume ?Q
  then have "?P \<lparr>os_frames = frames, os_queue_capacity = capacity, os_quality = quality,
      os_saw_frames = (map_of pairs ''--frames'' \<noteq> None), os_saw_queue = (map_of pairs ''--queue'' \<noteq> None),
      os_saw_quality = (map_of pairs ''--quality'' \<noteq> None)\<rparr>"
    by (simp only: options_accepted_def option_defaults_def option_state.simps option_effect_initial)
  then show "\<exists>st. ?P st" by blast
qed

lemma parse_pattern_args_Ok:
  "parse_pattern_args args = Ok opts \<longleftrightarrow>
     (\<exists>dims pairs. args = dims # flat_options pairs
        \<and> parse_dimensions dims = Ok (po_width opts, po_height opts)
        \<and> (\<exists>st. options_accepted pairs option_defaults st \<and> os_frames st = po_frames opts
             \<and> os_queue_capacity st = po_queue_capacity opts \<and> os_quality st = po_quality opts)
        \<and> 1 \<le> po_frames opts \<and> po_frames opts \<le> MAX_PATTERN_FRAMES
        \<and> 1 \<le> po_queue_capacity opts \<and> po_queue_capacity opts \<le> MAX_QUEUE_CAPACITY
        \<and> 1 \<le> po_quality opts \<and> po_quality opts \<le> 100)"
  (is "?l \<longleftrightarrow> ?r")
proof
  assume ?l
  then obtain dims rest w h st where args: "args = dims # rest"
    and d: "parse_dimensions dims = Ok (w, h)" and st: "pattern_options option_defaults rest = Ok st"
    and range: "\<not> (os_frames st = 0 \<or> os_frames st > MAX_PATTERN_FRAMES)"
      "\<not> (os_queue_capacity st = 0 \<or> os_queue_capacity st > MAX_QUEUE_CAPACITY)"
      "1 \<le> os_quality st \<and> os_quality st \<le> 100"
    and opts: "opts = \<lparr>po_width = w, po_height = h, po_frames = os_frames st,
      po_queue_capacity = os_queue_capacity st, po_quality = os_quality st\<rparr>"
    unfolding parse_pattern_args_def ensure_def
    by (cases args; cases "parse_dimensions (hd args)"; cases "pattern_options option_defaults (tl args)")
      (auto split: if_splits)
  from st obtain pairs where "rest = flat_options pairs" "options_accepted pairs option_defaults st"
    using pattern_options_Ok by blast
  moreover have "1 \<le> os_frames st"
    using range(1) by (simp add: word_le_nat_alt Suc_le_eq unat_gt_0)
  ultimately show ?r using args d range by (intro exI [of _ dims] exI [of _ pairs]) (auto simp: opts)
next
  assume ?r
  then obtain dims pairs st where args: "args = dims # flat_options pairs"
    and d: "parse_dimensions dims = Ok (po_width opts, po_height opts)"
    and st: "options_accepted pairs option_defaults st"
    and eqs: "os_frames st = po_frames opts" "os_queue_capacity st = po_queue_capacity opts"
      "os_quality st = po_quality opts"
    and range: "1 \<le> po_frames opts" "po_frames opts \<le> MAX_PATTERN_FRAMES"
      "1 \<le> po_queue_capacity opts" "po_queue_capacity opts \<le> MAX_QUEUE_CAPACITY"
      "1 \<le> po_quality opts" "po_quality opts \<le> 100" by blast
  have "pattern_options option_defaults (flat_options pairs) = Ok st"
    using st pattern_options_Ok by blast
  moreover have "po_frames opts \<noteq> 0" using range(1) by auto
  ultimately show ?l
    using range by (simp add: parse_pattern_args_def args d eqs ensure_def linorder_not_less)
qed

lemma parse_pattern_args_no_panic: "parse_pattern_args args \<noteq> Panic"
proof (cases args)
  case (Cons dims rest)
  with dimensions.no_panic [of dims] pattern_options_no_panic [of option_defaults rest] show ?thesis
    unfolding parse_pattern_args_def ensure_def
    by (cases "parse_dimensions dims"; cases "pattern_options option_defaults rest") auto
qed (simp add: parse_pattern_args_def)

lemma match_args_result: "match_args printable args \<noteq> Panic \<and> match_args printable args \<noteq> Ok (Pattern opts encode)"
proof (cases "(printable, args)" rule: match_args.cases)
  case (3 printable' mode duration_flag seconds)
  then show ?thesis by (simp add: ok_or_def ensure_def split: option.split)
qed (simp_all add: outcome_simps parse_hex_no_panic)

lemma parse_args_no_panic: "parse_args printable args \<noteq> Panic"
  using match_args_result parse_pattern_args_no_panic by (simp add: parse_args_def outcome_simps)

lemma parse_args_Pattern:
  "parse_args printable args = Ok (Pattern opts encode) \<longleftrightarrow>
     (\<exists>rest. args = (if encode then ''--encode-plan'' else ''--pattern'') # rest
        \<and> parse_pattern_args rest = Ok opts)"
proof (cases args)
  case (Cons mode rest)
  then show ?thesis
    using match_args_result by (auto simp: parse_args_def outcome_simps simp del: match_args.simps)
qed (simp add: parse_args_def)

lemma arguments_regroup:
  "(\<exists>rest. args = m # rest \<and> (\<exists>d pairs. rest = d # F pairs
       \<and> (\<exists>a c b. d = a @ c # b \<and> S c \<and> P a \<and> Q b) \<and> R pairs)) \<longleftrightarrow>
   (\<exists>a c b pairs. args = m # (a @ c # b) # F pairs \<and> S c \<and> P a \<and> Q b \<and> R pairs)"
  by blast

section \<open>Properties\<close>

text \<open>C22: the command line parser never panics, and it yields the pattern command exactly for the
  arguments of that form: the mode, the dimensions as two decimal \<open>u32\<close> numbers around one \<open>x\<close> or \<open>X\<close>,
  then any number of the three options in any order, each at most once and with a value. Every option
  of the result is the given value or its default, and the frame count, the queue capacity and the
  quality are within their limits.\<close>

theorem parse_args_pattern_exact:
  "parse_args printable args \<noteq> Panic
   \<and> (parse_args printable args = Ok (Pattern opts encode) \<longleftrightarrow>
      (\<exists>a c b pairs.
         args = (if encode then ''--encode-plan'' else ''--pattern'') # (a @ c # b)
                # concat (map (\<lambda>(name, v). [name, v]) pairs)
         \<and> c \<in> {CHR ''x'', CHR ''X''}
         \<and> parse_u32 a = Some (po_width opts) \<and> parse_u32 b = Some (po_height opts)
         \<and> distinct (map fst pairs) \<and> fst ` set pairs \<subseteq> {''--frames'', ''--queue'', ''--quality''}
         \<and> option_value pairs ''--frames'' parse_u64 DEFAULT_PATTERN_FRAMES = Some (po_frames opts)
         \<and> option_value pairs ''--queue'' parse_usize DEFAULT_QUEUE_CAPACITY = Some (po_queue_capacity opts)
         \<and> option_value pairs ''--quality'' parse_u8 DEFAULT_JPEG_QUALITY = Some (po_quality opts)
         \<and> 1 \<le> po_frames opts \<and> po_frames opts \<le> MAX_PATTERN_FRAMES
         \<and> 1 \<le> po_queue_capacity opts \<and> po_queue_capacity opts \<le> MAX_QUEUE_CAPACITY
         \<and> 1 \<le> po_quality opts \<and> po_quality opts \<le> 100))"
proof -
  have "parse_args printable args = Ok (Pattern opts encode) \<longleftrightarrow>
      (\<exists>rest. args = (if encode then ''--encode-plan'' else ''--pattern'') # rest
        \<and> parse_pattern_args rest = Ok opts)"
    by (rule parse_args_Pattern)
  then show ?thesis
    unfolding parse_pattern_args_Ok options_accepted_defaults dimensions.parse_Ok_iff dimensions_layout_def
      fst_conv snd_conv flat_options_def is_dimension_separator_def arguments_regroup
    by (simp only: parse_args_no_panic insert_iff empty_iff simp_thms conj_assoc)
qed

end
