(* ===== verification/Frames.thy ===== *)
theory Frames
  imports Rust_Text
begin

text \<open>
  Frame layouts and frames of \<open>rust/src/frame.rs\<close>: \<open>FrameLayout\<close>, \<open>Frame\<close> with its constructors,
  the moving test pattern and the checksum, and \<open>allocate_zeroed\<close>. The system allocator is a
  parameter: a predicate that tells whether a request for a number of bytes is served.
\<close>

unbundle bit_operations_syntax

section \<open>Model\<close>

definition BGRX_BYTES_PER_PIXEL :: usize where [const_simps]: "BGRX_BYTES_PER_PIXEL = 4"
definition MAX_DIMENSION :: u32 where [const_simps]: "MAX_DIMENSION = 16384"
definition MAX_FRAME_BYTES :: usize where [const_simps]: "MAX_FRAME_BYTES = 256 * 1024 * 1024"

record FrameId =
  generation :: u64
  sequence :: u64

definition display_FrameId :: "FrameId \<Rightarrow> string" where
  "display_FrameId i = show_u64 (generation i) @ '':'' @ show_u64 (sequence i)"

record FrameLayout =
  width :: u32
  height :: u32
  stride :: usize
  byte_len :: usize

datatype FrameError =
    ZeroDimension
  | DimensionTooLarge u32 u32 u32
  | SizeOverflow
  | FrameTooLarge usize usize
  | PixelLength usize usize
  | InconsistentLayout
  | AllocationFailed usize

fun display_FrameError :: "FrameError \<Rightarrow> string" where
  "display_FrameError ZeroDimension = ''frame dimensions must be non-zero''"
| "display_FrameError (DimensionTooLarge w h maximum) =
     ''frame '' @ show_u32 w @ ''x'' @ show_u32 h @ '' exceeds the '' @ show_u32 maximum
     @ '' pixel dimension limit''"
| "display_FrameError SizeOverflow = ''frame byte size overflows this platform''"
| "display_FrameError (FrameTooLarge bytes maximum) =
     ''frame requires '' @ show_nat bytes @ '' bytes; safety limit is '' @ show_nat maximum"
| "display_FrameError (PixelLength expected actual) =
     ''BGRx buffer has '' @ show_nat actual @ '' bytes; expected exactly '' @ show_nat expected"
| "display_FrameError InconsistentLayout = ''BGRx frame layout is inconsistent''"
| "display_FrameError (AllocationFailed bytes) =
     ''cannot allocate '' @ show_nat bytes @ '' bytes for BGRx frame''"

definition FrameLayout_new :: "u32 \<Rightarrow> u32 \<Rightarrow> (FrameLayout, FrameError) outcome" where
  "FrameLayout_new width0 height0 =
     (if width0 = 0 \<or> height0 = 0 then Err ZeroDimension
      else if width0 > MAX_DIMENSION \<or> height0 > MAX_DIMENSION
      then Err (DimensionTooLarge width0 height0 MAX_DIMENSION)
      else
        and_then (ok_or (usize_try_from (unat width0)) SizeOverflow) (\<lambda>w.
        and_then (ok_or (usize_try_from (unat height0)) SizeOverflow) (\<lambda>h.
        and_then (ok_or (checked_mul w BGRX_BYTES_PER_PIXEL) SizeOverflow) (\<lambda>st.
        and_then (ok_or (checked_mul st h) SizeOverflow) (\<lambda>len.
          if len > MAX_FRAME_BYTES then Err (FrameTooLarge len MAX_FRAME_BYTES)
          else Ok \<lparr>width = of_nat w, height = of_nat h, stride = st, byte_len = len\<rparr>)))))"

definition FrameLayout_validate :: "FrameLayout \<Rightarrow> (unit, FrameError) outcome" where
  "FrameLayout_validate l =
     and_then (FrameLayout_new (width l) (height l)) (\<lambda>canonical.
       if l \<noteq> canonical then Err InconsistentLayout else Ok ())"

record Frame =
  frame_id :: FrameId
  frame_layout :: FrameLayout
  pixels :: bytes

definition from_bgrx :: "FrameId \<Rightarrow> FrameLayout \<Rightarrow> bytes \<Rightarrow> (Frame, FrameError) outcome" where
  "from_bgrx i l px =
     and_then (FrameLayout_validate l) (\<lambda>_.
       if length px \<noteq> byte_len l then Err (PixelLength (byte_len l) (length px))
       else Ok \<lparr>frame_id = i, frame_layout = l, pixels = px\<rparr>)"

text \<open>\<open>Vec::try_reserve_exact\<close> fails on a capacity beyond \<open>isize::MAX\<close> or when the allocator does;
  no request is made for zero bytes.\<close>

definition allocate_zeroed :: "(usize \<Rightarrow> bool) \<Rightarrow> usize \<Rightarrow> (bytes, FrameError) outcome" where
  "allocate_zeroed alloc bytes =
     (if bytes = 0 \<or> (bytes \<le> isize_max \<and> alloc bytes) then Ok (replicate bytes 0)
      else Err (AllocationFailed bytes))"

definition BARS :: "bytes list" where
  "BARS =
     [[255, 255, 255, 255],
      [0, 255, 255, 255],
      [255, 255, 0, 255],
      [0, 255, 0, 255],
      [255, 0, 255, 255],
      [0, 0, 255, 255],
      [255, 0, 0, 255],
      [0, 0, 0, 255]]"

text \<open>The body of the two loops: the colour bar of column \<open>x\<close>, inverted inside the square, is
  written at the pixel's offset. The second range is only computed when \<open>x\<close> is in the first.\<close>

definition in_range :: "usize \<Rightarrow> usize \<Rightarrow> usize \<Rightarrow> (bool, 'e) outcome" where
  "in_range start len x = and_then (add_usize start len) (\<lambda>e. Ok (start \<le> x \<and> x < e))"

definition bar_pixel ::
  "usize \<Rightarrow> usize \<Rightarrow> usize \<Rightarrow> usize \<Rightarrow> usize \<Rightarrow> usize \<Rightarrow> (bytes, FrameError) outcome" where
  "bar_pixel w square_size x_start y_start y x =
     and_then (mul_usize x (length BARS)) (\<lambda>scaled.
     and_then (if w = 0 then Panic else Ok (scaled div w)) (\<lambda>bar.
     and_then (index_at BARS bar) (\<lambda>pixel.
     and_then (in_range x_start square_size x) (\<lambda>in_x.
     and_then (if in_x then in_range y_start square_size y else Ok False) (\<lambda>inside.
       if inside
       then and_then (index_at pixel 0) (\<lambda>b. and_then (set_at pixel 0 (NOT b)) (\<lambda>pixel.
            and_then (index_at pixel 1) (\<lambda>b. and_then (set_at pixel 1 (NOT b)) (\<lambda>pixel.
            and_then (index_at pixel 2) (\<lambda>b. set_at pixel 2 (NOT b))))))
       else Ok pixel)))))"

definition draw_pixel ::
  "FrameLayout \<Rightarrow> usize \<Rightarrow> usize \<Rightarrow> usize \<Rightarrow> usize \<Rightarrow> usize \<Rightarrow> bytes \<Rightarrow> usize \<Rightarrow> (bytes, FrameError) outcome" where
  "draw_pixel l w square_size x_start y_start y px x =
     and_then (bar_pixel w square_size x_start y_start y x) (\<lambda>pixel.
     and_then (mul_usize y (stride l)) (\<lambda>row.
     and_then (mul_usize x BGRX_BYTES_PER_PIXEL) (\<lambda>column.
     and_then (add_usize row column) (\<lambda>offset.
     and_then (add_usize offset BGRX_BYTES_PER_PIXEL) (\<lambda>e.
       copy_into px offset e pixel)))))"

definition draw_row ::
  "FrameLayout \<Rightarrow> usize \<Rightarrow> usize \<Rightarrow> usize \<Rightarrow> usize \<Rightarrow> bytes \<Rightarrow> usize \<Rightarrow> (bytes, FrameError) outcome" where
  "draw_row l w square_size x_start y_start px y =
     for_each [0..<w] (draw_pixel l w square_size x_start y_start y) px"

text \<open>The start of the square on one axis: \<open>sequence % span * factor % span\<close> on \<open>u64\<close>.\<close>

definition square_start :: "u64 \<Rightarrow> u64 \<Rightarrow> usize \<Rightarrow> (usize, FrameError) outcome" where
  "square_start seq factor span =
     and_then (rem_u64 seq (of_nat span)) (\<lambda>r.
     and_then (mul_u64 r factor) (\<lambda>p.
     and_then (rem_u64 p (of_nat span)) (\<lambda>s. Ok (unat s))))"

definition test_pattern ::
  "(usize \<Rightarrow> bool) \<Rightarrow> FrameId \<Rightarrow> FrameLayout \<Rightarrow> (Frame, FrameError) outcome" where
  "test_pattern alloc i l =
     and_then (FrameLayout_validate l) (\<lambda>_.
       let w = unat (width l); h = unat (height l); square_size = min (min w h) 64 in
       and_then (sub_usize w square_size) (\<lambda>dx.
       and_then (add_usize dx 1) (\<lambda>x_span.
       and_then (sub_usize h square_size) (\<lambda>dy.
       and_then (add_usize dy 1) (\<lambda>y_span.
       and_then (square_start (sequence i) 37 x_span) (\<lambda>x_start.
       and_then (square_start (sequence i) 23 y_span) (\<lambda>y_start.
       and_then (allocate_zeroed alloc (byte_len l)) (\<lambda>px.
       and_then (for_each [0..<h] (draw_row l w square_size x_start y_start) px) (\<lambda>px.
         from_bgrx i l px)))))))))"

definition Frame_validate :: "Frame \<Rightarrow> (unit, FrameError) outcome" where
  "Frame_validate f =
     and_then (FrameLayout_validate (frame_layout f)) (\<lambda>_.
       if length (pixels f) \<noteq> byte_len (frame_layout f)
       then Err (PixelLength (byte_len (frame_layout f)) (length (pixels f)))
       else Ok ())"

definition FNV_OFFSET :: u64 where "FNV_OFFSET = 0xcbf29ce484222325"
definition FNV_PRIME :: u64 where "FNV_PRIME = 0x100000001b3"

definition fnv_step :: "u64 \<Rightarrow> u8 \<Rightarrow> u64" where
  "fnv_step checksum byte = (checksum XOR ucast byte) * FNV_PRIME"

definition checksum :: "Frame \<Rightarrow> u64" where
  "checksum f = foldl fnv_step FNV_OFFSET
     (to_le_bytes 8 (generation (frame_id f)) @ to_le_bytes 8 (sequence (frame_id f))
      @ to_le_bytes 4 (width (frame_layout f)) @ to_le_bytes 4 (height (frame_layout f))
      @ pixels f)"

section \<open>Lemmas: layouts\<close>

definition wf_layout :: "FrameLayout \<Rightarrow> bool" where
  "wf_layout l \<longleftrightarrow>
     0 < unat (width l) \<and> unat (width l) \<le> 16384 \<and> 0 < unat (height l) \<and> unat (height l) \<le> 16384
     \<and> stride l = unat (width l) * 4 \<and> byte_len l = stride l * unat (height l) \<and> byte_len l \<le> 268435456"

lemma FrameLayout_new_eq:
  "FrameLayout_new w h =
     (if w = 0 \<or> h = 0 then Err ZeroDimension
      else if 16384 < unat w \<or> 16384 < unat h then Err (DimensionTooLarge w h 16384)
      else if 268435456 < unat w * 4 * unat h then Err (FrameTooLarge (unat w * 4 * unat h) 268435456)
      else Ok \<lparr>width = w, height = h, stride = unat w * 4, byte_len = unat w * 4 * unat h\<rparr>)"
proof (cases "unat w \<le> 16384 \<and> unat h \<le> 16384")
  case True
  then have "unat w * 4 * unat h \<le> 65536 * 16384" by (intro mult_mono) auto
  then have "unat w * 4 * unat h \<le> usize_max" unfolding usize_max_def by linarith
  moreover from True have "unat w \<le> usize_max" "unat h \<le> usize_max" "unat w * 4 \<le> usize_max"
    by (simp_all add: const_simps)
  ultimately have "usize_try_from (unat w) = Some (unat w)" "usize_try_from (unat h) = Some (unat h)"
    "checked_mul (unat w) 4 = Some (unat w * 4)"
    "checked_mul (unat w * 4) (unat h) = Some (unat w * 4 * unat h)"
    by (simp_all only: usize_try_from_def checked_mul_def if_True)
  with True show ?thesis
    by (auto simp: FrameLayout_new_def const_simps word_less_nat_alt)
next
  case False
  then show ?thesis by (auto simp: FrameLayout_new_def const_simps word_less_nat_alt)
qed

lemma FrameLayout_new_Ok:
  "FrameLayout_new w h = Ok l \<longleftrightarrow> wf_layout l \<and> width l = w \<and> height l = h"
  by (cases l) (auto simp: FrameLayout_new_eq wf_layout_def unat_gt_0)

lemma FrameLayout_validate_Ok: "FrameLayout_validate l = Ok u \<longleftrightarrow> wf_layout l"
  by (auto simp: FrameLayout_validate_def outcome_simps FrameLayout_new_Ok split: if_splits)

lemma FrameLayout_no_panic [simp]: "FrameLayout_new w h \<noteq> Panic" "FrameLayout_validate l \<noteq> Panic"
  by (auto simp: FrameLayout_validate_def FrameLayout_new_eq)

lemma wf_layout_validate: "wf_layout l \<Longrightarrow> FrameLayout_validate l = Ok ()"
  by (simp add: FrameLayout_validate_Ok)

definition wf_frame :: "Frame \<Rightarrow> bool" where
  "wf_frame f \<longleftrightarrow> wf_layout (frame_layout f) \<and> length (pixels f) = byte_len (frame_layout f)"

lemma Frame_validate_Ok: "Frame_validate f = Ok u \<longleftrightarrow> wf_frame f"
  by (auto simp: Frame_validate_def outcome_simps FrameLayout_validate_Ok wf_frame_def)

lemma from_bgrx_Ok:
  "from_bgrx i l px = Ok f \<longleftrightarrow> wf_frame f \<and> f = \<lparr>frame_id = i, frame_layout = l, pixels = px\<rparr>"
  by (auto simp: from_bgrx_def outcome_simps FrameLayout_validate_Ok wf_frame_def)

section \<open>Lemmas: the test pattern\<close>

text \<open>The picture as a function of the coordinates: eight bars, and a square whose corner moves
  with the sequence number.\<close>

definition square_side :: "FrameLayout \<Rightarrow> nat" where
  "square_side l = min (min (unat (width l)) (unat (height l))) 64"

definition square_at :: "nat \<Rightarrow> nat \<Rightarrow> nat \<Rightarrow> nat \<Rightarrow> nat" where
  "square_at factor extent side seq = seq * factor mod (extent - side + 1)"

definition in_square :: "FrameId \<Rightarrow> FrameLayout \<Rightarrow> nat \<Rightarrow> nat \<Rightarrow> bool" where
  "in_square i l x y \<longleftrightarrow>
     (let side = square_side l;
          x0 = square_at 37 (unat (width l)) side (unat (sequence i));
          y0 = square_at 23 (unat (height l)) side (unat (sequence i))
      in x0 \<le> x \<and> x < x0 + side \<and> y0 \<le> y \<and> y < y0 + side)"

definition pattern_colour :: "FrameId \<Rightarrow> FrameLayout \<Rightarrow> nat \<Rightarrow> nat \<Rightarrow> bytes" where
  "pattern_colour i l y x =
     (let bar = BARS ! (x * 8 div unat (width l)) in
      if in_square i l x y then [NOT (bar ! 0), NOT (bar ! 1), NOT (bar ! 2), bar ! 3] else bar)"

definition pattern_row :: "FrameId \<Rightarrow> FrameLayout \<Rightarrow> nat \<Rightarrow> bytes" where
  "pattern_row i l y = concat (map (pattern_colour i l y) [0..<unat (width l)])"

definition pattern_image :: "FrameId \<Rightarrow> FrameLayout \<Rightarrow> bytes" where
  "pattern_image i l = concat (map (pattern_row i l) [0..<unat (height l)])"

lemma length_concat_uniform:
  "(\<And>k. k < n \<Longrightarrow> length (f k) = c) \<Longrightarrow> length (concat (map f [0..<n])) = n * c"
  by (induction n) auto

lemma nth_concat_uniform:
  assumes "\<And>k. k < n \<Longrightarrow> length (f k) = c" and "k < n" and "j < c"
  shows "concat (map f [0..<n]) ! (k * c + j) = f k ! j"
  using assms
proof (induction n)
  case (Suc n)
  have len: "length (concat (map f [0..<n])) = n * c"
    using Suc.prems(1) by (intro length_concat_uniform) auto
  show ?case
  proof (cases "k < n")
    case True
    then have "Suc k * c \<le> n * c" by (intro mult_le_mono1) simp
    with Suc.prems(3) have "k * c + j < n * c" by simp
    with Suc True len show ?thesis by (simp add: nth_append)
  next
    case False
    with Suc.prems(2) have "k = n" by simp
    with len Suc.prems(3) show ?thesis by (simp add: nth_append)
  qed
qed simp

lemma BARS_colour: "k < 8 \<Longrightarrow> length (BARS ! k) = 4 \<and> BARS ! k ! 3 = 255"
  by (auto simp: BARS_def less_Suc_eq eval_nat_numeral)

lemma length_BARS [simp]: "length BARS = 8"
  by (simp add: BARS_def)

lemma bar_index: "x < w \<Longrightarrow> x * 8 div w < (8 :: nat)"
  by (simp add: div_less_iff_less_mult)

lemma length_pattern_colour: "x < unat (width l) \<Longrightarrow> length (pattern_colour i l y x) = 4"
  using BARS_colour [OF bar_index] by (simp add: pattern_colour_def Let_def)

lemma length_pattern_row: "length (pattern_row i l y) = unat (width l) * 4"
  unfolding pattern_row_def by (rule length_concat_uniform) (rule length_pattern_colour)

lemma length_pattern_image: "length (pattern_image i l) = unat (height l) * (unat (width l) * 4)"
  unfolding pattern_image_def by (rule length_concat_uniform) (rule length_pattern_row)

lemma nth_pattern_image:
  assumes "x < unat (width l)" and "y < unat (height l)" and "c < 4"
  shows "pattern_image i l ! (y * (unat (width l) * 4) + x * 4 + c) = pattern_colour i l y x ! c"
proof -
  have "Suc x * 4 \<le> unat (width l) * 4" using assms(1) by (intro mult_le_mono1) simp
  then have "x * 4 + c < unat (width l) * 4" using assms(3) by simp
  then have "pattern_image i l ! (y * (unat (width l) * 4) + (x * 4 + c)) = pattern_row i l y ! (x * 4 + c)"
    unfolding pattern_image_def using assms(2) length_pattern_row by (intro nth_concat_uniform) auto
  also have "\<dots> = pattern_colour i l y x ! c"
    unfolding pattern_row_def using assms length_pattern_colour by (intro nth_concat_uniform) auto
  finally show ?thesis by (simp add: add.assoc)
qed

lemma square_start_eq:
  assumes "0 < span" and "span \<le> 16384" and "unat factor \<le> 64"
  shows "square_start seq factor span = Ok (unat seq * unat factor mod span)"
proof -
  have span: "unat (of_nat span :: u64) = span" using assms(2) by (simp add: unat_of_nat)
  then have nz: "(of_nat span :: u64) \<noteq> 0" using assms(1) by (metis less_irrefl unsigned_0)
  have r: "unat (seq mod of_nat span) = unat seq mod span" by (simp add: unat_mod span)
  have "unat seq mod span * unat factor \<le> 16384 * 64"
    using assms by (intro mult_le_mono) (simp_all add: less_imp_le_nat order_trans [OF mod_le_divisor])
  then have small: "unat (seq mod of_nat span) * unat factor < 2 ^ 64" unfolding r by simp
  then have "unat ((seq mod of_nat span) * factor) = unat seq mod span * unat factor"
    using r by (simp add: unat_mult_lem [THEN iffD1])
  with nz small span show ?thesis
    by (simp add: square_start_def rem_u64_def mul_u64_def unat_mod mod_simps)
qed

lemma pixel_offset:
  assumes "x < w" and "y < (h :: nat)"
  shows "y * (w * 4) + x * 4 + 4 \<le> h * (w * 4)"
proof -
  have "Suc y * (w * 4) \<le> h * (w * 4)" using assms(2) by (intro mult_le_mono1) simp
  moreover have "Suc x * 4 \<le> w * 4" using assms(1) by (intro mult_le_mono1) simp
  ultimately show ?thesis by simp
qed

lemma invert_pixel:
  assumes "length px = 4"
  shows "and_then (index_at px 0) (\<lambda>b. and_then (set_at px 0 (NOT b)) (\<lambda>px.
         and_then (index_at px 1) (\<lambda>b. and_then (set_at px 1 (NOT b)) (\<lambda>px.
         and_then (index_at px 2) (\<lambda>b. set_at px 2 (NOT b))))))
    = Ok [NOT (px ! 0), NOT (px ! 1), NOT (px ! 2), px ! 3 :: u8]"
proof -
  from assms obtain p q r t where "px = [p, q, r, t]"
    by (auto simp: length_Suc_conv eval_nat_numeral)
  then show ?thesis by (simp add: index_at_def set_at_def)
qed

lemma in_range_square:
  assumes "e \<le> 16384"
  shows "in_range (square_at f e (square_side l) n) (square_side l) z =
    Ok (square_at f e (square_side l) n \<le> z \<and> z < square_at f e (square_side l) n + square_side l)"
proof -
  have "square_side l \<le> 64" by (simp add: square_side_def)
  then have "square_at f e (square_side l) n + square_side l \<le> usize_max"
    using mod_less_divisor [of "e - square_side l + 1" "n * f"] assms
    unfolding square_at_def usize_max_def by linarith
  then show ?thesis by (simp add: in_range_def add_usize_def)
qed

lemma bar_pixel_eq:
  assumes "wf_layout l" and "x < unat (width l)"
  shows "bar_pixel (unat (width l)) (square_side l)
      (square_at 37 (unat (width l)) (square_side l) (unat (sequence i)))
      (square_at 23 (unat (height l)) (square_side l) (unat (sequence i))) y x
    = Ok (pattern_colour i l y x)"
proof -
  let ?w = "unat (width l)"
  have w: "?w \<le> 16384" "unat (height l) \<le> 16384" using assms(1) by (auto simp: wf_layout_def)
  have mul: "mul_usize x 8 = Ok (x * 8)" using assms(2) w by (simp add: mul_usize_def usize_max_def)
  have bar: "x * 8 div ?w < 8" using assms(2) by (rule bar_index)
  show ?thesis
    unfolding bar_pixel_def length_BARS mul and_then.simps in_range_square [OF w(1)] in_range_square [OF w(2)]
    using assms(2) bar invert_pixel [of "BARS ! (x * 8 div ?w)"] BARS_colour [OF bar]
    by (auto simp: index_at_def pattern_colour_def in_square_def Let_def)
qed

text \<open>One step of the inner loop, on a buffer split at the pixel's offset.\<close>

lemma draw_pixel_eq:
  assumes l: "wf_layout l" and x: "x < unat (width l)" and y: "y < unat (height l)"
    and a: "length a = y * (unat (width l) * 4) + x * 4" and b: "4 \<le> length b"
  shows "draw_pixel l (unat (width l)) (square_side l)
      (square_at 37 (unat (width l)) (square_side l) (unat (sequence i)))
      (square_at 23 (unat (height l)) (square_side l) (unat (sequence i))) y (a @ b) x
    = Ok (a @ pattern_colour i l y x @ drop 4 b)"
proof -
  let ?w = "unat (width l)" and ?h = "unat (height l)"
  have st: "stride l = ?w * 4" and len: "?h * (?w * 4) \<le> 268435456"
    using l by (auto simp: wf_layout_def mult.commute)
  have off: "y * (?w * 4) + x * 4 + 4 \<le> 268435456" using pixel_offset [OF x y] len by (rule order_trans)
  have mul: "mul_usize y (?w * 4) = Ok (y * (?w * 4))" "mul_usize x 4 = Ok (x * 4)"
    using off by (simp_all add: mul_usize_def usize_max_def)
  have add: "add_usize (y * (?w * 4)) (x * 4) = Ok (length a)" "add_usize (length a) 4 = Ok (length a + 4)"
    using off by (simp_all add: add_usize_def usize_max_def a)
  show ?thesis
    unfolding draw_pixel_def bar_pixel_eq [OF l x] st BGRX_BYTES_PER_PIXEL_def and_then.simps mul add
    using length_pattern_colour [OF x, of i y] b by (simp add: copy_into_def)
qed

lemma draw_row_eq:
  assumes l: "wf_layout l" and y: "y < unat (height l)"
    and a: "length a = y * (unat (width l) * 4)" and b: "unat (width l) * 4 \<le> length b"
  shows "draw_row l (unat (width l)) (square_side l)
      (square_at 37 (unat (width l)) (square_side l) (unat (sequence i)))
      (square_at 23 (unat (height l)) (square_side l) (unat (sequence i))) (a @ b) y
    = Ok (a @ pattern_row i l y @ drop (unat (width l) * 4) b)"
proof -
  let ?w = "unat (width l)"
  let ?I = "\<lambda>x px. px = a @ concat (map (pattern_colour i l y) [0..<x]) @ drop (x * 4) b"
  have "\<exists>px. draw_row l ?w (square_side l)
      (square_at 37 ?w (square_side l) (unat (sequence i)))
      (square_at 23 (unat (height l)) (square_side l) (unat (sequence i))) (a @ b) y = Ok px
    \<and> ?I (length [0..<?w]) px"
    unfolding draw_row_def
  proof (rule for_each_invariant)
    fix x px
    assume x: "x < length [0..<?w]" and px: "?I x px"
    then have x': "x < ?w" by simp
    let ?a = "a @ concat (map (pattern_colour i l y) [0..<x])"
    have len: "length (concat (map (pattern_colour i l y) [0..<x])) = x * 4"
      using x' by (intro length_concat_uniform length_pattern_colour) simp
    have "Suc x * 4 \<le> ?w * 4" using x' by (intro mult_le_mono1) simp
    with b have "4 \<le> length (drop (x * 4) b)" by simp
    from draw_pixel_eq [OF l x' y _ this, of ?a i] a len px x'
    show "\<exists>px'. draw_pixel l ?w (square_side l)
        (square_at 37 ?w (square_side l) (unat (sequence i)))
        (square_at 23 (unat (height l)) (square_side l) (unat (sequence i))) y px ([0..<?w] ! x) = Ok px'
      \<and> ?I (Suc x) px'"
      by (simp add: add.commute)
  qed simp
  then show ?thesis by (simp add: pattern_row_def)
qed

lemma draw_rows_eq:
  assumes l: "wf_layout l" and z: "length z = byte_len l"
  shows "for_each [0..<unat (height l)] (draw_row l (unat (width l)) (square_side l)
      (square_at 37 (unat (width l)) (square_side l) (unat (sequence i)))
      (square_at 23 (unat (height l)) (square_side l) (unat (sequence i)))) z
    = Ok (pattern_image i l)"
proof -
  let ?w = "unat (width l)" and ?h = "unat (height l)"
  let ?row = "draw_row l ?w (square_side l) (square_at 37 ?w (square_side l) (unat (sequence i)))
      (square_at 23 ?h (square_side l) (unat (sequence i)))"
  let ?I = "\<lambda>y px. px = concat (map (pattern_row i l) [0..<y]) @ drop (y * (?w * 4)) z"
  have size: "length z = ?h * (?w * 4)" using l z by (simp add: wf_layout_def mult.commute)
  have "\<exists>px. for_each [0..<?h] ?row z = Ok px \<and> ?I (length [0..<?h]) px"
  proof (rule for_each_invariant)
    fix y px
    assume "y < length [0..<?h]" and px: "?I y px"
    then have y: "y < ?h" by simp
    have len: "length (concat (map (pattern_row i l) [0..<y])) = y * (?w * 4)"
      by (intro length_concat_uniform length_pattern_row)
    have "Suc y * (?w * 4) \<le> ?h * (?w * 4)" using y by (intro mult_le_mono1) simp
    with size have "?w * 4 \<le> length (drop (y * (?w * 4)) z)" by simp
    from draw_row_eq [OF l y len this] px y
    show "\<exists>px'. ?row px ([0..<?h] ! y) = Ok px' \<and> ?I (Suc y) px'" by simp
  qed simp
  then show ?thesis by (simp add: pattern_image_def size)
qed

lemma square_span:
  assumes "wf_layout l"
  shows "square_side l \<le> unat (width l)" "square_side l \<le> unat (height l)" "0 < square_side l"
    "unat (width l) - square_side l + 1 \<le> 16384" "unat (height l) - square_side l + 1 \<le> 16384"
  using assms by (auto simp: square_side_def wf_layout_def)

lemma square_at_inside:
  "side \<le> extent \<Longrightarrow> square_at factor extent side n + side \<le> extent"
  unfolding square_at_def using mod_less_divisor [of "extent - side + 1" "n * factor"] by linarith

lemma test_pattern_eq:
  "test_pattern alloc i l =
     and_then (FrameLayout_validate l) (\<lambda>_.
       if alloc (byte_len l) then Ok \<lparr>frame_id = i, frame_layout = l, pixels = pattern_image i l\<rparr>
       else Err (AllocationFailed (byte_len l)))"
proof (cases "wf_layout l")
  case True
  let ?w = "unat (width l)" and ?h = "unat (height l)" and ?s = "square_side l"
  have side: "min (min ?w ?h) 64 = ?s" by (simp add: square_side_def)
  note span = square_span [OF True]
  have len: "byte_len l \<noteq> 0" "byte_len l \<le> isize_max" "byte_len l = ?h * (?w * 4)"
    using True by (auto simp: wf_layout_def isize_max_def mult.commute)
  have sub: "sub_usize ?w ?s = Ok (?w - ?s)" "sub_usize ?h ?s = Ok (?h - ?s)"
    using span by (simp_all add: sub_usize_def)
  have add: "add_usize (?w - ?s) 1 = Ok (?w - ?s + 1)" "add_usize (?h - ?s) 1 = Ok (?h - ?s + 1)"
    using span by (simp_all add: add_usize_def usize_max_def)
  have starts: "square_start (sequence i) 37 (?w - ?s + 1) = Ok (square_at 37 ?w ?s (unat (sequence i)))"
    "square_start (sequence i) 23 (?h - ?s + 1) = Ok (square_at 23 ?h ?s (unat (sequence i)))"
    using span by (simp_all add: square_start_eq square_at_def)
  have "from_bgrx i l (pattern_image i l) = Ok \<lparr>frame_id = i, frame_layout = l, pixels = pattern_image i l\<rparr>"
    using True by (simp add: from_bgrx_Ok wf_frame_def length_pattern_image len(3))
  with draw_rows_eq [OF True, of "replicate (byte_len l) 0" i] show ?thesis
    unfolding test_pattern_def Let_def side wf_layout_validate [OF True] and_then.simps sub add starts
    using len by (simp add: allocate_zeroed_def)
next
  case False
  then obtain e where "FrameLayout_validate l = Err e"
    using FrameLayout_validate_Ok [of l] FrameLayout_no_panic(2) [of l]
    by (cases "FrameLayout_validate l") auto
  then show ?thesis by (simp add: test_pattern_def)
qed

section \<open>Lemmas: the checksum\<close>

text \<open>The multiplier is odd, so each step permutes the 64-bit states.\<close>

lemma FNV_PRIME_inverse: "FNV_PRIME * 0xce965057aff6957b = 1"
  by (simp add: FNV_PRIME_def)

lemma fnv_step_inject_state: "fnv_step a b = fnv_step c b \<longleftrightarrow> a = c"
proof
  assume "fnv_step a b = fnv_step c b"
  then have "(a XOR ucast b) * (FNV_PRIME * 0xce965057aff6957b) = (c XOR ucast b) * (FNV_PRIME * 0xce965057aff6957b)"
    unfolding fnv_step_def mult.assoc [symmetric] by simp
  then have "a XOR ucast b = c XOR ucast b" by (simp only: FNV_PRIME_inverse mult_1_right)
  then have "(a XOR ucast b) XOR ucast b = (c XOR ucast b) XOR ucast b" by simp
  then show "a = c" by (simp add: xor.assoc)
qed simp

lemma fnv_step_inject_byte: "fnv_step a b = fnv_step a c \<longleftrightarrow> b = c"
proof
  assume "fnv_step a b = fnv_step a c"
  then have "(a XOR ucast b) * (FNV_PRIME * 0xce965057aff6957b) = (a XOR ucast c) * (FNV_PRIME * 0xce965057aff6957b)"
    unfolding fnv_step_def mult.assoc [symmetric] by simp
  then have "a XOR ucast b = a XOR ucast c" by (simp only: FNV_PRIME_inverse mult_1_right)
  then have "a XOR (a XOR ucast b) = a XOR (a XOR ucast c)" by simp
  then have "(ucast b :: u64) = ucast c" by (simp add: xor.assoc [symmetric])
  then have "unat (ucast b :: u64) = unat (ucast c :: u64)" by simp
  moreover have "take_bit 64 (unat x) = unat x" for x :: u8
    using unsigned_less [of x, where 'a = nat] by (simp add: take_bit_nat_eq_self)
  ultimately show "b = c" by (simp add: unsigned_ucast_eq word_unat_eq_iff)
qed simp

lemma foldl_fnv_inject_state: "foldl fnv_step a bs = foldl fnv_step c bs \<longleftrightarrow> a = c"
  by (induction bs arbitrary: a c) (simp_all add: fnv_step_inject_state)

text \<open>Two inputs that differ in one byte have different digests.\<close>

lemma foldl_fnv_update:
  assumes "k < length bs"
  shows "foldl fnv_step a (bs[k := b]) = foldl fnv_step a bs \<longleftrightarrow> b = bs ! k"
proof -
  have "foldl fnv_step a (bs[k := b]) = foldl fnv_step (fnv_step (foldl fnv_step a (take k bs)) b) (drop (Suc k) bs)"
    using assms by (simp add: upd_conv_take_nth_drop)
  moreover have "foldl fnv_step a bs = foldl fnv_step (fnv_step (foldl fnv_step a (take k bs)) (bs ! k)) (drop (Suc k) bs)"
    using id_take_nth_drop [OF assms] by (metis foldl_append foldl_Cons)
  ultimately show ?thesis by (simp add: foldl_fnv_inject_state fnv_step_inject_byte)
qed

section \<open>Properties\<close>

text \<open>\<open>FrameLayout::new\<close> succeeds exactly for dimensions from 1 to 16384 whose BGRx image is at most
  256 MiB, with the stride and byte length of that image; the multiplications never overflow; and
  \<open>FrameLayout::validate\<close> accepts exactly the layouts that \<open>new\<close> produces.\<close>

lemma frame_layout_exact:
  "(FrameLayout_new w h = Ok l \<longleftrightarrow>
      1 \<le> unat w \<and> unat w \<le> 16384 \<and> 1 \<le> unat h \<and> unat h \<le> 16384 \<and> unat w * unat h \<le> 2 ^ 26
      \<and> l = \<lparr>width = w, height = h, stride = 4 * unat w, byte_len = 4 * unat w * unat h\<rparr>)
   \<and> FrameLayout_new w h \<noteq> Err SizeOverflow \<and> FrameLayout_new w h \<noteq> Panic
   \<and> (FrameLayout_validate l = Ok () \<longleftrightarrow> FrameLayout_new (width l) (height l) = Ok l)"
proof -
  have "0 < unat w \<longleftrightarrow> w \<noteq> 0" "0 < unat h \<longleftrightarrow> h \<noteq> 0" by (simp_all add: unat_gt_0)
  moreover have "unat w * unat h \<le> 2 ^ 26 \<longleftrightarrow> unat w * 4 * unat h \<le> 268435456"
    by (simp add: mult.commute)
  ultimately show ?thesis
    by (auto simp: FrameLayout_new_eq FrameLayout_validate_def outcome_simps Suc_le_eq mult.commute)
qed

text \<open>C30: on a validated layout \<open>Frame::test_pattern\<close> fails only when the allocator refuses the frame's
  bytes, never panics, and the pixel at column \<open>x\<close> and row \<open>y\<close> is the colour bar of the column,
  inverted inside a square that lies within the picture.\<close>

theorem test_pattern_picture:
  assumes "FrameLayout_validate l = Ok ()"
  shows "test_pattern alloc i l =
      (if alloc (byte_len l) then Ok \<lparr>frame_id = i, frame_layout = l, pixels = pattern_image i l\<rparr>
       else Err (AllocationFailed (byte_len l)))
    \<and> length (pattern_image i l) = byte_len l
    \<and> (\<exists>x0 y0 side. 0 < side \<and> x0 + side \<le> unat (width l) \<and> y0 + side \<le> unat (height l)
        \<and> (\<forall>x < unat (width l). \<forall>y < unat (height l). \<forall>c < 4.
            pattern_image i l ! (y * stride l + x * 4 + c) =
              (let b = BARS ! (x * 8 div unat (width l)) ! c in
               if x0 \<le> x \<and> x < x0 + side \<and> y0 \<le> y \<and> y < y0 + side \<and> c < 3 then NOT b else b)))"
proof -
  have wf: "wf_layout l" using assms by (simp add: FrameLayout_validate_Ok)
  let ?s = "square_side l"
  let ?x = "square_at 37 (unat (width l)) ?s (unat (sequence i))"
  let ?y = "square_at 23 (unat (height l)) ?s (unat (sequence i))"
  have byte: "pattern_image i l ! (y * stride l + x * 4 + c) =
        (let b = BARS ! (x * 8 div unat (width l)) ! c in
         if ?x \<le> x \<and> x < ?x + ?s \<and> ?y \<le> y \<and> y < ?y + ?s \<and> c < 3 then NOT b else b)"
    if "x < unat (width l)" "y < unat (height l)" "c < 4" for x y c
  proof -
    have "c = 0 \<or> c = 1 \<or> c = 2 \<or> c = 3" using that(3) by auto
    then show ?thesis
      using nth_pattern_image [OF that, of i] wf
      by (auto simp: wf_layout_def pattern_colour_def in_square_def Let_def)
  qed
  moreover have "0 < ?s \<and> ?x + ?s \<le> unat (width l) \<and> ?y + ?s \<le> unat (height l)"
    using square_span [OF wf] square_at_inside by blast
  moreover have "length (pattern_image i l) = byte_len l"
    using wf by (simp add: length_pattern_image wf_layout_def mult.commute)
  ultimately show ?thesis
    unfolding test_pattern_eq assms and_then.simps by blast
qed

theorem test_pattern_picture_witness:
  "\<exists>f. test_pattern (\<lambda>_. True) \<lparr>generation = 7, sequence = 2\<rparr>
      \<lparr>width = 8, height = 4, stride = 32, byte_len = 128\<rparr> = Ok f \<and> length (pixels f) = 128"
  using test_pattern_picture [of "\<lparr>width = 8, height = 4, stride = 32, byte_len = 128\<rparr>" "\<lambda>_. True"
      "\<lparr>generation = 7, sequence = 2\<rparr>"]
  by (simp add: FrameLayout_validate_Ok wf_layout_def)

text \<open>Frames are well formed by construction. Whatever \<open>Frame::from_bgrx\<close> or \<open>Frame::test_pattern\<close>
  returns passes \<open>Frame::validate\<close>, and \<open>from_bgrx\<close> rejects exactly the buffers whose length is not
  the layout's and the layouts that do not validate.\<close>

lemma frames_validate:
  assumes "from_bgrx i l px = Ok f \<or> test_pattern alloc i l = Ok f"
  shows "Frame_validate f = Ok () \<and> frame_id f = i \<and> frame_layout f = l
    \<and> (is_ok (from_bgrx j l qs) \<longleftrightarrow> length qs = length (pixels f))"
proof -
  from assms have f: "wf_frame f" "frame_id f = i" "frame_layout f = l"
    by (auto simp: from_bgrx_Ok test_pattern_eq outcome_simps FrameLayout_validate_Ok wf_frame_def
        length_pattern_image wf_layout_def mult.commute split: if_splits)
  then show ?thesis
    by (auto simp: Frame_validate_Ok is_ok_iff from_bgrx_Ok wf_frame_def)
qed

lemma frames_validate_sample:
  "Frame_validate \<lparr>frame_id = \<lparr>generation = 1, sequence = 0\<rparr>,
      frame_layout = \<lparr>width = 1, height = 1, stride = 4, byte_len = 4\<rparr>, pixels = [1, 2, 3, 4]\<rparr> = Ok ()"
proof -
  have "from_bgrx \<lparr>generation = 1, sequence = 0\<rparr> \<lparr>width = 1, height = 1, stride = 4, byte_len = 4\<rparr> [1, 2, 3, 4]
    = Ok \<lparr>frame_id = \<lparr>generation = 1, sequence = 0\<rparr>,
        frame_layout = \<lparr>width = 1, height = 1, stride = 4, byte_len = 4\<rparr>, pixels = [1, 2, 3, 4]\<rparr>"
    by (simp add: from_bgrx_Ok wf_frame_def wf_layout_def const_simps)
  from frames_validate [OF disjI1, OF this] show ?thesis by blast
qed

text \<open>The checksum detects every change of a single byte of the pixels: it differs from the
  original's exactly when the byte does.\<close>

lemma checksum_detects_byte_change:
  assumes "k < length (pixels f)"
  shows "checksum (f\<lparr>pixels := (pixels f)[k := b]\<rparr>) = checksum f \<longleftrightarrow> b = pixels f ! k"
proof -
  let ?h = "to_le_bytes 8 (generation (frame_id f)) @ to_le_bytes 8 (sequence (frame_id f))
      @ to_le_bytes 4 (width (frame_layout f)) @ to_le_bytes 4 (height (frame_layout f))"
  have "checksum (f\<lparr>pixels := px\<rparr>) = foldl fnv_step (foldl fnv_step FNV_OFFSET ?h) px" for px
    by (simp add: checksum_def)
  moreover have "checksum f = foldl fnv_step (foldl fnv_step FNV_OFFSET ?h) (pixels f)"
    by (simp add: checksum_def)
  ultimately show ?thesis using foldl_fnv_update [OF assms] by simp
qed

end
