(* ===== verification/Pipeline.thy ===== *)
theory Pipeline
  imports Frames "HOL-Library.Sublist"
begin

text \<open>
  The capture-to-encoder queue of \<open>rust/src/frame.rs\<close>: \<open>FramePipeline\<close> with its state, counters and
  operations. First the operations as functions on the state the mutex protects, then the threads
  that call them: taking the mutex, the checks, the sink closure of \<open>with_current_generation\<close> and
  the release are separate steps, interleaved arbitrarily.
\<close>

section \<open>State\<close>

record PipelineStats =
  accepted :: u64
  dequeued :: u64
  dropped_capacity :: u64
  discarded_generation :: u64
  rejected_generation :: u64
  rejected_sequence :: u64
  rejected_sink_generation :: u64

definition PipelineStats_default :: PipelineStats where
  "PipelineStats_default = \<lparr>accepted = 0, dequeued = 0, dropped_capacity = 0, discarded_generation = 0,
     rejected_generation = 0, rejected_sequence = 0, rejected_sink_generation = 0\<rparr>"

record PipelineSnapshot =
  snap_generation :: u64
  snap_queued :: usize
  snap_capacity :: usize
  snap_stats :: PipelineStats

datatype SubmitOutcome =
    Queued
  | DroppedOldest FrameId
  | RejectedGeneration u64 u64
  | RejectedSequence u64 u64

datatype PipelineError =
    ZeroCapacity
  | GenerationNotIncreasing u64 u64

record GenerationMismatch =
  mismatch_active :: u64
  mismatch_received :: u64

definition display_GenerationMismatch :: "GenerationMismatch \<Rightarrow> string" where
  "display_GenerationMismatch m =
     ''stale work from generation '' @ show_u64 (mismatch_received m)
     @ ''; active generation is '' @ show_u64 (mismatch_active m)"

fun display_PipelineError :: "PipelineError \<Rightarrow> string" where
  "display_PipelineError ZeroCapacity = ''frame queue capacity must be non-zero''"
| "display_PipelineError (GenerationNotIncreasing active requested) =
     ''generation must increase (active '' @ show_u64 active @ '', requested '' @ show_u64 requested @ '')''"

record PipelineState =
  active_generation :: u64
  capacity :: usize
  last_sequence :: "u64 option"
  frames :: "Frame list"
  stats :: PipelineStats

section \<open>Operations\<close>

definition FramePipeline_new :: "usize \<Rightarrow> u64 \<Rightarrow> (PipelineState, PipelineError) outcome" where
  "FramePipeline_new cap initial_generation =
     (if cap = 0 then Err ZeroCapacity
      else Ok \<lparr>active_generation = initial_generation, capacity = cap, last_sequence = None,
               frames = [], stats = PipelineStats_default\<rparr>)"

text \<open>The part of \<open>submit\<close> behind the two checks: drop the oldest frame of a full queue, then append.\<close>

definition enqueue :: "Frame \<Rightarrow> PipelineState \<Rightarrow> PipelineState \<times> SubmitOutcome" where
  "enqueue frame s =
     (let (s, dropped) =
        (if length (frames s) = capacity s
         then let s = s\<lparr>stats := (stats s)\<lparr>dropped_capacity := saturating_add (dropped_capacity (stats s)) 1\<rparr>\<rparr>
              in case frames s of
                   [] \<Rightarrow> (s, None)
                 | oldest # rest \<Rightarrow> (s\<lparr>frames := rest\<rparr>, Some (frame_id oldest))
         else (s, None));
        s = s\<lparr>last_sequence := Some (sequence (frame_id frame))\<rparr>;
        s = s\<lparr>stats := (stats s)\<lparr>accepted := saturating_add (accepted (stats s)) 1\<rparr>\<rparr>;
        s = s\<lparr>frames := frames s @ [frame]\<rparr>
      in (s, case dropped of None \<Rightarrow> Queued | Some i \<Rightarrow> DroppedOldest i))"

definition submit :: "Frame \<Rightarrow> PipelineState \<Rightarrow> PipelineState \<times> SubmitOutcome" where
  "submit frame s =
     (let i = frame_id frame in
      if generation i \<noteq> active_generation s
      then (s\<lparr>stats := (stats s)\<lparr>rejected_generation := saturating_add (rejected_generation (stats s)) 1\<rparr>\<rparr>,
            RejectedGeneration (active_generation s) (generation i))
      else case last_sequence s of
        Some latest \<Rightarrow>
          if sequence i \<le> latest
          then (s\<lparr>stats := (stats s)\<lparr>rejected_sequence := saturating_add (rejected_sequence (stats s)) 1\<rparr>\<rparr>,
                RejectedSequence latest (sequence i))
          else enqueue frame s
      | None \<Rightarrow> enqueue frame s)"

definition try_take :: "PipelineState \<Rightarrow> PipelineState \<times> Frame option" where
  "try_take s =
     (case frames s of
        [] \<Rightarrow> (s, None)
      | frame # rest \<Rightarrow>
          (s\<lparr>frames := rest, stats := (stats s)\<lparr>dequeued := saturating_add (dequeued (stats s)) 1\<rparr>\<rparr>, Some frame))"

text \<open>The check of the gate; \<open>None\<close> lets the sink closure run.\<close>

definition gate_check :: "FrameId \<Rightarrow> PipelineState \<Rightarrow> PipelineState \<times> GenerationMismatch option" where
  "gate_check i s =
     (if generation i \<noteq> active_generation s
      then (s\<lparr>stats := (stats s)\<lparr>rejected_sink_generation := saturating_add (rejected_sink_generation (stats s)) 1\<rparr>\<rparr>,
            Some \<lparr>mismatch_active = active_generation s, mismatch_received = generation i\<rparr>)
      else (s, None))"

text \<open>The closure acts on a world of its own; it may panic (\<open>None\<close>) after such an effect.\<close>

definition with_current_generation ::
  "FrameId \<Rightarrow> ('w \<Rightarrow> 't option \<times> 'w) \<Rightarrow> PipelineState \<Rightarrow> 'w \<Rightarrow>
     (PipelineState \<times> 'w) \<times> ('t, GenerationMismatch) outcome" where
  "with_current_generation i sink s w =
     (case gate_check i s of
        (s, Some mismatch) \<Rightarrow> ((s, w), Err mismatch)
      | (s, None) \<Rightarrow>
          (case sink w of (Some t, w) \<Rightarrow> ((s, w), Ok t) | (None, w) \<Rightarrow> ((s, w), Panic)))"

definition begin_generation ::
  "u64 \<Rightarrow> PipelineState \<Rightarrow> PipelineState \<times> (usize, PipelineError) outcome" where
  "begin_generation g s =
     (if g \<le> active_generation s then (s, Err (GenerationNotIncreasing (active_generation s) g))
      else let discarded = length (frames s);
             s = s\<lparr>stats := (stats s)\<lparr>discarded_generation :=
                      saturating_add (discarded_generation (stats s)) (of_nat discarded)\<rparr>\<rparr>;
             s = s\<lparr>frames := []\<rparr>;
             s = s\<lparr>active_generation := g\<rparr>;
             s = s\<lparr>last_sequence := None\<rparr>
           in (s, Ok discarded))"

definition snapshot :: "PipelineState \<Rightarrow> PipelineSnapshot" where
  "snapshot s = \<lparr>snap_generation = active_generation s, snap_queued = length (frames s),
     snap_capacity = capacity s, snap_stats = stats s\<rparr>"

section \<open>Calls\<close>

text \<open>One call of the public interface with its response. The sink of a gated call appends the
  frame id to the list of submissions; \<open>Gate i panics\<close> also says whether it panics afterwards.\<close>

datatype Call =
    Submit Frame
  | Try_Take
  | Gate FrameId bool
  | Begin_Generation u64
  | Snapshot

datatype Response =
    Submitted SubmitOutcome
  | Taken "Frame option"
  | Gated "(unit, GenerationMismatch) outcome"
  | Began "(usize, PipelineError) outcome"
  | Snapped PipelineSnapshot

type_synonym pipeline_world = "PipelineState \<times> FrameId list"

definition sink_submission :: "FrameId \<Rightarrow> bool \<Rightarrow> FrameId list \<Rightarrow> unit option \<times> FrameId list" where
  "sink_submission i panics w = (if panics then None else Some (), w @ [i])"

fun apply_call :: "Call \<Rightarrow> pipeline_world \<Rightarrow> pipeline_world \<times> Response" where
  "apply_call (Submit f) (s, w) = (case submit f s of (s, r) \<Rightarrow> ((s, w), Submitted r))"
| "apply_call Try_Take (s, w) = (case try_take s of (s, r) \<Rightarrow> ((s, w), Taken r))"
| "apply_call (Gate i panics) (s, w) =
     (case with_current_generation i (sink_submission i panics) s w of (sw, r) \<Rightarrow> (sw, Gated r))"
| "apply_call (Begin_Generation g) (s, w) = (case begin_generation g s of (s, r) \<Rightarrow> ((s, w), Began r))"
| "apply_call Snapshot (s, w) = ((s, w), Snapped (snapshot s))"

fun run_calls :: "Call list \<Rightarrow> pipeline_world \<Rightarrow> pipeline_world \<times> Response list" where
  "run_calls [] sw = (sw, [])"
| "run_calls (c # cs) sw =
     (case apply_call c sw of (sw, r) \<Rightarrow> case run_calls cs sw of (sw, rs) \<Rightarrow> (sw, r # rs))"

section \<open>Threads\<close>

text \<open>
  Where a thread is in a call: waiting in \<open>lock_state\<close>, holding the guard before the body, holding
  it with the generation check passed and the closure still to run, or about to drop the guard.
\<close>

datatype Pc =
    Idle
  | Waiting Call
  | Holding Call
  | In_Sink FrameId bool
  | Leaving Response

record Config =
  owner :: "nat option"
  poisoned :: bool
  shared :: PipelineState
  submissions :: "FrameId list"
  pcs :: "nat \<Rightarrow> Pc"
  history :: "(nat \<times> Call \<times> Response) list"

definition initial_config :: "PipelineState \<Rightarrow> Config" where
  "initial_config s = \<lparr>owner = None, poisoned = False, shared = s, submissions = [],
     pcs = (\<lambda>_. Idle), history = []\<rparr>"

fun poisons :: "Response \<Rightarrow> bool" where
  "poisons (Gated r) \<longleftrightarrow> r = Panic"
| "poisons _ \<longleftrightarrow> False"

text \<open>
  \<open>lock_state\<close> takes the mutex whenever it is free, poisoned or not. A panic of the closure
  unwinds through the guard, which poisons the mutex and releases it.
\<close>

inductive step :: "nat \<Rightarrow> Config \<Rightarrow> Config \<Rightarrow> bool" for t where
  invoke: "pcs c t = Idle \<Longrightarrow> step t c (c\<lparr>pcs := (pcs c)(t := Waiting call)\<rparr>)"
| lock_state: "pcs c t = Waiting call \<Longrightarrow> owner c = None \<Longrightarrow>
    step t c (c\<lparr>owner := Some t, pcs := (pcs c)(t := Holding call)\<rparr>)"
| body: "pcs c t = Holding call \<Longrightarrow> (\<And>i p. call \<noteq> Gate i p) \<Longrightarrow>
    apply_call call (shared c, submissions c) = ((s, w), r) \<Longrightarrow>
    step t c (c\<lparr>shared := s, submissions := w, pcs := (pcs c)(t := Leaving r),
                history := history c @ [(t, call, r)]\<rparr>)"
| gate_reject: "pcs c t = Holding (Gate i p) \<Longrightarrow> gate_check i (shared c) = (s, Some m) \<Longrightarrow>
    step t c (c\<lparr>shared := s, pcs := (pcs c)(t := Leaving (Gated (Err m))),
                history := history c @ [(t, Gate i p, Gated (Err m))]\<rparr>)"
| gate_enter: "pcs c t = Holding (Gate i p) \<Longrightarrow> gate_check i (shared c) = (s, None) \<Longrightarrow>
    step t c (c\<lparr>shared := s, pcs := (pcs c)(t := In_Sink i p)\<rparr>)"
| sink: "pcs c t = In_Sink i p \<Longrightarrow> sink_submission i p (submissions c) = (u, w) \<Longrightarrow>
    r = Gated (case u of Some x \<Rightarrow> Ok x | None \<Rightarrow> Panic) \<Longrightarrow>
    step t c (c\<lparr>submissions := w, pcs := (pcs c)(t := Leaving r),
                history := history c @ [(t, Gate i p, r)]\<rparr>)"
| release: "pcs c t = Leaving r \<Longrightarrow>
    step t c (c\<lparr>owner := None, poisoned := poisoned c \<or> poisons r, pcs := (pcs c)(t := Idle)\<rparr>)"

inductive reachable :: "PipelineState \<Rightarrow> Config \<Rightarrow> bool" for s where
  start: "reachable s (initial_config s)"
| further: "reachable s c \<Longrightarrow> step t c c' \<Longrightarrow> reachable s c'"

inductive_cases step_cases: "step t c c'"

section \<open>Lemmas: the invariant of the state\<close>

text \<open>The queue is within its capacity and holds frames of the active generation only, in strictly
  increasing sequence order, none beyond the last accepted sequence number.\<close>

definition pipeline_inv :: "PipelineState \<Rightarrow> bool" where
  "pipeline_inv s \<longleftrightarrow>
     0 < capacity s \<and> capacity s \<le> usize_max \<and> length (frames s) \<le> capacity s
     \<and> sorted_wrt (\<lambda>f g. sequence (frame_id f) < sequence (frame_id g)) (frames s)
     \<and> (\<forall>f \<in> set (frames s). generation (frame_id f) = active_generation s
          \<and> (\<exists>l. last_sequence s = Some l \<and> sequence (frame_id f) \<le> l))"

definition acceptable :: "Frame \<Rightarrow> PipelineState \<Rightarrow> bool" where
  "acceptable f s \<longleftrightarrow> generation (frame_id f) = active_generation s
     \<and> (case last_sequence s of None \<Rightarrow> True | Some l \<Rightarrow> l < sequence (frame_id f))"

lemma enqueue_simps:
  assumes "0 < capacity s"
  shows "frames (fst (enqueue f s)) =
      (if length (frames s) = capacity s then tl (frames s) else frames s) @ [f]"
    and "last_sequence (fst (enqueue f s)) = Some (sequence (frame_id f))"
    and "active_generation (fst (enqueue f s)) = active_generation s"
    and "capacity (fst (enqueue f s)) = capacity s"
    and "stats (fst (enqueue f s)) = (stats s)
      \<lparr>accepted := saturating_add (accepted (stats s)) 1,
       dropped_capacity := (if length (frames s) = capacity s
         then saturating_add (dropped_capacity (stats s)) 1 else dropped_capacity (stats s))\<rparr>"
    and "snd (enqueue f s) =
      (if length (frames s) = capacity s then DroppedOldest (frame_id (hd (frames s))) else Queued)"
  using assms by (auto simp: enqueue_def Let_def split: list.split)

lemma submit_acceptable: "acceptable f s \<Longrightarrow> submit f s = enqueue f s"
  by (auto simp: acceptable_def submit_def Let_def not_le split: option.splits)

lemma submit_unacceptable:
  assumes "\<not> acceptable f s" and "submit f s = (s', r)"
  shows "frames s' = frames s \<and> active_generation s' = active_generation s
    \<and> last_sequence s' = last_sequence s \<and> capacity s' = capacity s
    \<and> (generation (frame_id f) \<noteq> active_generation s
         \<and> r = RejectedGeneration (active_generation s) (generation (frame_id f))
         \<and> stats s' = (stats s)\<lparr>rejected_generation := saturating_add (rejected_generation (stats s)) 1\<rparr>
       \<or> (\<exists>l. last_sequence s = Some l \<and> sequence (frame_id f) \<le> l
           \<and> r = RejectedSequence l (sequence (frame_id f))
           \<and> stats s' = (stats s)\<lparr>rejected_sequence := saturating_add (rejected_sequence (stats s)) 1\<rparr>))"
  using assms by (auto simp: acceptable_def submit_def Let_def split: option.splits if_splits)

lemma sorted_wrt_tl: "sorted_wrt P xs \<Longrightarrow> sorted_wrt P (tl xs)"
  by (cases xs) auto

lemma pipeline_inv_enqueue:
  assumes inv: "pipeline_inv s" and acc: "acceptable f s"
  shows "pipeline_inv (fst (enqueue f s))"
proof -
  let ?q = "if length (frames s) = capacity s then tl (frames s) else frames s"
  have cap: "0 < capacity s" using inv by (simp add: pipeline_inv_def)
  have sub: "set ?q \<subseteq> set (frames s)" by (cases "frames s") auto
  have "sequence (frame_id g) < sequence (frame_id f)" if "g \<in> set (frames s)" for g
    using inv acc that by (fastforce simp: pipeline_inv_def acceptable_def split: option.splits)
  moreover have "sorted_wrt (\<lambda>f g. sequence (frame_id f) < sequence (frame_id g)) ?q"
    using inv by (simp add: pipeline_inv_def sorted_wrt_tl)
  moreover have "length ?q < capacity s"
    using inv cap by (auto simp: pipeline_inv_def)
  ultimately show ?thesis
    using inv acc sub unfolding pipeline_inv_def enqueue_simps [OF cap]
    by (auto simp: sorted_wrt_append acceptable_def less_imp_le split: if_splits)
qed

lemma pipeline_inv_submit: "pipeline_inv s \<Longrightarrow> pipeline_inv (fst (submit f s))"
proof (cases "acceptable f s")
  case False
  moreover assume "pipeline_inv s"
  ultimately show ?thesis
    using submit_unacceptable [OF False, of "fst (submit f s)" "snd (submit f s)"]
    by (simp add: pipeline_inv_def)
qed (simp add: submit_acceptable pipeline_inv_enqueue)

lemma pipeline_inv_try_take: "pipeline_inv s \<Longrightarrow> pipeline_inv (fst (try_take s))"
  by (auto simp: pipeline_inv_def try_take_def split: list.split)

lemma pipeline_inv_gate_check: "pipeline_inv s \<Longrightarrow> pipeline_inv (fst (gate_check i s))"
  by (auto simp: pipeline_inv_def gate_check_def)

lemma pipeline_inv_begin_generation: "pipeline_inv s \<Longrightarrow> pipeline_inv (fst (begin_generation g s))"
  by (auto simp: pipeline_inv_def begin_generation_def Let_def)

lemma with_current_generation_eq:
  "with_current_generation i sink s w =
     (case gate_check i s of
        (s, Some m) \<Rightarrow> ((s, w), Err m)
      | (s, None) \<Rightarrow> ((s, snd (sink w)), case fst (sink w) of Some t \<Rightarrow> Ok t | None \<Rightarrow> Panic))"
  by (auto simp: with_current_generation_def split: prod.split option.split)

lemma apply_call_state:
  "fst (fst (apply_call c (s, w))) =
     (case c of Submit f \<Rightarrow> fst (submit f s) | Try_Take \<Rightarrow> fst (try_take s) | Gate i p \<Rightarrow> fst (gate_check i s)
      | Begin_Generation g \<Rightarrow> fst (begin_generation g s) | Snapshot \<Rightarrow> s)"
  by (cases c) (simp_all add: with_current_generation_eq split: prod.split option.split)

lemma pipeline_inv_apply_call: "pipeline_inv s \<Longrightarrow> pipeline_inv (fst (fst (apply_call c (s, w))))"
  unfolding apply_call_state
  by (cases c) (simp_all add: pipeline_inv_submit pipeline_inv_try_take pipeline_inv_gate_check
      pipeline_inv_begin_generation)

lemma FramePipeline_new_inv: "FramePipeline_new cap g = Ok s \<Longrightarrow> cap \<le> usize_max \<Longrightarrow> pipeline_inv s"
  by (auto simp: FramePipeline_new_def pipeline_inv_def split: if_splits)

section \<open>Lemmas: runs of calls\<close>

text \<open>What a run returned: the identifiers taken out, and how many frames each response moved.\<close>

fun taken_id :: "Response \<Rightarrow> FrameId list" where
  "taken_id (Taken (Some f)) = [frame_id f]"
| "taken_id _ = []"

fun n_accepted :: "Response \<Rightarrow> nat" where
  "n_accepted (Submitted Queued) = 1"
| "n_accepted (Submitted (DroppedOldest i)) = 1"
| "n_accepted _ = 0"

fun n_dropped :: "Response \<Rightarrow> nat" where
  "n_dropped (Submitted (DroppedOldest i)) = 1"
| "n_dropped _ = 0"

fun n_taken :: "Response \<Rightarrow> nat" where
  "n_taken (Taken (Some f)) = 1"
| "n_taken _ = 0"

fun n_discarded :: "Response \<Rightarrow> nat" where
  "n_discarded (Began (Ok n)) = n"
| "n_discarded _ = 0"

definition total_of :: "(Response \<Rightarrow> nat) \<Rightarrow> Response list \<Rightarrow> nat" where
  "total_of n rs = sum_list (map n rs)"

lemma total_of_simps [simp]: "total_of n [] = 0" "total_of n (rs @ [r]) = total_of n rs + n r"
  by (simp_all add: total_of_def)

text \<open>The order of frame identifiers: by generation, then by sequence number.\<close>

definition id_less :: "FrameId \<Rightarrow> FrameId \<Rightarrow> bool" where
  "id_less i j \<longleftrightarrow> generation i < generation j \<or> generation i = generation j \<and> sequence i < sequence j"

lemma run_calls_invariant:
  assumes "I sw rs0"
    and "\<And>c sw sw' rs r. I sw rs \<Longrightarrow> apply_call c sw = (sw', r) \<Longrightarrow> I sw' (rs @ [r])"
    and "run_calls cs sw = (sw', rs)"
  shows "I sw' (rs0 @ rs)"
  using assms(1,3)
proof (induction cs arbitrary: sw rs0 rs)
  case (Cons c cs)
  obtain sw1 r where r: "apply_call c sw = (sw1, r)" by fastforce
  with Cons.prems(2) obtain rs1 where rs1: "run_calls cs sw1 = (sw', rs1)" "rs = r # rs1"
    by (auto split: prod.splits)
  from assms(2) [OF Cons.prems(1) r] have "I sw1 (rs0 @ [r])" .
  from Cons.IH [OF this rs1(1)] rs1(2) show ?case by simp
qed simp

definition behind :: "PipelineState \<Rightarrow> FrameId \<Rightarrow> bool" where
  "behind s i \<longleftrightarrow> generation i < active_generation s
     \<or> generation i = active_generation s \<and> (\<exists>l. last_sequence s = Some l \<and> sequence i \<le> l)"

definition order_inv :: "pipeline_world \<Rightarrow> Response list \<Rightarrow> bool" where
  "order_inv sw rs \<longleftrightarrow>
     (let tk = concat (map taken_id rs) in
      pipeline_inv (fst sw) \<and> sorted_wrt id_less (tk @ map frame_id (frames (fst sw)))
      \<and> (\<forall>i \<in> set tk. behind (fst sw) i)
      \<and> sorted (map generation (snd sw)) \<and> (\<forall>i \<in> set (snd sw). generation i \<le> active_generation (fst sw)))"

lemma behind_acceptable: "behind s i \<Longrightarrow> acceptable f s \<Longrightarrow> id_less i (frame_id f)"
  by (auto simp: behind_def acceptable_def id_less_def)

lemma queued_behind: "pipeline_inv s \<Longrightarrow> f \<in> set (frames s) \<Longrightarrow> behind s (frame_id f)"
  by (auto simp: pipeline_inv_def behind_def)

lemma order_inv_submit:
  assumes "order_inv (s, w) rs" and sub: "submit f s = (s', r)"
  shows "order_inv (s', w) (rs @ [Submitted r])"
proof (cases "acceptable f s")
  case True
  let ?tk = "concat (map taken_id rs)"
  let ?q = "if length (frames s) = capacity s then tl (frames s) else frames s"
  from assms(1) have inv: "pipeline_inv s" and sorted: "sorted_wrt id_less (?tk @ map frame_id (frames s))"
    and tk: "\<forall>i \<in> set ?tk. behind s i"
    by (auto simp: order_inv_def Let_def)
  have cap: "0 < capacity s" using inv by (simp add: pipeline_inv_def)
  have s': "s' = fst (enqueue f s)" using sub submit_acceptable [OF True] by simp
  have inv': "pipeline_inv s'" using pipeline_inv_submit [OF inv, of f] sub by simp
  have sub_q: "set ?q \<subseteq> set (frames s)" by (cases "frames s") auto
  have "sorted_wrt id_less (?tk @ map frame_id ?q)"
    using sorted sub_q by (auto simp: sorted_wrt_append map_tl sorted_wrt_tl dest: list.set_sel(2) [rotated])
  then have "sorted_wrt id_less (?tk @ map frame_id (?q @ [f]))"
    using tk sub_q queued_behind [OF inv] behind_acceptable [OF _ True] by (auto simp: sorted_wrt_append)
  moreover have "behind s' i" if "behind s i" for i
    using that True unfolding s' behind_def enqueue_simps [OF cap] 
    by (auto simp: acceptable_def)
  ultimately show ?thesis
    using assms(1) inv' tk unfolding order_inv_def Let_def
    by (auto simp: s' enqueue_simps [OF cap])
next
  case False
  from submit_unacceptable [OF False sub] assms(1) show ?thesis
    by (auto simp: order_inv_def Let_def pipeline_inv_def behind_def)
qed

lemma order_inv_try_take:
  assumes "order_inv (s, w) rs" and "try_take s = (s', r)"
  shows "order_inv (s', w) (rs @ [Taken r])"
proof (cases "frames s")
  case Nil
  with assms show ?thesis by (auto simp: try_take_def order_inv_def Let_def)
next
  case (Cons f q)
  have inv: "pipeline_inv s" using assms(1) by (simp add: order_inv_def Let_def)
  from Cons assms(2) have r: "r = Some f" "frames s' = q" "active_generation s' = active_generation s"
    "last_sequence s' = last_sequence s"
    by (auto simp: try_take_def)
  have "behind s (frame_id f)" using queued_behind [OF inv] Cons by simp
  moreover have "behind s' i \<longleftrightarrow> behind s i" for i by (simp add: behind_def r)
  ultimately show ?thesis
    using assms pipeline_inv_try_take [OF inv] Cons r by (auto simp: order_inv_def Let_def)
qed

lemma order_inv_gate:
  assumes "order_inv (s, w) rs" and "with_current_generation i (sink_submission i p) s w = (sw', r)"
  shows "order_inv sw' (rs @ [Gated r])"
proof -
  have inv: "pipeline_inv s" using assms(1) by (simp add: order_inv_def Let_def)
  have same: "frames (fst (gate_check i s)) = frames s" "active_generation (fst (gate_check i s)) = active_generation s"
    "last_sequence (fst (gate_check i s)) = last_sequence s"
    "snd (gate_check i s) = None \<longleftrightarrow> generation i = active_generation s"
    by (auto simp: gate_check_def)
  from assms(2) have sw': "sw' = (fst (gate_check i s), if generation i = active_generation s then w @ [i] else w)"
    using same(4) by (auto simp: with_current_generation_eq sink_submission_def split: prod.splits option.splits)
  have "behind (fst (gate_check i s)) j \<longleftrightarrow> behind s j" for j by (simp add: behind_def same)
  then show ?thesis
    using assms(1) pipeline_inv_gate_check [OF inv] unfolding sw' order_inv_def Let_def
    by (auto simp: same sorted_append)
qed

lemma order_inv_begin_generation:
  assumes "order_inv (s, w) rs" and "begin_generation g s = (s', r)"
  shows "order_inv (s', w) (rs @ [Began r])"
proof (cases "g \<le> active_generation s")
  case True
  with assms show ?thesis by (auto simp: begin_generation_def order_inv_def Let_def)
next
  case False
  then have new: "active_generation s' = g" "frames s' = []" and lt: "active_generation s < g"
    using assms(2) by (auto simp: begin_generation_def Let_def)
  have inv: "pipeline_inv s'"
    using assms pipeline_inv_begin_generation [of s g] by (simp add: order_inv_def Let_def)
  have "behind s' i" if "behind s i" for i
    using that lt by (auto simp: behind_def new)
  moreover have "x \<le> active_generation s \<Longrightarrow> x \<le> g" for x using lt by simp
  ultimately show ?thesis
    using assms(1) inv by (auto simp: order_inv_def Let_def new sorted_wrt_append)
qed

lemma order_inv_apply_call:
  assumes "order_inv sw rs" and "apply_call c sw = (sw', r)"
  shows "order_inv sw' (rs @ [r])"
proof -
  obtain s w where sw: "sw = (s, w)" by fastforce
  show ?thesis
  proof (cases c)
    case Snapshot
    with assms sw show ?thesis by (auto simp: order_inv_def Let_def)
  qed (use assms sw in \<open>auto split: prod.splits
        intro: order_inv_submit order_inv_try_take order_inv_gate order_inv_begin_generation\<close>)
qed

lemma order_inv_start: "FramePipeline_new cap g = Ok s \<Longrightarrow> cap \<le> usize_max \<Longrightarrow> order_inv (s, []) []"
  using FramePipeline_new_inv [of cap g s]
  by (auto simp: order_inv_def FramePipeline_new_def split: if_splits)

lemma order_inv_run:
  assumes "FramePipeline_new cap g = Ok s" and "cap \<le> usize_max" and "run_calls cs (s, []) = (sw', rs)"
  shows "order_inv sw' rs"
  using run_calls_invariant [of order_inv, OF order_inv_start [OF assms(1,2)] order_inv_apply_call assms(3)] by simp

text \<open>The counters: each is the number of its events, up to saturation, and every accepted frame is
  in the queue, was taken, was dropped for a newer one, or was discarded with its generation.\<close>

definition saturated :: "u64 \<Rightarrow> nat \<Rightarrow> bool" where
  "saturated c n \<longleftrightarrow> unat c = min n (unat u64_max)"

lemma saturated_zero: "saturated 0 0"
  by (simp add: saturated_def)

lemma saturated_add: "saturated c n \<Longrightarrow> m < 2 ^ 64 \<Longrightarrow> saturated (saturating_add c (of_nat m)) (n + m)"
  by (auto simp: saturated_def saturating_add_unat unat_of_nat const_simps)

lemma saturated_Suc: "saturated c n \<Longrightarrow> saturated (saturating_add c 1) (Suc n)"
  using saturated_add [of c n 1] by simp

definition count_inv :: "pipeline_world \<Rightarrow> Response list \<Rightarrow> bool" where
  "count_inv sw rs \<longleftrightarrow>
     (let s = fst sw; k = stats s in
      pipeline_inv s
      \<and> total_of n_accepted rs = total_of n_taken rs + total_of n_dropped rs + total_of n_discarded rs + length (frames s)
      \<and> saturated (accepted k) (total_of n_accepted rs) \<and> saturated (dequeued k) (total_of n_taken rs)
      \<and> saturated (dropped_capacity k) (total_of n_dropped rs)
      \<and> saturated (discarded_generation k) (total_of n_discarded rs))"

lemma count_inv_submit:
  assumes "count_inv (s, w) rs" and sub: "submit f s = (s', r)"
  shows "count_inv (s', w) (rs @ [Submitted r])"
proof (cases "acceptable f s")
  case True
  have inv: "pipeline_inv s" using assms(1) by (simp add: count_inv_def Let_def)
  then have cap: "0 < capacity s" by (simp add: pipeline_inv_def)
  have s': "s' = fst (enqueue f s)" "r = snd (enqueue f s)" using sub submit_acceptable [OF True] by auto
  have "pipeline_inv s'" using pipeline_inv_submit [OF inv, of f] sub by simp
  moreover have "frames s \<noteq> []" if "length (frames s) = capacity s" using that cap by auto
  ultimately show ?thesis
    using assms(1) cap unfolding count_inv_def Let_def fst_conv s' enqueue_simps [OF cap]
    by (auto simp: saturated_Suc)
next
  case False
  from submit_unacceptable [OF False sub] assms(1) show ?thesis
    by (auto simp: count_inv_def Let_def pipeline_inv_def)
qed

lemma count_inv_apply_call:
  assumes "count_inv sw rs" and "apply_call c sw = (sw', r)"
  shows "count_inv sw' (rs @ [r])"
proof -
  obtain s w where sw: "sw = (s, w)" by fastforce
  have inv: "pipeline_inv s" using assms(1) by (simp add: count_inv_def Let_def sw)
  then have inv': "pipeline_inv (fst sw')" using pipeline_inv_apply_call [of s c w] assms(2) sw by simp
  show ?thesis
  proof (cases c)
    case (Submit f)
    with assms sw show ?thesis by (auto split: prod.splits intro: count_inv_submit)
  next
    case Try_Take
    with assms sw inv' show ?thesis
      by (auto simp: count_inv_def Let_def try_take_def saturated_Suc split: prod.splits list.splits)
  next
    case (Gate i p)
    with assms sw inv' show ?thesis
      by (auto simp: count_inv_def Let_def with_current_generation_eq gate_check_def
          split: prod.splits option.splits if_splits)
  next
    case (Begin_Generation g)
    have "length (frames s) < 2 ^ 64" using inv by (auto simp: pipeline_inv_def usize_max_def)
    then have "saturated (discarded_generation (stats s)) n \<Longrightarrow>
        saturated (saturating_add (discarded_generation (stats s)) (of_nat (length (frames s)))) (n + length (frames s))" for n
      by (rule saturated_add [rotated])
    with Begin_Generation assms sw inv' show ?thesis
      by (auto simp: count_inv_def Let_def begin_generation_def split: prod.splits if_splits)
  next
    case Snapshot
    with assms sw inv' show ?thesis by (auto simp: count_inv_def Let_def)
  qed
qed

lemma count_inv_run:
  assumes "FramePipeline_new cap g = Ok s" and "cap \<le> usize_max" and "run_calls cs (s, []) = (sw', rs)"
  shows "count_inv sw' rs"
proof -
  have "count_inv (s, []) []"
    using FramePipeline_new_inv [OF assms(1,2)] assms(1)
    by (auto simp: count_inv_def Let_def FramePipeline_new_def PipelineStats_default_def saturated_zero split: if_splits)
  from run_calls_invariant [of count_inv, OF this count_inv_apply_call assms(3)] show ?thesis by simp
qed

section \<open>The contract of a drop-oldest queue\<close>

text \<open>
  A bounded queue that makes room by dropping its oldest element. A consumer relies on these laws
  alone: whatever is pushed, the queue holds the newest elements in order.
\<close>

fun accepts_all :: "('f \<Rightarrow> 's \<Rightarrow> bool) \<Rightarrow> ('f \<Rightarrow> 's \<Rightarrow> 's) \<Rightarrow> 'f list \<Rightarrow> 's \<Rightarrow> bool" where
  "accepts_all accepts push [] s = True"
| "accepts_all accepts push (f # fs) s = (accepts f s \<and> accepts_all accepts push fs (push f s))"

locale drop_oldest_queue =
  fixes push :: "'f \<Rightarrow> 's \<Rightarrow> 's"
    and contents :: "'s \<Rightarrow> 'f list"
    and room :: "'s \<Rightarrow> nat"
    and accepts :: "'f \<Rightarrow> 's \<Rightarrow> bool"
    and valid :: "'s \<Rightarrow> bool"
  assumes push_contents: "valid s \<Longrightarrow> accepts f s \<Longrightarrow> contents (push f s) =
      (if length (contents s) = room s then tl (contents s) else contents s) @ [f]"
    and push_room: "valid s \<Longrightarrow> accepts f s \<Longrightarrow> room (push f s) = room s"
    and push_valid: "valid s \<Longrightarrow> valid (push f s)"
    and bounded: "valid s \<Longrightarrow> 0 < room s \<and> length (contents s) \<le> room s"
begin

lemma keeps_newest:
  assumes "valid s" and "accepts_all accepts push fs s"
  shows "contents (fold push fs s) = drop (length (contents s @ fs) - room s) (contents s @ fs)"
  using assms
proof (induction fs arbitrary: s)
  case Nil
  then show ?case using bounded [of s] by simp
next
  case (Cons f fs)
  then have acc: "accepts f s" and rest: "accepts_all accepts push fs (push f s)" by simp_all
  have IH: "contents (fold push (f # fs) s) =
      drop (length (contents (push f s) @ fs) - room s) (contents (push f s) @ fs)"
    using Cons.IH [OF push_valid [OF Cons.prems(1)] rest] push_room [OF Cons.prems(1) acc] by simp
  show ?case
  proof (cases "length (contents s) = room s")
    case True
    with bounded [OF Cons.prems(1)] obtain x q where q: "contents s = x # q"
      by (cases "contents s") auto
    with True have "room s = Suc (length q)" by simp
    with IH True q push_contents [OF Cons.prems(1) acc] show ?thesis by (simp add: Suc_diff_le)
  next
    case False
    with IH push_contents [OF Cons.prems(1) acc] show ?thesis by simp
  qed
qed

lemma newest_bounded:
  assumes "valid s" and "accepts_all accepts push fs s"
  shows "length (contents (fold push fs s)) = min (room s) (length (contents s) + length fs)"
  unfolding keeps_newest [OF assms] length_drop length_append by linarith

end

interpretation submit_queue: drop_oldest_queue
  "\<lambda>f s. fst (submit f s)" frames capacity acceptable pipeline_inv
proof
  fix s f
  assume inv: "pipeline_inv s"
  then have cap: "0 < capacity s" by (simp add: pipeline_inv_def)
  show "pipeline_inv (fst (submit f s))" using inv by (rule pipeline_inv_submit)
  show "0 < capacity s \<and> length (frames s) \<le> capacity s" using inv by (simp add: pipeline_inv_def)
  assume "acceptable f s"
  then have "submit f s = enqueue f s" by (rule submit_acceptable)
  then show "frames (fst (submit f s)) = (if length (frames s) = capacity s then tl (frames s) else frames s) @ [f]"
    and "capacity (fst (submit f s)) = capacity s"
    by (simp_all only: enqueue_simps [OF cap])
qed

text \<open>A strictly increasing burst of frames of the active generation is accepted as a whole.\<close>

lemma accepts_burst:
  assumes "pipeline_inv s" and "\<forall>f \<in> set fs. acceptable f s"
    and "sorted_wrt (\<lambda>f g. sequence (frame_id f) < sequence (frame_id g)) fs"
  shows "accepts_all acceptable (\<lambda>f s. fst (submit f s)) fs s"
  using assms
proof (induction fs arbitrary: s)
  case (Cons f fs)
  then have acc: "acceptable f s" and cap: "0 < capacity s" by (simp_all add: pipeline_inv_def)
  have "\<forall>g \<in> set fs. acceptable g (fst (submit f s))"
    using Cons.prems(2,3) unfolding submit_acceptable [OF acc] acceptable_def enqueue_simps [OF cap] by auto
  with Cons acc show ?case by (simp add: pipeline_inv_submit)
qed simp

lemma run_submits:
  "fst (run_calls (map Submit fs) (s, w)) = (fold (\<lambda>f s. fst (submit f s)) fs s, w)"
  by (induction fs arbitrary: s) (simp_all add: case_prod_unfold)

lemma run_takes:
  "snd (run_calls (replicate (length (frames s)) Try_Take) (s, w)) = map (\<lambda>f. Taken (Some f)) (frames s)"
proof (induction "frames s" arbitrary: s)
  case (Cons f q)
  define s' where "s' = fst (try_take s)"
  have "try_take s = (s', Some f)" "frames s' = q"
    by (simp_all add: s'_def try_take_def Cons(2) [symmetric])
  with Cons(1) [of s'] Cons(2) [symmetric] show ?case by (simp add: case_prod_unfold)
qed simp

section \<open>Lemmas: threads\<close>

fun in_section :: "Pc \<Rightarrow> bool" where
  "in_section (Holding call) = True"
| "in_section (In_Sink i p) = True"
| "in_section (Leaving r) = True"
| "in_section _ = False"

lemma run_calls_snoc:
  "run_calls (cs @ [c]) sw =
     (case run_calls cs sw of (sw, rs) \<Rightarrow> case apply_call c sw of (sw, r) \<Rightarrow> (sw, rs @ [r]))"
  by (induction cs arbitrary: sw) (auto split: prod.split)

definition calls_of :: "Config \<Rightarrow> Call list" where
  "calls_of c = map (\<lambda>(t, call, r). call) (history c)"

definition responses_of :: "Config \<Rightarrow> Response list" where
  "responses_of c = map (\<lambda>(t, call, r). r) (history c)"

definition thread_inv :: "PipelineState \<Rightarrow> Config \<Rightarrow> bool" where
  "thread_inv s0 c \<longleftrightarrow>
     run_calls (calls_of c) (s0, []) = ((shared c, submissions c), responses_of c)
     \<and> (\<forall>t. in_section (pcs c t) \<longleftrightarrow> owner c = Some t)
     \<and> (\<forall>t i p. pcs c t = In_Sink i p \<longrightarrow> gate_check i (shared c) = (shared c, None))"

lemma gate_check_None: "gate_check i s = (s', None) \<longleftrightarrow> s' = s \<and> generation i = active_generation s"
  by (auto simp: gate_check_def)

lemma section_alone:
  assumes "thread_inv s0 c" and "in_section (pcs c t)"
  shows "owner c = Some t" and "u \<noteq> t \<Longrightarrow> pcs c u \<noteq> In_Sink i p"
proof -
  have iff: "\<And>u. in_section (pcs c u) \<longleftrightarrow> owner c = Some u" using assms(1) by (simp add: thread_inv_def)
  then show own: "owner c = Some t" using assms(2) by simp
  show "u \<noteq> t \<Longrightarrow> pcs c u \<noteq> In_Sink i p" using iff [of u] own by auto
qed

lemma thread_inv_step:
  assumes "thread_inv s0 c" and "step t c c'"
  shows "thread_inv s0 c'"
  using assms(2)
proof cases
  case (body call s w r)
  then have "in_section (pcs c t)" by simp
  note own = section_alone [OF assms(1) this]
  with body assms(1) show ?thesis
    by (auto simp: thread_inv_def calls_of_def responses_of_def run_calls_snoc split: if_splits) 
next
  case (sink i p u w r)
  then have "in_section (pcs c t)" by simp
  note own = section_alone [OF assms(1) this]
  have "gate_check i (shared c) = (shared c, None)" using assms(1) sink by (auto simp: thread_inv_def)
  with sink own assms(1) show ?thesis
    by (auto simp: thread_inv_def calls_of_def responses_of_def run_calls_snoc with_current_generation_eq
        split: if_splits option.splits) 
next
  case (gate_reject i p s m)
  then have "in_section (pcs c t)" by simp
  note own = section_alone [OF assms(1) this]
  with gate_reject assms(1) show ?thesis
    by (auto simp: thread_inv_def calls_of_def responses_of_def run_calls_snoc with_current_generation_eq
        split: if_splits)
next
  case (gate_enter i p s)
  then have "in_section (pcs c t)" by simp
  note own = section_alone [OF assms(1) this]
  with gate_enter assms(1) show ?thesis
    by (auto simp: thread_inv_def calls_of_def responses_of_def gate_check_None split: if_splits)
next
  case (release r)
  then have "in_section (pcs c t)" by simp
  note own = section_alone [OF assms(1) this]
  with release assms(1) show ?thesis
    by (auto simp: thread_inv_def calls_of_def responses_of_def split: if_splits)
next
  case (invoke call)
  then have "\<not> in_section (pcs c t)" by simp
  then have "owner c \<noteq> Some t" using assms(1) by (simp add: thread_inv_def)
  with invoke assms(1) show ?thesis
    by (auto simp: thread_inv_def calls_of_def responses_of_def split: if_splits)
next
  case (lock_state call)
  with assms(1) show ?thesis
    by (auto simp: thread_inv_def calls_of_def responses_of_def split: if_splits)
qed

lemma thread_inv_reachable: "reachable s c \<Longrightarrow> thread_inv s c"
proof (induction rule: reachable.induct)
  case start
  show ?case by (simp add: thread_inv_def initial_config_def calls_of_def responses_of_def)
next
  case (further c t c')
  then show ?case by (blast intro: thread_inv_step)
qed

text \<open>How many steps the holder of the mutex has left at most before it releases it.\<close>

fun section_rank :: "Pc \<Rightarrow> nat" where
  "section_rank (Holding call) = 3"
| "section_rank (In_Sink i p) = 2"
| "section_rank (Leaving r) = 1"
| "section_rank _ = 0"

lemma section_step: "in_section (pcs c t) \<Longrightarrow> \<exists>c'. step t c c'"
proof (cases "pcs c t")
  case (Holding call)
  show ?thesis
  proof (cases "\<exists>i p. call = Gate i p")
    case True
    then obtain i p where call: "call = Gate i p" by blast
    obtain s u where "gate_check i (shared c) = (s, u)" by fastforce
    then show ?thesis using Holding call
      by (cases u) (blast intro: step.gate_enter step.gate_reject)+
  next
    case False
    obtain s w r where "apply_call call (shared c, submissions c) = ((s, w), r)"
      by (metis prod.exhaust)
    then show ?thesis using Holding False by (blast intro: step.body)
  qed
next
  case (In_Sink i p)
  then show ?thesis by (metis step.sink prod.exhaust)
next
  case (Leaving r)
  then show ?thesis by (blast intro: step.release)
qed simp_all

lemma section_progress:
  "in_section (pcs c t) \<Longrightarrow> step t c c' \<Longrightarrow> section_rank (pcs c' t) < section_rank (pcs c t)"
  by (erule step_cases) auto

lemma other_step_shared:
  assumes "thread_inv s0 c" and "in_section (pcs c t)" and "u \<noteq> t" and "step u c c'"
  shows "shared c' = shared c"
proof -
  have iff: "\<And>u. in_section (pcs c u) \<longleftrightarrow> owner c = Some u" using assms(1) by (simp add: thread_inv_def)
  then have "\<not> in_section (pcs c u)" using assms(2,3) by simp
  with assms(4) show ?thesis by (elim step_cases) auto
qed

lemma order_inv_reachable:
  assumes "FramePipeline_new cap g = Ok s" and "cap \<le> usize_max" and "reachable s c"
  shows "order_inv (shared c, submissions c) (responses_of c)"
  using order_inv_run [OF assms(1,2)] thread_inv_reachable [OF assms(3)] unfolding thread_inv_def by blast

lemma submit_capacity: "capacity (fst (submit f s)) = capacity s"
  by (auto simp: submit_def enqueue_def Let_def split: option.split list.split)

lemma step_capacity: "step t c c' \<Longrightarrow> capacity (shared c') = capacity (shared c)"
proof (erule step_cases)
  fix call s w r
  assume c': "c' = c\<lparr>shared := s, submissions := w, pcs := (pcs c)(t := Leaving r),
      history := history c @ [(t, call, r)]\<rparr>"
    and "apply_call call (shared c, submissions c) = ((s, w), r)"
  then have "s = fst (fst (apply_call call (shared c, submissions c)))" by simp
  then have "capacity s = capacity (shared c)"
    unfolding apply_call_state
    by (cases call) (auto simp: submit_capacity try_take_def gate_check_def begin_generation_def Let_def
        split: list.split)
  with c' show "capacity (shared c') = capacity (shared c)" by simp
qed (auto simp: gate_check_def split: if_splits)

section \<open>A concrete history\<close>

definition demo_frame :: "u64 \<Rightarrow> u64 \<Rightarrow> Frame" where
  "demo_frame g n = \<lparr>frame_id = \<lparr>generation = g, sequence = n\<rparr>,
     frame_layout = \<lparr>width = 1, height = 1, stride = 4, byte_len = 4\<rparr>, pixels = [0, 0, 0, 0]\<rparr>"

definition demo_state :: PipelineState where
  "demo_state = \<lparr>active_generation = 7, capacity = 2, last_sequence = None, frames = [],
     stats = PipelineStats_default\<rparr>"

lemma demo_state_new: "FramePipeline_new 2 7 = Ok demo_state"
  by (simp add: FramePipeline_new_def demo_state_def)

text \<open>Thread 0 submits to the sink and panics there; thread 1 waits to begin generation 8.\<close>

lemma demo_reachable:
  "\<exists>c. reachable demo_state c \<and> poisoned c \<and> owner c = None \<and> pcs c 1 = Waiting (Begin_Generation 8)
     \<and> submissions c = [\<lparr>generation = 7, sequence = 3\<rparr>]"
proof -
  let ?i = "\<lparr>generation = 7, sequence = 3\<rparr> :: FrameId"
  let ?g = "Gate ?i True"
  let ?c0 = "initial_config demo_state"
  let ?c1 = "?c0\<lparr>pcs := (pcs ?c0)(0 := Waiting ?g)\<rparr>"
  let ?c2 = "?c1\<lparr>owner := Some 0, pcs := (pcs ?c1)(0 := Holding ?g)\<rparr>"
  let ?c3 = "?c2\<lparr>shared := demo_state, pcs := (pcs ?c2)(0 := In_Sink ?i True)\<rparr>"
  let ?c4 = "?c3\<lparr>pcs := (pcs ?c3)(1 := Waiting (Begin_Generation 8))\<rparr>"
  let ?c5 = "?c4\<lparr>submissions := [?i], pcs := (pcs ?c4)(0 := Leaving (Gated Panic)),
      history := history ?c4 @ [(0, ?g, Gated Panic)]\<rparr>"
  let ?c6 = "?c5\<lparr>owner := None, poisoned := poisoned ?c5 \<or> poisons (Gated Panic), pcs := (pcs ?c5)(0 := Idle)\<rparr>"
  have "step 0 ?c0 ?c1" by (rule step.invoke) (simp add: initial_config_def)
  moreover have "step 0 ?c1 ?c2" by (rule step.lock_state) (simp_all add: initial_config_def)
  moreover have "step 0 ?c2 ?c3"
    by (rule step.gate_enter) (simp_all add: initial_config_def gate_check_def demo_state_def)
  moreover have "step 1 ?c3 ?c4" by (rule step.invoke) (simp add: initial_config_def)
  moreover have "step 0 ?c4 ?c5"
    by (rule step.sink [where u = None]) (simp_all add: initial_config_def sink_submission_def)
  moreover have "step 0 ?c5 ?c6" by (rule step.release) simp
  ultimately have "reachable demo_state ?c6" by (meson reachable.intros)
  then show ?thesis by (rule exI [of _ ?c6, OF conjI]) simp
qed

section \<open>Properties\<close>

text \<open>C1: the pipeline is linearizable. In every interleaving of any number of threads the shared state,
  the sink's submissions and every response are those of running the completed calls one after
  the other, in the order of their bodies, on the initial state.\<close>

theorem pipeline_linearizable:
  assumes "reachable s c"
  shows "run_calls (calls_of c) (s, []) = ((shared c, submissions c), responses_of c)"
  using thread_inv_reachable [OF assms] by (simp add: thread_inv_def)

theorem pipeline_linearizable_witness:
  "\<exists>c. submissions c = [\<lparr>generation = 7, sequence = 3\<rparr>]
     \<and> run_calls (calls_of c) (demo_state, []) = ((shared c, submissions c), responses_of c)"
  using demo_reachable pipeline_linearizable by blast

text \<open>C4: the sink gate is safe. While a closure of \<open>with_current_generation\<close> is about to run, its frame
  belongs to the active generation and no other thread can change the state, so no transition
  comes between the check and the submission; and the submissions ever made have non-decreasing
  generations, none beyond the active one: nothing is submitted for a generation that ended.\<close>

theorem sink_gate_safe:
  assumes "FramePipeline_new cap g = Ok s" and "cap \<le> usize_max" and "reachable s c"
  shows "(\<forall>t i p. pcs c t = In_Sink i p \<longrightarrow>
        owner c = Some t \<and> generation i = active_generation (shared c)
        \<and> (\<forall>u c'. u \<noteq> t \<and> step u c c' \<longrightarrow> shared c' = shared c \<and> pcs c' t = In_Sink i p))
    \<and> sorted (map generation (submissions c))
    \<and> list_all (\<lambda>i. generation i \<le> active_generation (shared c)) (submissions c)"
proof (intro conjI allI impI)
  note inv = thread_inv_reachable [OF assms(3)]
  fix t i p
  assume pc: "pcs c t = In_Sink i p"
  then have sec: "in_section (pcs c t)" by simp
  show "owner c = Some t" using section_alone(1) [OF inv sec] .
  show "generation i = active_generation (shared c)"
    using inv pc gate_check_None unfolding thread_inv_def by blast
  fix u c'
  assume u: "u \<noteq> t \<and> step u c c'"
  then show "shared c' = shared c" using other_step_shared [OF inv sec] by blast
  from u have "step u c c'" by blast
  then have "\<exists>pc. pcs c' = (pcs c)(u := pc)" by (elim step_cases) auto
  with u pc show "pcs c' t = In_Sink i p" by auto
qed (use order_inv_reachable [OF assms] in \<open>simp_all add: order_inv_def Let_def list_all_iff\<close>)

theorem sink_gate_safe_witness:
  "\<exists>c. reachable demo_state c \<and> submissions c = [\<lparr>generation = 7, sequence = 3\<rparr>]
     \<and> list_all (\<lambda>i. generation i \<le> active_generation (shared c)) (submissions c)"
proof -
  obtain c where c: "reachable demo_state c" "submissions c = [\<lparr>generation = 7, sequence = 3\<rparr>]"
    using demo_reachable by blast
  have "2 \<le> usize_max" by (simp add: usize_max_def)
  from sink_gate_safe [OF demo_state_new this c(1)] c show ?thesis by blast
qed

text \<open>C7: the pipeline never blocks for good, even after a sink closure panicked and poisoned the
  mutex: a waiting thread can take a free mutex, and the holder of the mutex can always move on
  and releases it after at most three of its own steps.\<close>

theorem pipeline_no_deadlock:
  assumes "reachable s c" and "pcs c t = Waiting call"
  shows "(owner c = None \<and> (\<exists>c'. step t c c'))
    \<or> (\<exists>u. owner c = Some u \<and> (\<exists>c'. step u c c') \<and> section_rank (pcs c u) \<le> 3
        \<and> (\<forall>c'. step u c c' \<longrightarrow> section_rank (pcs c' u) < section_rank (pcs c u)
             \<and> (section_rank (pcs c' u) = 0 \<longrightarrow> owner c' = None)))"
proof (cases "owner c")
  case None
  then show ?thesis using step.lock_state [OF assms(2)] by blast
next
  case (Some u)
  then have sec: "in_section (pcs c u)" using thread_inv_reachable [OF assms(1)] by (simp add: thread_inv_def)
  have "section_rank pc \<le> 3" for pc by (cases pc) simp_all
  moreover have "owner c' = None" if "step u c c'" "section_rank (pcs c' u) = 0" for c'
    using that sec by (elim step_cases) auto
  ultimately show ?thesis using Some section_step [OF sec] section_progress [OF sec] by blast
qed

theorem pipeline_no_deadlock_witness:
  "\<exists>c. reachable demo_state c \<and> poisoned c \<and> (\<exists>c'. step 1 c c')"
proof -
  obtain c where c: "reachable demo_state c" "poisoned c" "owner c = None"
    "pcs c 1 = Waiting (Begin_Generation 8)"
    using demo_reachable by blast
  with pipeline_no_deadlock [OF c(1,4)] show ?thesis by auto
qed

text \<open>C8: in every interleaving the queue is within its capacity, holds frames of the active generation
  only, and holds them in strictly increasing sequence order up to the last accepted one.\<close>

theorem pipeline_state_invariant:
  assumes "FramePipeline_new cap g = Ok s" and "cap \<le> usize_max" and "reachable s c"
  shows "length (frames (shared c)) \<le> cap
    \<and> list_all (\<lambda>f. generation (frame_id f) = active_generation (shared c)
        \<and> (\<exists>l. last_sequence (shared c) = Some l \<and> sequence (frame_id f) \<le> l)) (frames (shared c))
    \<and> sorted_wrt (\<lambda>f h. sequence (frame_id f) < sequence (frame_id h)) (frames (shared c))"
proof -
  have "pipeline_inv (shared c)" using order_inv_reachable [OF assms] by (simp add: order_inv_def Let_def)
  moreover have "capacity (shared c) = cap"
    using assms(3)
  proof (induction rule: reachable.induct)
    case start
    then show ?case using assms(1) by (auto simp: initial_config_def FramePipeline_new_def split: if_splits)
  next
    case (further c t c')
    then show ?case by (metis step_capacity)
  qed
  ultimately show ?thesis by (simp add: pipeline_inv_def list_all_iff)
qed

theorem pipeline_state_invariant_witness:
  "\<exists>c. reachable demo_state c \<and> length (frames (shared c)) \<le> 2"
proof -
  obtain c where c: "reachable demo_state c" using demo_reachable by blast
  have "2 \<le> usize_max" by (simp add: usize_max_def)
  from pipeline_state_invariant [OF demo_state_new this c] c show ?thesis by blast
qed

text \<open>C17: the consumer sees frames in order: over any sequence of calls on a new pipeline, the
  identifiers that \<open>try_take\<close> returns, followed by those still queued, strictly increase, by
  generation and then by sequence number; no frame is delivered twice or after a newer one.\<close>

theorem taken_in_order:
  assumes "FramePipeline_new cap g = Ok s" and "cap \<le> usize_max"
    and "run_calls cs (s, []) = ((s', w), rs)"
  shows "sorted_wrt id_less (concat (map taken_id rs) @ map frame_id (frames s'))"
  using order_inv_run [OF assms] by (simp add: order_inv_def Let_def)

theorem taken_in_order_witness:
  "\<exists>s' w rs. run_calls [Submit (demo_frame 7 0), Submit (demo_frame 7 1), Submit (demo_frame 7 2), Try_Take]
       (demo_state, []) = ((s', w), rs)
     \<and> sorted_wrt id_less (concat (map taken_id rs) @ map frame_id (frames s'))"
proof -
  let ?cs = "[Submit (demo_frame 7 0), Submit (demo_frame 7 1), Submit (demo_frame 7 2), Try_Take]"
  obtain s' w rs where run: "run_calls ?cs (demo_state, []) = ((s', w), rs)" by (metis prod.exhaust)
  have "2 \<le> usize_max" by (simp add: usize_max_def)
  from taken_in_order [OF demo_state_new this run] run show ?thesis by blast
qed

text \<open>C18: no frame is lost unaccounted. Over any sequence of calls on a new pipeline the accepted frames
  are exactly the taken, the dropped, the discarded and the queued ones in number, and the four
  counters are these numbers, saturating at the largest \<open>u64\<close>.\<close>

theorem pipeline_conservation:
  assumes "FramePipeline_new cap g = Ok s" and "cap \<le> usize_max"
    and "run_calls cs (s, []) = ((s', w), rs)"
  shows "total_of n_accepted rs =
      total_of n_taken rs + total_of n_dropped rs + total_of n_discarded rs + length (frames s')
    \<and> unat (accepted (stats s')) = min (total_of n_accepted rs) (2 ^ 64 - 1)
    \<and> unat (dequeued (stats s')) = min (total_of n_taken rs) (2 ^ 64 - 1)
    \<and> unat (dropped_capacity (stats s')) = min (total_of n_dropped rs) (2 ^ 64 - 1)
    \<and> unat (discarded_generation (stats s')) = min (total_of n_discarded rs) (2 ^ 64 - 1)"
  using count_inv_run [OF assms] by (simp add: count_inv_def Let_def saturated_def u64_max_def)

theorem pipeline_conservation_witness:
  "\<exists>s' w rs. run_calls [Submit (demo_frame 7 0), Try_Take, Submit (demo_frame 7 1), Begin_Generation 8]
       (demo_state, []) = ((s', w), rs)
     \<and> total_of n_accepted rs =
      total_of n_taken rs + total_of n_dropped rs + total_of n_discarded rs + length (frames s')"
proof -
  let ?cs = "[Submit (demo_frame 7 0), Try_Take, Submit (demo_frame 7 1), Begin_Generation 8]"
  obtain s' w rs where run: "run_calls ?cs (demo_state, []) = ((s', w), rs)" by (metis prod.exhaust)
  have "2 \<le> usize_max" by (simp add: usize_max_def)
  from pipeline_conservation [OF demo_state_new this run] run show ?thesis by blast
qed

text \<open>C19: a slow consumer gets the newest frames. After a burst of frames of the active generation with
  increasing sequence numbers on a new pipeline, the queue is the last \<open>capacity\<close> of them, and
  draining it returns exactly these, oldest first.\<close>

theorem newest_frames_kept:
  assumes "FramePipeline_new cap g = Ok s" and "cap \<le> usize_max"
    and "list_all (\<lambda>f. generation (frame_id f) = g) fs"
    and "sorted_wrt (\<lambda>f h. sequence (frame_id f) < sequence (frame_id h)) fs"
  shows "run_calls (map Submit fs) (s, []) = ((s', w), rs) \<longrightarrow>
    frames s' = drop (length fs - cap) fs
    \<and> snd (run_calls (replicate (min cap (length fs)) Try_Take) (s', w))
        = map (\<lambda>f. Taken (Some f)) (drop (length fs - cap) fs)"
proof
  assume run: "run_calls (map Submit fs) (s, []) = ((s', w), rs)"
  have inv: "pipeline_inv s" using FramePipeline_new_inv [OF assms(1,2)] .
  have s: "frames s = []" "capacity s = cap" "active_generation s = g" "last_sequence s = None"
    using assms(1) by (auto simp: FramePipeline_new_def split: if_splits)
  have acc: "accepts_all acceptable (\<lambda>f s. fst (submit f s)) fs s"
    using accepts_burst [OF inv _ assms(4)] assms(3) by (simp add: acceptable_def s list_all_iff)
  have s': "s' = fold (\<lambda>f s. fst (submit f s)) fs s" using run_submits [of fs s "[]"] run by simp
  show "frames s' = drop (length fs - cap) fs
    \<and> snd (run_calls (replicate (min cap (length fs)) Try_Take) (s', w))
        = map (\<lambda>f. Taken (Some f)) (drop (length fs - cap) fs)"
    using submit_queue.keeps_newest [OF inv acc] submit_queue.newest_bounded [OF inv acc] run_takes [of s' w]
    by (simp add: s' s)
qed

theorem newest_frames_kept_witness:
  "\<exists>s' w rs. run_calls (map Submit [demo_frame 7 0, demo_frame 7 1, demo_frame 7 5]) (demo_state, []) = ((s', w), rs)
     \<and> frames s' = [demo_frame 7 1, demo_frame 7 5]"
proof -
  let ?fs = "[demo_frame 7 0, demo_frame 7 1, demo_frame 7 5]"
  obtain s' w rs where run: "run_calls (map Submit ?fs) (demo_state, []) = ((s', w), rs)" by (metis prod.exhaust)
  have "2 \<le> usize_max" by (simp add: usize_max_def)
  moreover have "list_all (\<lambda>f. generation (frame_id f) = 7) ?fs"
    "sorted_wrt (\<lambda>f h. sequence (frame_id f) < sequence (frame_id h)) ?fs"
    by (simp_all add: demo_frame_def)
  ultimately have "frames s' = drop (length ?fs - 2) ?fs"
    using newest_frames_kept [OF demo_state_new, of ?fs s' w rs] run by blast
  with run show ?thesis by auto
qed

text \<open>\<open>begin_generation\<close> is a fence. It fails without any change exactly when the number does not
  increase; otherwise it empties the queue and reports how many frames it discarded, and from
  then on a frame of another generation is refused by \<open>submit\<close>, with the queue unchanged, and by the
  sink gate, whose closure does not run.\<close>

lemma begin_generation_fences:
  "(g \<le> active_generation s \<and> begin_generation g s = (s, Err (GenerationNotIncreasing (active_generation s) g)))
   \<or> (\<exists>s'. begin_generation g s = (s', Ok (length (frames s))) \<and> active_generation s < g
       \<and> frames s' = [] \<and> active_generation s' = g \<and> snd (try_take s') = None
       \<and> (\<forall>f. generation (frame_id f) = g
            \<or> (snd (submit f s') = RejectedGeneration g (generation (frame_id f)) \<and> frames (fst (submit f s')) = []))
       \<and> (\<forall>i sink w. generation i = g
            \<or> (\<exists>s''. with_current_generation i sink s' w =
                 ((s'', w), Err \<lparr>mismatch_active = g, mismatch_received = generation i\<rparr>))))"
  by (auto simp: begin_generation_def Let_def try_take_def submit_def with_current_generation_def gate_check_def
      not_le)

end
