(* ===== verification/Compressor.thy ===== *)
theory Compressor
  imports Frames
begin

text \<open>
  The JPEG encoder boundary of \<open>rust/src/jpeg.rs\<close>: \<open>Compressor\<close> and \<open>EncodedFrame\<close>. TurboJPEG is a
  parameter, a record of its functions over a library state; its strings are the bytes before the
  terminating NUL, and a null pointer is \<open>None\<close>. The system allocator is a predicate as for frames.
\<close>

section \<open>TurboJPEG\<close>

definition TJPF_BGRX :: int where [const_simps]: "TJPF_BGRX = 3"
definition TJSAMP_422 :: int where [const_simps]: "TJSAMP_422 = 1"
definition TJFLAG_NOREALLOC :: int where [const_simps]: "TJFLAG_NOREALLOC = 1024"
definition MAX_JPEG_BUFFER_BYTES :: usize where [const_simps]: "MAX_JPEG_BUFFER_BYTES = 512 * 1024 * 1024"

text \<open>The arguments of \<open>tjCompress2\<close>: the source and destination memory in place of the pointers.\<close>

record compress_args =
  arg_handle :: nat
  arg_source :: bytes
  arg_width :: int
  arg_pitch :: int
  arg_height :: int
  arg_format :: int
  arg_destination :: bytes
  arg_size :: u64
  arg_subsampling :: int
  arg_quality :: int
  arg_flags :: int

text \<open>What it leaves behind: its result code, the destination memory, whether the buffer pointer
  was replaced, and the size.\<close>

record compress_result =
  res_code :: int
  res_destination :: bytes
  res_moved :: bool
  res_size :: u64

record 'w turbojpeg =
  tjInitCompress :: "'w \<Rightarrow> nat option \<times> 'w"
  tjCompress2 :: "compress_args \<Rightarrow> 'w \<Rightarrow> compress_result \<times> 'w"
  tjBufSize :: "int \<Rightarrow> int \<Rightarrow> int \<Rightarrow> 'w \<Rightarrow> u64 \<times> 'w"
  tjDestroy :: "nat \<Rightarrow> 'w \<Rightarrow> int \<times> 'w"
  tjGetErrorStr2 :: "nat option \<Rightarrow> 'w \<Rightarrow> bytes option \<times> 'w"

section \<open>Model\<close>

record Compressor =
  tj_raw :: nat
  scratch :: bytes
  scratch_capacity :: usize

record EncodedFrame =
  jpeg_id :: FrameId
  jpeg_bytes :: bytes
  jpeg_width :: u32
  jpeg_height :: u32
  jpeg_quality :: u8

definition fnv1a64 :: "bytes \<Rightarrow> u64" where
  "fnv1a64 bytes = foldl (\<lambda>checksum byte. (checksum XOR ucast byte) * 0x100000001b3) 0xcbf29ce484222325 bytes"

definition EncodedFrame_checksum :: "EncodedFrame \<Rightarrow> u64" where
  "EncodedFrame_checksum e = fnv1a64 (jpeg_bytes e)"

definition error_string :: "'w turbojpeg \<Rightarrow> nat option \<Rightarrow> 'w \<Rightarrow> string \<times> 'w" where
  "error_string tj handle w =
     (case tjGetErrorStr2 tj handle w of
        (None, w) \<Rightarrow> (''unknown TurboJPEG error'', w)
      | (Some text, w) \<Rightarrow> (from_utf8_lossy text, w))"

definition Compressor_new :: "'w turbojpeg \<Rightarrow> 'w \<Rightarrow> (Compressor, string) outcome \<times> 'w" where
  "Compressor_new tj w =
     (case tjInitCompress tj w of
        (None, w) \<Rightarrow> (case error_string tj None w of (e, w) \<Rightarrow> (Err e, w))
      | (Some raw, w) \<Rightarrow> (Ok \<lparr>tj_raw = raw, scratch = [], scratch_capacity = 0\<rparr>, w))"

definition Compressor_drop :: "'w turbojpeg \<Rightarrow> Compressor \<Rightarrow> 'w \<Rightarrow> 'w" where
  "Compressor_drop tj c w = snd (tjDestroy tj (tj_raw c) w)"

text \<open>The checks before the library is called, down to the three \<open>c_int\<close> values.\<close>

definition check_jpeg_frame :: "Frame \<Rightarrow> u8 \<Rightarrow> (int \<times> int \<times> int, string) outcome" where
  "check_jpeg_frame frame quality =
     and_then (ensure (1 \<le> quality \<and> quality \<le> 100)
       (''JPEG quality must be between 1 and 100, got '' @ show_u8 quality)) (\<lambda>_.
     and_then (map_err (\<lambda>e. ''refusing invalid frame at JPEG boundary: '' @ display_FrameError e)
       (Frame_validate frame)) (\<lambda>_.
     let l = frame_layout frame in
     and_then (map_err (\<lambda>e. ''refusing invalid JPEG layout: '' @ display_FrameError e)
       (FrameLayout_new (width l) (height l))) (\<lambda>canonical.
     and_then (ensure (\<not> (canonical \<noteq> l \<or> stride canonical \<noteq> stride l
                           \<or> byte_len canonical \<noteq> length (pixels frame)))
       ''refusing inconsistent BGRx layout at JPEG boundary'') (\<lambda>_.
     and_then (ok_or (i32_try_from (unat (width l))) ''frame width does not fit TurboJPEG ABI'') (\<lambda>w.
     and_then (ok_or (i32_try_from (unat (height l))) ''frame height does not fit TurboJPEG ABI'') (\<lambda>h.
     and_then (ok_or (i32_try_from (stride l)) ''frame stride does not fit TurboJPEG ABI'') (\<lambda>p.
       Ok (w, h, p))))))))"

text \<open>\<open>Vec::try_reserve_exact\<close> with the texts of its error, on a vector of a given length and
  capacity; the result is the new capacity.\<close>

definition try_reserve_exact :: "(usize \<Rightarrow> bool) \<Rightarrow> usize \<Rightarrow> usize \<Rightarrow> usize \<Rightarrow> (usize, string) outcome" where
  "try_reserve_exact alloc len cap additional =
     (if additional \<le> cap - len then Ok cap
      else if len + additional > isize_max
      then Err ''memory allocation failed because the computed capacity exceeded the collection's maximum''
      else if \<not> alloc (len + additional)
      then Err ''memory allocation failed because the memory allocator returned an error''
      else Ok (len + additional))"

text \<open>Growing the scratch buffer: reserve when the capacity is short, then \<open>resize(maximum, 0)\<close>.\<close>

definition reserve_scratch :: "(usize \<Rightarrow> bool) \<Rightarrow> usize \<Rightarrow> Compressor \<Rightarrow> (Compressor, string) outcome" where
  "reserve_scratch alloc maximum c =
     and_then (if scratch_capacity c < maximum
               then and_then (sub_usize maximum (length (scratch c))) (\<lambda>additional.
                    and_then (map_err (\<lambda>e. ''cannot allocate bounded JPEG buffer: '' @ e)
                      (try_reserve_exact alloc (length (scratch c)) (scratch_capacity c) additional)) (\<lambda>cap.
                      Ok (c\<lparr>scratch_capacity := cap\<rparr>)))
               else Ok c) (\<lambda>c.
       Ok (c\<lparr>scratch := take maximum (scratch c) @ replicate (maximum - length (scratch c)) 0\<rparr>))"

text \<open>The checks of the library's result, and the compact copy.\<close>

definition take_encoded ::
  "(usize \<Rightarrow> bool) \<Rightarrow> Frame \<Rightarrow> u8 \<Rightarrow> usize \<Rightarrow> compress_result \<Rightarrow> (EncodedFrame, string) outcome" where
  "take_encoded alloc frame quality maximum res =
     and_then (ensure (\<not> res_moved res) ''TurboJPEG changed a TJFLAG_NOREALLOC buffer pointer'') (\<lambda>_.
     and_then (ok_or (usize_try_from (unat (res_size res))) ''encoded JPEG size does not fit this platform'') (\<lambda>jpeg_size.
     and_then (ensure (\<not> jpeg_size > maximum)
       (''TurboJPEG reported '' @ show_nat jpeg_size @ '' bytes for a '' @ show_nat maximum
        @ '' byte destination'')) (\<lambda>_.
     and_then (slice_to (res_destination res) jpeg_size) (\<lambda>encoded.
     and_then (if length encoded < 4 then Ok True
               else and_then (slice_to encoded 2) (\<lambda>soi.
                    if soi \<noteq> [0xff, 0xd8] then Ok True
                    else and_then (sub_usize (length encoded) 2) (\<lambda>n.
                         and_then (slice_from encoded n) (\<lambda>eoi. Ok (eoi \<noteq> [0xff, 0xd9]))))) (\<lambda>malformed.
     and_then (ensure (\<not> malformed) ''TurboJPEG returned a malformed JPEG boundary'') (\<lambda>_.
     and_then (map_err (\<lambda>e. ''cannot allocate compact JPEG result: '' @ e)
       (try_reserve_exact alloc 0 0 jpeg_size)) (\<lambda>_.
       Ok \<lparr>jpeg_id = frame_id frame, jpeg_bytes = encoded, jpeg_width = width (frame_layout frame),
           jpeg_height = height (frame_layout frame), jpeg_quality = quality\<rparr>)))))))"

definition compress_bgrx ::
  "'w turbojpeg \<Rightarrow> (usize \<Rightarrow> bool) \<Rightarrow> Frame \<Rightarrow> u8 \<Rightarrow> Compressor \<times> 'w \<Rightarrow>
     (EncodedFrame, string) outcome \<times> Compressor \<times> 'w" where
  "compress_bgrx tj alloc frame quality = (\<lambda>(c, w).
     (case check_jpeg_frame frame quality of
        Err e \<Rightarrow> (Err e, c, w)
      | Panic \<Rightarrow> (Panic, c, w)
      | Ok (tj_width, tj_height, pitch) \<Rightarrow>
     (case tjBufSize tj tj_width tj_height TJSAMP_422 w of (maximum, w) \<Rightarrow>
      if maximum = u64_max
      then (case error_string tj None w of (e, w) \<Rightarrow>
              (Err (''TurboJPEG rejected output dimensions: '' @ e), c, w))
      else (case usize_try_from (unat maximum) of
        None \<Rightarrow> (Err ''TurboJPEG buffer size does not fit this platform'', c, w)
      | Some maximum \<Rightarrow>
      if maximum = 0 \<or> maximum > MAX_JPEG_BUFFER_BYTES
      then (Err (''TurboJPEG requested a '' @ show_nat maximum @ '' byte destination; safety limit is ''
                 @ show_nat MAX_JPEG_BUFFER_BYTES), c, w)
      else (case reserve_scratch alloc maximum c of
        Err e \<Rightarrow> (Err e, c, w)
      | Panic \<Rightarrow> (Panic, c, w)
      | Ok c \<Rightarrow>
      (case tjCompress2 tj
              \<lparr>arg_handle = tj_raw c, arg_source = pixels frame, arg_width = tj_width, arg_pitch = pitch,
               arg_height = tj_height, arg_format = TJPF_BGRX, arg_destination = scratch c,
               arg_size = of_nat maximum, arg_subsampling = TJSAMP_422,
               arg_quality = int (unat quality), arg_flags = TJFLAG_NOREALLOC\<rparr> w of (res, w) \<Rightarrow>
      let c = c\<lparr>scratch := res_destination res\<rparr> in
      if res_code res \<noteq> 0
      then (case error_string tj (Some (tj_raw c)) w of (e, w) \<Rightarrow>
              (Err (''TurboJPEG compression failed: '' @ e), c, w))
      else (take_encoded alloc frame quality maximum res, c, w)))))))"

section \<open>Lemmas\<close>

text \<open>The digest of an encoded frame is that of the raw frames, over other bytes.\<close>

lemma fnv1a64_eq: "fnv1a64 bs = foldl fnv_step FNV_OFFSET bs"
proof -
  have "(\<lambda>checksum byte. (checksum XOR ucast byte) * 0x100000001b3) = fnv_step"
    by (intro ext) (simp add: fnv_step_def FNV_PRIME_def)
  then show ?thesis by (simp add: fnv1a64_def FNV_OFFSET_def)
qed

lemma fnv1a64_vectors: "fnv1a64 [] = 0xcbf29ce484222325" "fnv1a64 [0x61] = 0xaf63dc4c8601ec8c"
  by (simp_all add: fnv1a64_def)

lemma quality_range: "1 \<le> q \<and> q \<le> (100 :: u8) \<longleftrightarrow> 1 \<le> unat q \<and> unat q \<le> 100"
  by (simp add: word_le_nat_alt)

text \<open>After the first two checks the remaining ones cannot fail.\<close>

lemma check_jpeg_frame_eq:
  "check_jpeg_frame frame quality =
     (if \<not> (1 \<le> unat quality \<and> unat quality \<le> 100)
      then Err (''JPEG quality must be between 1 and 100, got '' @ show_u8 quality)
      else case Frame_validate frame of
          Err e \<Rightarrow> Err (''refusing invalid frame at JPEG boundary: '' @ display_FrameError e)
        | Panic \<Rightarrow> Panic
        | Ok _ \<Rightarrow> Ok (int (unat (width (frame_layout frame))), int (unat (height (frame_layout frame))),
                     int (stride (frame_layout frame))))"
proof (cases "Frame_validate frame")
  case (Ok u)
  let ?l = "frame_layout frame"
  have wf: "wf_layout ?l" "length (pixels frame) = byte_len ?l"
    using Ok by (simp_all add: Frame_validate_Ok wf_frame_def)
  then have "FrameLayout_new (width ?l) (height ?l) = Ok ?l" by (simp add: FrameLayout_new_Ok)
  moreover have "i32_try_from (unat (width ?l)) = Some (int (unat (width ?l)))"
    "i32_try_from (unat (height ?l)) = Some (int (unat (height ?l)))"
    "i32_try_from (stride ?l) = Some (int (stride ?l))"
    using wf by (auto simp: wf_layout_def i32_try_from_def i32_max_def)
  ultimately show ?thesis
    using Ok wf unfolding check_jpeg_frame_def quality_range ensure_def by (simp add: Let_def)
qed (auto simp only: check_jpeg_frame_def quality_range ensure_def map_err.simps and_then.simps
    outcome.simps split: if_split)

lemma Frame_validate_no_panic [simp]: "Frame_validate f \<noteq> Panic"
  by (simp add: Frame_validate_def outcome_simps)

lemma check_jpeg_frame_Ok:
  "check_jpeg_frame frame quality = Ok (w, h, p) \<longleftrightarrow>
     1 \<le> unat quality \<and> unat quality \<le> 100 \<and> wf_frame frame
     \<and> w = int (unat (width (frame_layout frame))) \<and> h = int (unat (height (frame_layout frame)))
     \<and> p = int (stride (frame_layout frame))"
proof -
  have "wf_frame frame \<longleftrightarrow> (\<exists>u. Frame_validate frame = Ok u)" by (simp add: Frame_validate_Ok)
  then show ?thesis by (cases "Frame_validate frame") (auto simp: check_jpeg_frame_eq)
qed

lemma check_jpeg_frame_no_panic: "check_jpeg_frame frame quality \<noteq> Panic"
  using Frame_validate_no_panic [of frame]
  by (cases "Frame_validate frame") (auto simp: check_jpeg_frame_eq)

text \<open>A vector never holds more than its capacity.\<close>

definition wf_compressor :: "Compressor \<Rightarrow> bool" where
  "wf_compressor c \<longleftrightarrow> length (scratch c) \<le> scratch_capacity c"

lemma reserve_scratch_no_panic: "wf_compressor c \<Longrightarrow> reserve_scratch alloc n c \<noteq> Panic"
  by (auto simp: reserve_scratch_def wf_compressor_def sub_usize_def try_reserve_exact_def)

lemma reserve_scratch_Ok:
  assumes "reserve_scratch alloc n c = Ok c'"
  shows "length (scratch c') = n \<and> tj_raw c' = tj_raw c
    \<and> (wf_compressor c \<longrightarrow> scratch_capacity c' = max (scratch_capacity c) n)"
  using assms
  by (auto simp: reserve_scratch_def wf_compressor_def outcome_simps sub_usize_def try_reserve_exact_def
      split: if_splits)

lemma reserve_scratch_enough: "n \<le> scratch_capacity c \<Longrightarrow> is_ok (reserve_scratch alloc n c)"
  by (simp add: reserve_scratch_def)

lemma reserve_scratch_alloc:
  "wf_compressor c \<Longrightarrow> n \<le> isize_max \<Longrightarrow> alloc n \<Longrightarrow> is_ok (reserve_scratch alloc n c)"
  by (auto simp: reserve_scratch_def wf_compressor_def sub_usize_def try_reserve_exact_def)

definition jpeg_boundary :: "bytes \<Rightarrow> bool" where
  "jpeg_boundary bs \<longleftrightarrow> 4 \<le> length bs \<and> take 2 bs = [0xff, 0xd8] \<and> drop (length bs - 2) bs = [0xff, 0xd9]"

lemma take_encoded_eq:
  assumes "length (res_destination res) = maximum" and "maximum \<le> isize_max"
  shows "take_encoded alloc frame quality maximum res =
    (let n = unat (res_size res); encoded = take n (res_destination res) in
     if res_moved res then Err ''TurboJPEG changed a TJFLAG_NOREALLOC buffer pointer''
     else if maximum < n
     then Err (''TurboJPEG reported '' @ show_nat n @ '' bytes for a '' @ show_nat maximum @ '' byte destination'')
     else if \<not> jpeg_boundary encoded then Err ''TurboJPEG returned a malformed JPEG boundary''
     else if \<not> alloc n
     then Err (''cannot allocate compact JPEG result: '' @
       ''memory allocation failed because the memory allocator returned an error'')
     else Ok \<lparr>jpeg_id = frame_id frame, jpeg_bytes = encoded, jpeg_width = width (frame_layout frame),
           jpeg_height = height (frame_layout frame), jpeg_quality = quality\<rparr>)"
proof -
  let ?n = "unat (res_size res)"
  have n: "?n \<le> usize_max" using unsigned_less [of "res_size res", where 'a = nat] by (simp add: usize_max_def)
  show ?thesis
  proof (cases "res_moved res \<or> maximum < ?n")
    case True
    with n show ?thesis by (auto simp: take_encoded_def usize_try_from_def Let_def)
  next
    case False
    with assms have "length (take ?n (res_destination res)) = ?n" "?n \<le> isize_max" by simp_all
    with n False assms(1) show ?thesis
      by (auto simp: take_encoded_def usize_try_from_def Let_def slice_simps jpeg_boundary_def
          try_reserve_exact_def sub_usize_def not_less)
  qed
qed

text \<open>
  The contract of \<open>tjCompress2\<close> for a caller-managed buffer: positive dimensions, a source of exactly
  pitch times height bytes with four bytes per pixel, a quality from 1 to 100, and a size that is
  the destination's. The documented behaviour the encoder relies on is that the call writes only
  inside the destination.
\<close>

definition ffi_ok :: "compress_args \<Rightarrow> bool" where
  "ffi_ok a \<longleftrightarrow>
     0 < arg_width a \<and> arg_width a \<le> 16384 \<and> 0 < arg_height a \<and> arg_height a \<le> 16384
     \<and> arg_pitch a = 4 * arg_width a \<and> int (length (arg_source a)) = arg_pitch a * arg_height a
     \<and> arg_format a = TJPF_BGRX \<and> arg_subsampling a = TJSAMP_422 \<and> arg_flags a = TJFLAG_NOREALLOC
     \<and> 1 \<le> arg_quality a \<and> arg_quality a \<le> 100
     \<and> unat (arg_size a) = length (arg_destination a)
     \<and> 0 < length (arg_destination a) \<and> length (arg_destination a) \<le> MAX_JPEG_BUFFER_BYTES"

definition writes_in_bounds :: "'w turbojpeg \<Rightarrow> bool" where
  "writes_in_bounds tj \<longleftrightarrow>
     (\<forall>a w. ffi_ok a \<longrightarrow> length (res_destination (fst (tjCompress2 tj a w))) = length (arg_destination a))"

text \<open>Two libraries that differ only in what they do outside the contract.\<close>

definition same_on_contract :: "'w turbojpeg \<Rightarrow> 'w turbojpeg \<Rightarrow> bool" where
  "same_on_contract tj tj' \<longleftrightarrow>
     tjInitCompress tj = tjInitCompress tj' \<and> tjDestroy tj = tjDestroy tj'
     \<and> tjGetErrorStr2 tj = tjGetErrorStr2 tj'
     \<and> (\<forall>x y w. 0 < x \<and> x \<le> 16384 \<and> 0 < y \<and> y \<le> 16384 \<longrightarrow>
          tjBufSize tj x y TJSAMP_422 w = tjBufSize tj' x y TJSAMP_422 w)
     \<and> (\<forall>a w. ffi_ok a \<longrightarrow> tjCompress2 tj a w = tjCompress2 tj' a w)"

definition compress_call :: "Frame \<Rightarrow> u8 \<Rightarrow> usize \<Rightarrow> Compressor \<Rightarrow> compress_args" where
  "compress_call frame quality maximum c =
     \<lparr>arg_handle = tj_raw c, arg_source = pixels frame,
      arg_width = int (unat (width (frame_layout frame))), arg_pitch = int (stride (frame_layout frame)),
      arg_height = int (unat (height (frame_layout frame))), arg_format = TJPF_BGRX,
      arg_destination = scratch c, arg_size = of_nat maximum, arg_subsampling = TJSAMP_422,
      arg_quality = int (unat quality), arg_flags = TJFLAG_NOREALLOC\<rparr>"

lemma ffi_ok_compress_call:
  assumes "wf_frame frame" and "1 \<le> unat quality" and "unat quality \<le> 100"
    and "reserve_scratch alloc maximum c = Ok c'" and "0 < maximum" and "maximum \<le> MAX_JPEG_BUFFER_BYTES"
  shows "ffi_ok (compress_call frame quality maximum c')"
proof -
  have "unat (of_nat maximum :: u64) = maximum"
    using assms(6) by (simp add: unat_of_nat MAX_JPEG_BUFFER_BYTES_def)
  moreover have "0 < int (unat (width (frame_layout frame)))" "int (unat (width (frame_layout frame))) \<le> 16384"
    "0 < int (unat (height (frame_layout frame)))" "int (unat (height (frame_layout frame))) \<le> 16384"
    "1 \<le> int (unat quality)" "int (unat quality) \<le> 100"
    using assms(1-3) unfolding wf_frame_def wf_layout_def by linarith+
  ultimately show ?thesis
    using assms reserve_scratch_Ok [OF assms(4)]
    by (simp add: ffi_ok_def compress_call_def wf_frame_def wf_layout_def)
qed

text \<open>The shape of a call that gets past the first checks.\<close>

lemma compress_bgrx_checked:
  assumes "wf_frame frame" and "1 \<le> unat quality" and "unat quality \<le> 100"
    and "tjBufSize tj (int (unat (width (frame_layout frame)))) (int (unat (height (frame_layout frame)))) TJSAMP_422 w
      = (sz, w1)"
  shows "compress_bgrx tj alloc frame quality (c, w) =
    (if sz = u64_max
     then (Err (''TurboJPEG rejected output dimensions: '' @ fst (error_string tj None w1)), c,
           snd (error_string tj None w1))
     else if sz = 0 \<or> unat sz > MAX_JPEG_BUFFER_BYTES
     then (Err (''TurboJPEG requested a '' @ show_nat (unat sz) @ '' byte destination; safety limit is ''
                 @ show_nat MAX_JPEG_BUFFER_BYTES), c, w1)
     else (case reserve_scratch alloc (unat sz) c of
        Err e \<Rightarrow> (Err e, c, w1)
      | Panic \<Rightarrow> (Panic, c, w1)
      | Ok c' \<Rightarrow>
          (let (res, w2) = tjCompress2 tj (compress_call frame quality (unat sz) c') w1;
               c2 = c'\<lparr>scratch := res_destination res\<rparr>
           in if res_code res \<noteq> 0
              then (Err (''TurboJPEG compression failed: '' @ fst (error_string tj (Some (tj_raw c')) w2)), c2,
                    snd (error_string tj (Some (tj_raw c')) w2))
              else (take_encoded alloc frame quality (unat sz) res, c2, w2))))"
proof -
  have check: "check_jpeg_frame frame quality =
      Ok (int (unat (width (frame_layout frame))), int (unat (height (frame_layout frame))),
          int (stride (frame_layout frame)))"
    using assms(1-3) by (simp only: check_jpeg_frame_Ok)
  have fits: "usize_try_from (unat sz) = Some (unat sz)"
    using unsigned_less [of sz, where 'a = nat] by (simp add: usize_try_from_def usize_max_def)
  have zero: "unat sz = 0 \<longleftrightarrow> sz = 0" by (simp add: unat_eq_0)
  show ?thesis
    unfolding compress_bgrx_def compress_call_def prod.case check outcome.case assms(4) fits option.case zero
    by (cases "reserve_scratch alloc (unat sz) c") (simp_all add: Let_def case_prod_unfold)
qed

lemma compress_bgrx_unchecked:
  assumes "\<not> (wf_frame frame \<and> 1 \<le> unat quality \<and> unat quality \<le> 100)"
  shows "\<exists>e. compress_bgrx tj alloc frame quality cw = (Err e, cw)"
proof -
  have "\<And>x. check_jpeg_frame frame quality \<noteq> Ok x" using assms check_jpeg_frame_Ok by auto
  then obtain e where "check_jpeg_frame frame quality = Err e"
    using check_jpeg_frame_no_panic by (cases "check_jpeg_frame frame quality") blast+
  then show ?thesis by (auto simp: compress_bgrx_def split: prod.split)
qed

lemma writes_in_bounds_call:
  "writes_in_bounds tj \<Longrightarrow> ffi_ok (compress_call frame quality n c) \<Longrightarrow>
     length (res_destination (fst (tjCompress2 tj (compress_call frame quality n c) w))) = length (scratch c)"
  by (simp add: writes_in_bounds_def) (simp add: compress_call_def)

lemma error_string_same: "tjGetErrorStr2 tj = tjGetErrorStr2 tj' \<Longrightarrow> error_string tj h w = error_string tj' h w"
  by (simp add: error_string_def)

lemma compress_bgrx_sound:
  assumes "writes_in_bounds tj" and "wf_compressor c"
    and "compress_bgrx tj alloc frame quality (c, w) = (r, c', w')"
  shows "r \<noteq> Panic \<and> wf_compressor c' \<and> tj_raw c' = tj_raw c
    \<and> scratch_capacity c \<le> scratch_capacity c'
    \<and> scratch_capacity c' \<le> max (scratch_capacity c) MAX_JPEG_BUFFER_BYTES
    \<and> (\<forall>e. r = Ok e \<longrightarrow> Frame_validate frame = Ok () \<and> jpeg_id e = frame_id frame
        \<and> jpeg_width e = width (frame_layout frame) \<and> jpeg_height e = height (frame_layout frame)
        \<and> jpeg_quality e = quality \<and> 1 \<le> unat quality \<and> unat quality \<le> 100
        \<and> jpeg_bytes e = take (length (jpeg_bytes e)) (scratch c') \<and> jpeg_boundary (jpeg_bytes e)
        \<and> length (jpeg_bytes e) \<le> MAX_JPEG_BUFFER_BYTES)"
proof (cases "wf_frame frame \<and> 1 \<le> unat quality \<and> unat quality \<le> 100")
  case False
  with compress_bgrx_unchecked [OF False, of tj alloc "(c, w)"] assms(2,3) show ?thesis by auto
next
  case True
  then have wf: "wf_frame frame" "1 \<le> unat quality" "unat quality \<le> 100" by simp_all
  obtain sz w1 where buf: "tjBufSize tj (int (unat (width (frame_layout frame))))
      (int (unat (height (frame_layout frame)))) TJSAMP_422 w = (sz, w1)" by fastforce
  note run = assms(3) [unfolded compress_bgrx_checked [OF wf buf]]
  show ?thesis
  proof (cases "sz = u64_max \<or> sz = 0 \<or> unat sz > MAX_JPEG_BUFFER_BYTES
      \<or> (\<exists>e. reserve_scratch alloc (unat sz) c = Err e)")
    case True
    with run assms(2) show ?thesis by (auto split: if_splits)
  next
    case False
    then obtain c1 where c1: "reserve_scratch alloc (unat sz) c = Ok c1"
      using reserve_scratch_no_panic [OF assms(2)] by (cases "reserve_scratch alloc (unat sz) c") auto
    obtain res w2 where call: "tjCompress2 tj (compress_call frame quality (unat sz) c1) w1 = (res, w2)" by fastforce
    have max: "unat sz \<le> MAX_JPEG_BUFFER_BYTES" "0 < unat sz" using False by (auto simp: unat_gt_0)
    have c1': "length (scratch c1) = unat sz" "tj_raw c1 = tj_raw c"
      "scratch_capacity c1 = max (scratch_capacity c) (unat sz)"
      using reserve_scratch_Ok [OF c1] assms(2) by auto
    have len: "length (res_destination res) = unat sz"
      using writes_in_bounds_call [OF assms(1) ffi_ok_compress_call [OF wf c1 max(2,1)], of w1] call c1'(1)
      by simp
    have small: "unat sz \<le> isize_max" using max by (simp add: MAX_JPEG_BUFFER_BYTES_def isize_max_def)
    have c': "c' = c1\<lparr>scratch := res_destination res\<rparr>"
      and r: "r = take_encoded alloc frame quality (unat sz) res \<or> (\<exists>e. r = Err e)"
      using run False c1 call by (auto simp: Let_def split: if_splits)
    have "wf_compressor c'" "tj_raw c' = tj_raw c" "scratch_capacity c' = max (scratch_capacity c) (unat sz)"
      using c1' len by (simp_all add: c' wf_compressor_def)
    moreover have "Frame_validate frame = Ok ()" using wf by (simp add: Frame_validate_Ok)
    ultimately show ?thesis
      using r max len wf unfolding take_encoded_eq [OF len small]
      by (auto simp: Let_def c' split: if_splits)
  qed
qed

section \<open>A library for the witnesses\<close>

text \<open>It asks for 1000 bytes and writes the shortest stream with both boundary markers.\<close>

definition stub_turbojpeg :: "'w turbojpeg" where
  "stub_turbojpeg =
     \<lparr>tjInitCompress = (\<lambda>w. (Some 1, w)),
      tjCompress2 = (\<lambda>a w. (\<lparr>res_code = 0, res_destination = take (length (arg_destination a))
           ([0xff, 0xd8, 0xff, 0xd9] @ replicate (length (arg_destination a)) 0),
         res_moved = False, res_size = 4\<rparr>, w)),
      tjBufSize = (\<lambda>x y s w. (1000, w)), tjDestroy = (\<lambda>h w. (0, w)),
      tjGetErrorStr2 = (\<lambda>h w. (None, w))\<rparr>"

definition stub_frame :: Frame where
  "stub_frame = \<lparr>frame_id = \<lparr>generation = 1, sequence = 9\<rparr>,
     frame_layout = \<lparr>width = 2, height = 2, stride = 8, byte_len = 16\<rparr>, pixels = replicate 16 7\<rparr>"

lemma wf_stub_frame: "wf_frame stub_frame"
  by (simp add: stub_frame_def wf_frame_def wf_layout_def)

lemma stub_in_bounds: "writes_in_bounds stub_turbojpeg"
  by (simp add: writes_in_bounds_def stub_turbojpeg_def)

section \<open>Properties\<close>

text \<open>C26: \<open>compress_bgrx\<close> keeps to the contract of the C library whatever frame, quality and buffer it is
  given: two libraries that agree on contract-abiding arguments are indistinguishable to it, so
  no result depends on a call outside the contract (zero or oversized dimensions, a source that
  is not pitch times height bytes, a size that is not the destination's).\<close>

theorem compress_keeps_contract:
  assumes "same_on_contract tj tj'"
  shows "compress_bgrx tj alloc frame quality cw = compress_bgrx tj' alloc frame quality cw"
proof (cases "wf_frame frame \<and> 1 \<le> unat quality \<and> unat quality \<le> 100")
  case True
  obtain c w where cw: "cw = (c, w)" by fastforce
  let ?x = "int (unat (width (frame_layout frame)))" and ?y = "int (unat (height (frame_layout frame)))"
  obtain sz w1 where buf: "tjBufSize tj ?x ?y TJSAMP_422 w = (sz, w1)" by fastforce
  have "0 < ?x" "?x \<le> 16384" "0 < ?y" "?y \<le> 16384"
    using True unfolding wf_frame_def wf_layout_def by linarith+
  with assms buf have buf': "tjBufSize tj' ?x ?y TJSAMP_422 w = (sz, w1)"
    unfolding same_on_contract_def by metis
  have err: "error_string tj h v = error_string tj' h v" for h v
    using assms by (auto simp: same_on_contract_def intro: error_string_same)
  have call: "tjCompress2 tj (compress_call frame quality (unat sz) c') v =
      tjCompress2 tj' (compress_call frame quality (unat sz) c') v"
    if "reserve_scratch alloc (unat sz) c = Ok c'" "sz \<noteq> 0" "\<not> unat sz > MAX_JPEG_BUFFER_BYTES" for c' v
    using ffi_ok_compress_call [of frame quality alloc "unat sz" c c'] True that assms
    by (auto simp: same_on_contract_def unat_gt_0)
  show ?thesis
    unfolding cw compress_bgrx_checked [OF _ _ _ buf, of quality alloc c, OF conjunct1 [OF True]
        conjunct1 [OF conjunct2 [OF True]] conjunct2 [OF conjunct2 [OF True]]]
      compress_bgrx_checked [OF _ _ _ buf', of quality alloc c, OF conjunct1 [OF True]
        conjunct1 [OF conjunct2 [OF True]] conjunct2 [OF conjunct2 [OF True]]] err
    using call by (auto split: outcome.split)
next
  case False
  then obtain e where "check_jpeg_frame frame quality = Err e"
    using check_jpeg_frame_Ok check_jpeg_frame_no_panic [of frame quality]
    by (cases "check_jpeg_frame frame quality") auto
  then show ?thesis by (simp add: compress_bgrx_def split: prod.split)
qed

theorem compress_keeps_contract_witness:
  "compress_bgrx stub_turbojpeg (\<lambda>_. True) stub_frame 80 (\<lparr>tj_raw = 1, scratch = [], scratch_capacity = 0\<rparr>, ()) =
   compress_bgrx (stub_turbojpeg\<lparr>tjCompress2 := \<lambda>a w. if ffi_ok a then tjCompress2 stub_turbojpeg a w
      else (\<lparr>res_code = 0, res_destination = [], res_moved = True, res_size = 99\<rparr>, w)\<rparr>)
     (\<lambda>_. True) stub_frame 80 (\<lparr>tj_raw = 1, scratch = [], scratch_capacity = 0\<rparr>, ())"
  by (rule compress_keeps_contract) (simp add: same_on_contract_def stub_turbojpeg_def)

text \<open>C27: with a library that writes only inside the destination, \<open>compress_bgrx\<close> never panics, keeps
  the handle, and keeps the scratch buffer a valid vector of at most 512 MiB beyond its earlier
  capacity. What it returns as encoded is the identifier, dimensions and quality of the request
  with at least four and at most the buffer's bytes, framed by the SOI and EOI markers.\<close>

theorem compress_result_sound:
  assumes "writes_in_bounds tj" and "wf_compressor c"
    and "compress_bgrx tj alloc frame quality (c, w) = (r, c', w')"
  shows "r \<noteq> Panic \<and> wf_compressor c' \<and> tj_raw c' = tj_raw c
    \<and> scratch_capacity c \<le> scratch_capacity c'
    \<and> scratch_capacity c' \<le> max (scratch_capacity c) MAX_JPEG_BUFFER_BYTES
    \<and> (\<forall>e. r = Ok e \<longrightarrow> Frame_validate frame = Ok () \<and> jpeg_id e = frame_id frame
        \<and> jpeg_width e = width (frame_layout frame) \<and> jpeg_height e = height (frame_layout frame)
        \<and> jpeg_quality e = quality \<and> 1 \<le> unat quality \<and> unat quality \<le> 100
        \<and> jpeg_bytes e = take (length (jpeg_bytes e)) (scratch c') \<and> jpeg_boundary (jpeg_bytes e)
        \<and> length (jpeg_bytes e) \<le> MAX_JPEG_BUFFER_BYTES)"
  using assms by (rule compress_bgrx_sound)

theorem compress_result_sound_witness:
  "\<exists>r c' w'. compress_bgrx stub_turbojpeg (\<lambda>_. True) stub_frame 80
      (\<lparr>tj_raw = 1, scratch = [], scratch_capacity = 0\<rparr>, ()) = (r, c', w') \<and> r \<noteq> Panic \<and> wf_compressor c'"
proof -
  let ?c = "\<lparr>tj_raw = 1, scratch = [], scratch_capacity = 0\<rparr>"
  obtain r c' w' where run: "compress_bgrx stub_turbojpeg (\<lambda>_. True) stub_frame 80 (?c, ()) = (r, c', w')"
    by (metis prod.exhaust)
  have "wf_compressor ?c" by (simp add: wf_compressor_def)
  from compress_result_sound [OF stub_in_bounds this run] run show ?thesis by blast
qed

text \<open>Encoding succeeds whenever nothing outside refuses. For a valid frame and quality, if the
  library asks for a destination within the limit, the two allocations are served, and the library
  reports success with a stream of that buffer framed by the two markers, then \<open>compress_bgrx\<close>
  returns exactly that stream for the frame, and the scratch buffer has grown to the destination at most.\<close>

lemma compress_succeeds:
  assumes "Frame_validate frame = Ok ()" and "1 \<le> quality" and "quality \<le> 100"
    and "wf_compressor c"
    and "tjBufSize tj (int (unat (width (frame_layout frame)))) (int (unat (height (frame_layout frame)))) TJSAMP_422 w
      = (of_nat n, w1)"
    and "0 < n" and "n \<le> MAX_JPEG_BUFFER_BYTES" and "alloc n" and "alloc (length jpeg)"
    and "\<And>a. ffi_ok a \<Longrightarrow> arg_source a = pixels frame \<Longrightarrow> length (arg_destination a) = n \<Longrightarrow>
      tjCompress2 tj a w1 = (\<lparr>res_code = 0, res_destination = jpeg @ rest, res_moved = False,
        res_size = of_nat (length jpeg)\<rparr>, w2)"
    and "length (jpeg @ rest) = n" and "jpeg_boundary jpeg"
  shows "\<exists>c'. compress_bgrx tj alloc frame quality (c, w) =
    (Ok \<lparr>jpeg_id = frame_id frame, jpeg_bytes = jpeg, jpeg_width = width (frame_layout frame),
         jpeg_height = height (frame_layout frame), jpeg_quality = quality\<rparr>, c', w2)
    \<and> wf_compressor c' \<and> scratch_capacity c' = max (scratch_capacity c) n"
proof -
  have wf: "wf_frame frame" "1 \<le> unat quality" "unat quality \<le> 100"
    using assms(1-3) quality_range [of quality] by (simp_all add: Frame_validate_Ok)
  have n: "unat (of_nat n :: u64) = n" using assms(7) by (simp add: unat_of_nat MAX_JPEG_BUFFER_BYTES_def)
  have big: "n \<le> isize_max" using assms(7) by (simp add: MAX_JPEG_BUFFER_BYTES_def isize_max_def)
  obtain c1 where c1: "reserve_scratch alloc n c = Ok c1"
    using reserve_scratch_alloc [OF assms(4) big, of alloc] assms(8) by (auto simp: is_ok_iff)
  have size: "unat (of_nat (length jpeg) :: u64) = length jpeg"
    using assms(7,11) by (simp add: unat_of_nat MAX_JPEG_BUFFER_BYTES_def)
  have call: "tjCompress2 tj (compress_call frame quality n c1) w1 = (\<lparr>res_code = 0, res_destination = jpeg @ rest,
      res_moved = False, res_size = of_nat (length jpeg)\<rparr>, w2)"
    using assms(10) [OF ffi_ok_compress_call [OF wf c1 assms(6,7)]] reserve_scratch_Ok [OF c1]
    by (simp add: compress_call_def)
  have "(of_nat n :: u64) \<noteq> u64_max" "(of_nat n :: u64) \<noteq> 0"
    using n assms(6,7) by (auto simp: word_unat_eq_iff u64_max_def MAX_JPEG_BUFFER_BYTES_def)
  moreover have "scratch_capacity c1 = max (scratch_capacity c) n" using reserve_scratch_Ok [OF c1] assms(4) by simp
  ultimately show ?thesis
    using assms(7,9,11,12) size unfolding compress_bgrx_checked [OF wf assms(5)] n
    by (simp add: c1 call take_encoded_eq big wf_compressor_def Let_def)
qed

end
