(* ===== verification/Simulation.thy ===== *)
theory Simulation
  imports Console Cli_Args Pipeline Compressor
begin

text \<open>
  The offline run of \<open>rust/src/main.rs\<close>: \<open>simulate_pattern\<close>, which puts the test pattern through the
  bounded queue, takes the frames out and, when asked, encodes them and passes the generation gate.
  It composes frame layouts, the pipeline, the test pattern and the compressor; TurboJPEG and the
  allocator are the parameters of those components.
\<close>

section \<open>Model\<close>

definition MAX_PATTERN_WORK_BYTES :: usize where [const_simps]: "MAX_PATTERN_WORK_BYTES = 512 * 1024 * 1024"

fun debug_SubmitOutcome :: "SubmitOutcome \<Rightarrow> string" where
  "debug_SubmitOutcome Queued = ''Queued''"
| "debug_SubmitOutcome (DroppedOldest i) =
     ''DroppedOldest(FrameId { generation: '' @ show_u64 (generation i) @ '', sequence: ''
     @ show_u64 (sequence i) @ '' })''"
| "debug_SubmitOutcome (RejectedGeneration active received) =
     ''RejectedGeneration { active: '' @ show_u64 active @ '', received: '' @ show_u64 received @ '' }''"
| "debug_SubmitOutcome (RejectedSequence last_seq received) =
     ''RejectedSequence { last: '' @ show_u64 last_seq @ '', received: '' @ show_u64 received @ '' }''"

definition pattern_workload :: "PatternOptions \<Rightarrow> (FrameLayout, string) outcome" where
  "pattern_workload options =
     and_then (map_err (\<lambda>e. ''invalid pattern layout: '' @ display_FrameError e)
       (FrameLayout_new (po_width options) (po_height options))) (\<lambda>layout.
     and_then (ok_or (checked_mul (byte_len layout) (unat (po_frames options)))
       ''pattern workload size overflow'') (\<lambda>total_work.
     and_then (ensure (\<not> total_work > MAX_PATTERN_WORK_BYTES)
       (''pattern would generate '' @ show_nat total_work
        @ '' bytes; reduce dimensions or frame count below the '' @ show_nat MAX_PATTERN_WORK_BYTES
        @ '' byte safety limit'')) (\<lambda>_.
     let resident_frames = min (po_queue_capacity options) (unat (po_frames options)) in
     and_then (ok_or (checked_mul (byte_len layout) resident_frames)
       ''pattern queue size overflow'') (\<lambda>resident_bytes.
     and_then (ensure (\<not> resident_bytes > MAX_PATTERN_WORK_BYTES)
       (''pattern queue could retain '' @ show_nat resident_bytes
        @ '' bytes; reduce dimensions or queue capacity'')) (\<lambda>_.
       Ok layout)))))"

definition run_generation :: u64 where [const_simps]: "run_generation = 1"

definition start_pipeline :: "PatternOptions \<Rightarrow> (PipelineState, string) outcome" where
  "start_pipeline options =
     and_then (map_err display_PipelineError (FramePipeline_new (po_queue_capacity options) 0)) (\<lambda>s.
       case begin_generation run_generation s of (s, r) \<Rightarrow>
         and_then (map_err display_PipelineError r) (\<lambda>_. Ok s))"

definition plan_lines :: "PatternOptions \<Rightarrow> bool \<Rightarrow> FrameLayout \<Rightarrow> string list" where
  "plan_lines options encode layout =
     [''pipeline format=BGRx width='' @ show_u32 (width layout) @ '' height='' @ show_u32 (height layout)
      @ '' stride='' @ show_nat (stride layout) @ '' frame-bytes='' @ show_nat (byte_len layout)
      @ '' queue-capacity='' @ show_nat (po_queue_capacity options)
      @ '' generation='' @ show_u64 run_generation,
      ''encode-plan=JPEG-4:2:2-after-BGRx quality='' @ show_u8 (po_quality options)
      @ '' execute='' @ show_bool encode @ '' transport=disabled'']"

definition capture_prefix :: "u64 \<Rightarrow> u64 \<Rightarrow> string" where
  "capture_prefix seq digest =
     ''capture id='' @ show_u64 run_generation @ '':'' @ show_u64 seq
     @ '' checksum='' @ show_hex_pad 16 (unat digest) @ '' queued''"

text \<open>One turn of the capture loop, and the loop.\<close>

definition capture_frame ::
  "(usize \<Rightarrow> bool) \<Rightarrow> FrameLayout \<Rightarrow> u64 \<Rightarrow> PipelineState \<Rightarrow> PipelineState console" where
  "capture_frame alloc layout seq s =
     attempt (map_err (\<lambda>e. ''cannot generate test pattern: '' @ display_FrameError e)
       (test_pattern alloc \<lparr>generation = run_generation, sequence = seq\<rparr> layout)) (\<lambda>frame.
       let digest = checksum frame in
       case submit frame s of
         (s, Queued) \<Rightarrow> println (capture_prefix seq digest) ([], Ok s)
       | (s, DroppedOldest dropped) \<Rightarrow>
           println (capture_prefix seq digest @ '' drop-old='' @ display_FrameId dropped) ([], Ok s)
       | (s, unexpected) \<Rightarrow>
           ([], Err (''offline pipeline rejected generated frame: '' @ debug_SubmitOutcome unexpected)))"

fun capture_frames ::
  "(usize \<Rightarrow> bool) \<Rightarrow> FrameLayout \<Rightarrow> u64 list \<Rightarrow> PipelineState \<Rightarrow> PipelineState console" where
  "capture_frames alloc layout [] s = ([], Ok s)"
| "capture_frames alloc layout (seq # rest) s =
     sequel (capture_frame alloc layout seq s) (capture_frames alloc layout rest)"

definition input_line :: "Frame \<Rightarrow> string" where
  "input_line frame =
     ''encoder-input id='' @ display_FrameId (frame_id frame)
     @ '' checksum='' @ show_hex_pad 16 (unat (checksum frame))
     @ '' bytes='' @ show_nat (byte_len (frame_layout frame))"

definition encoded_line :: "Frame \<Rightarrow> EncodedFrame \<Rightarrow> string" where
  "encoded_line frame jpeg =
     ''encoded id='' @ display_FrameId (jpeg_id jpeg)
     @ '' raw-checksum='' @ show_hex_pad 16 (unat (checksum frame))
     @ '' jpeg-bytes='' @ show_nat (length (jpeg_bytes jpeg))
     @ '' jpeg-fnv1a64='' @ show_hex_pad 16 (unat (EncodedFrame_checksum jpeg))
     @ '' jpeg='' @ show_u32 (jpeg_width jpeg) @ ''x'' @ show_u32 (jpeg_height jpeg)
     @ '' quality='' @ show_u8 (jpeg_quality jpeg) @ '' subsampling=4:2:2''"

text \<open>What happens to a frame taken from the queue: the line printed for it, or the error.\<close>

definition consume_frame ::
  "'w turbojpeg \<Rightarrow> (usize \<Rightarrow> bool) \<Rightarrow> u8 \<Rightarrow> Frame \<Rightarrow> PipelineState \<Rightarrow> Compressor option \<Rightarrow> 'w \<Rightarrow>
     (string, string) outcome \<times> PipelineState \<times> Compressor option \<times> 'w" where
  "consume_frame tj alloc quality frame s compressor w =
     (case compressor of
        Some c \<Rightarrow>
          (case compress_bgrx tj alloc frame quality (c, w) of
             (Err e, c, w) \<Rightarrow>
               (Err (''cannot encode frame '' @ display_FrameId (frame_id frame) @ '': '' @ e), s, Some c, w)
           | (Panic, c, w) \<Rightarrow> (Panic, s, Some c, w)
           | (Ok jpeg, c, w) \<Rightarrow>
               (case with_current_generation (jpeg_id jpeg) (\<lambda>u. (Some (), u)) s () of
                  ((s, _), Err e) \<Rightarrow>
                    (Err (''dropping encoded frame before sink: '' @ display_GenerationMismatch e), s, Some c, w)
                | ((s, _), Panic) \<Rightarrow> (Panic, s, Some c, w)
                | ((s, _), Ok _) \<Rightarrow> (Ok (encoded_line frame jpeg), s, Some c, w)))
      | None \<Rightarrow> (Ok (input_line frame), s, None, w))"

lemma consume_frame_frames:
  "consume_frame tj alloc quality frame s compressor w = (r, s', compressor', w') \<Longrightarrow> frames s' = frames s"
  by (auto simp: consume_frame_def with_current_generation_def gate_check_def
      split: option.splits prod.splits outcome.splits if_splits)

lemma try_take_frames: "try_take s = (s', Some frame) \<Longrightarrow> frames s = frame # frames s'"
  by (auto simp: try_take_def split: list.splits)

function drain_frames ::
  "'w turbojpeg \<Rightarrow> (usize \<Rightarrow> bool) \<Rightarrow> u8 \<Rightarrow> PipelineState \<Rightarrow> Compressor option \<Rightarrow> 'w \<Rightarrow>
     string list \<times> (PipelineState, string) outcome \<times> Compressor option \<times> 'w" where
  "drain_frames tj alloc quality s compressor w =
     (case try_take s of
        (s, None) \<Rightarrow> ([], Ok s, compressor, w)
      | (s, Some frame) \<Rightarrow>
          (case consume_frame tj alloc quality frame s compressor w of
             (Err e, s, compressor, w) \<Rightarrow> ([], Err e, compressor, w)
           | (Panic, s, compressor, w) \<Rightarrow> ([], Panic, compressor, w)
           | (Ok line, s, compressor, w) \<Rightarrow>
               (case drain_frames tj alloc quality s compressor w of (ls, rest) \<Rightarrow> (line # ls, rest))))"
  by pat_completeness auto
termination
  by (relation "measure (\<lambda>(tj, alloc, quality, s, compressor, w). length (frames s))")
    (auto dest!: try_take_frames [OF sym] consume_frame_frames [OF sym])

declare drain_frames.simps [simp del]

definition summary_line :: "PipelineSnapshot \<Rightarrow> string" where
  "summary_line snap =
     ''summary generation='' @ show_u64 (snap_generation snap)
     @ '' capacity='' @ show_nat (snap_capacity snap)
     @ '' accepted='' @ show_u64 (accepted (snap_stats snap))
     @ '' dequeued='' @ show_u64 (dequeued (snap_stats snap))
     @ '' dropped-capacity='' @ show_u64 (dropped_capacity (snap_stats snap))
     @ '' queued='' @ show_nat (snap_queued snap) @ '' usb-transmission=disabled''"

definition make_compressor ::
  "'w turbojpeg \<Rightarrow> bool \<Rightarrow> 'w \<Rightarrow> (Compressor option, string) outcome \<times> 'w" where
  "make_compressor tj encode w =
     (if encode
      then (case Compressor_new tj w of (r, w) \<Rightarrow>
              (map_ok Some (map_err (\<lambda>e. ''cannot initialize offline JPEG encoder: '' @ e) r), w))
      else (Ok None, w))"

text \<open>The compressor, once made, is dropped on return.\<close>

definition drain_and_summarise ::
  "'w turbojpeg \<Rightarrow> (usize \<Rightarrow> bool) \<Rightarrow> u8 \<Rightarrow> PipelineState \<Rightarrow> Compressor option \<Rightarrow> 'w \<Rightarrow> unit console \<times> 'w" where
  "drain_and_summarise tj alloc quality s compressor w =
     (case drain_frames tj alloc quality s compressor w of (ls, r, compressor, w) \<Rightarrow>
        (sequel (ls, r) (\<lambda>s. println (summary_line (snapshot s)) finished),
         case compressor of Some c \<Rightarrow> Compressor_drop tj c w | None \<Rightarrow> w))"

definition simulate_pattern ::
  "'w turbojpeg \<Rightarrow> (usize \<Rightarrow> bool) \<Rightarrow> PatternOptions \<Rightarrow> bool \<Rightarrow> 'w \<Rightarrow> unit console \<times> 'w" where
  "simulate_pattern tj alloc options encode w =
     (let prep =
        attempt (pattern_workload options) (\<lambda>layout.
        attempt (start_pipeline options) (\<lambda>s.
        print_lines (plan_lines options encode layout)
          (capture_frames alloc layout (map of_nat [0..<unat (po_frames options)]) s)))
      in case snd prep of
           Err e \<Rightarrow> ((fst prep, Err e), w)
         | Panic \<Rightarrow> ((fst prep, Panic), w)
         | Ok s \<Rightarrow>
             (case make_compressor tj encode w of
                (Err e, w) \<Rightarrow> ((fst prep, Err e), w)
              | (Panic, w) \<Rightarrow> ((fst prep, Panic), w)
              | (Ok compressor, w) \<Rightarrow>
                  (case drain_and_summarise tj alloc (po_quality options) s compressor w of
                     (out, w) \<Rightarrow> (print_lines (fst prep) out, w))))"

section \<open>Lemmas: the capture loop\<close>

definition pattern_frame :: "FrameLayout \<Rightarrow> nat \<Rightarrow> Frame" where
  "pattern_frame l n =
     (let i = \<lparr>generation = run_generation, sequence = of_nat n\<rparr>
      in \<lparr>frame_id = i, frame_layout = l, pixels = pattern_image i l\<rparr>)"

text \<open>The pipeline after \<open>n\<close> frames: the newest of them are queued, the others were dropped.\<close>

definition captured :: "FrameLayout \<Rightarrow> usize \<Rightarrow> nat \<Rightarrow> PipelineState" where
  "captured l cap n =
     \<lparr>active_generation = run_generation, capacity = cap,
      last_sequence = (if n = 0 then None else Some (of_nat (n - 1))),
      frames = map (pattern_frame l) [n - cap..<n],
      stats = PipelineStats_default\<lparr>accepted := of_nat n, dropped_capacity := of_nat (n - cap)\<rparr>\<rparr>"

definition capture_line :: "FrameLayout \<Rightarrow> usize \<Rightarrow> nat \<Rightarrow> string" where
  "capture_line l cap n =
     capture_prefix (of_nat n) (checksum (pattern_frame l n))
     @ (if n < cap then [] else '' drop-old='' @ show_u64 run_generation @ '':'' @ show_u64 (of_nat (n - cap)))"

lemma pattern_frame_simps [simp]:
  "frame_id (pattern_frame l n) = \<lparr>generation = run_generation, sequence = of_nat n\<rparr>"
  "frame_layout (pattern_frame l n) = l"
  by (simp_all add: pattern_frame_def Let_def)

lemma of_nat_less_u64: "m < n \<Longrightarrow> n < 2 ^ 64 \<Longrightarrow> (of_nat m :: u64) < of_nat n"
  by (simp add: word_less_nat_alt unat_of_nat)

lemma saturating_add_of_nat:
  assumes "n < 2 ^ 63"
  shows "saturating_add (of_nat n) 1 = of_nat (Suc n)"
proof -
  have "unat (of_nat n :: u64) = n" using assms by (simp add: unat_of_nat)
  moreover have "unat u64_max = 18446744073709551615" by (simp add: u64_max_def)
  ultimately have "unat (of_nat n :: u64) + unat (1 :: u64) \<le> unat u64_max" using assms by simp
  then show ?thesis by (simp add: saturating_add_def add.commute)
qed

lemma captured_acceptable: "n < 2 ^ 64 \<Longrightarrow> acceptable (pattern_frame l n) (captured l cap n)"
  using of_nat_less_u64 [of "n - 1" n] by (simp add: acceptable_def captured_def)

lemma submit_captured:
  assumes cap: "0 < cap" and n: "n < 2 ^ 63"
  shows "submit (pattern_frame l n) (captured l cap n) =
    (captured l cap (Suc n),
     if n < cap then Queued else DroppedOldest \<lparr>generation = run_generation, sequence = of_nat (n - cap)\<rparr>)"
proof -
  have enq: "submit (pattern_frame l n) (captured l cap n) = enqueue (pattern_frame l n) (captured l cap n)"
    using n by (simp add: submit_acceptable captured_acceptable)
  have acc: "saturating_add (of_nat n) 1 = of_nat (Suc n)" using n by (rule saturating_add_of_nat)
  show ?thesis
  proof (cases "n < cap")
    case True
    then show ?thesis
      unfolding enq by (simp add: enqueue_def Let_def captured_def acc del: of_nat_Suc)
  next
    case False
    then obtain k where k: "n - cap = k" "Suc n - cap = Suc k" "[k..<n] = k # [Suc k..<n]" "length [k..<n] = cap"
      using cap by (simp add: upt_conv_Cons)
    have drop: "saturating_add (of_nat k) 1 = of_nat (Suc k)" using n k(1) by (intro saturating_add_of_nat) simp
    have "frames (captured l cap n) = pattern_frame l k # map (pattern_frame l) [Suc k..<n]"
      and "length (frames (captured l cap n)) = cap"
      using k by (simp_all add: captured_def del: upt_Suc)
    moreover have "map (pattern_frame l) [Suc k..<Suc n] = map (pattern_frame l) [Suc k..<n] @ [pattern_frame l n]"
      using k(1) cap False by simp
    ultimately show ?thesis
      using False unfolding enq enqueue_def Let_def
      by (simp add: captured_def k acc drop del: of_nat_Suc upt_Suc)
  qed
qed

lemma capture_frame_captured:
  assumes "wf_layout l" and "alloc (byte_len l)" and "0 < cap" and "n < 2 ^ 63"
  shows "capture_frame alloc l (of_nat n) (captured l cap n) =
    ([capture_line l cap n], Ok (captured l cap (Suc n)))"
proof -
  have "test_pattern alloc \<lparr>generation = run_generation, sequence = of_nat n\<rparr> l = Ok (pattern_frame l n)"
    using assms(1,2) by (simp add: test_pattern_eq wf_layout_validate pattern_frame_def Let_def)
  then show ?thesis
    by (simp add: capture_frame_def submit_captured [OF assms(3,4)] capture_line_def display_FrameId_def)
qed

lemma capture_frames_captured:
  assumes "wf_layout l" and "alloc (byte_len l)" and "0 < cap" and "n + k < 2 ^ 63"
  shows "capture_frames alloc l (map of_nat [n..<n + k]) (captured l cap n) =
    (map (capture_line l cap) [n..<n + k], Ok (captured l cap (n + k)))"
  using assms(4)
proof (induction k arbitrary: n)
  case (Suc k)
  have "[n..<n + Suc k] = n # [Suc n..<Suc n + k]" by (simp add: upt_conv_Cons)
  with Suc.IH [of "Suc n"] Suc.prems capture_frame_captured [of l alloc cap n] assms(1-3) show ?case
    by simp
qed simp

lemma start_pipeline_eq:
  "0 < po_queue_capacity options \<Longrightarrow> start_pipeline options = Ok (captured l (po_queue_capacity options) 0)"
  by (simp add: start_pipeline_def FramePipeline_new_def begin_generation_def captured_def run_generation_def
      saturating_add_def PipelineStats_default_def Let_def)

section \<open>Lemmas: the workload\<close>

lemma pattern_workload_eq:
  assumes "FrameLayout_new (po_width options) (po_height options) = Ok l"
    and "byte_len l * unat (po_frames options) \<le> MAX_PATTERN_WORK_BYTES"
  shows "pattern_workload options = Ok l"
proof -
  have "byte_len l * min c (unat (po_frames options)) \<le> byte_len l * unat (po_frames options)" for c
    by simp
  then have "byte_len l * min c (unat (po_frames options)) \<le> MAX_PATTERN_WORK_BYTES" for c
    using assms(2) by (rule order_trans)
  note resident = this
  have "MAX_PATTERN_WORK_BYTES \<le> usize_max" by (simp add: const_simps)
  then have mul: "checked_mul (byte_len l) k = Some (byte_len l * k)"
    if "byte_len l * k \<le> MAX_PATTERN_WORK_BYTES" for k
    using that unfolding checked_mul_def by simp
  have ok: "ensure (\<not> x > MAX_PATTERN_WORK_BYTES) e = Ok ()" if "x \<le> MAX_PATTERN_WORK_BYTES" for x e
    using that by (simp add: ensure_def)
  show ?thesis
    unfolding pattern_workload_def assms(1) map_err.simps and_then.simps mul [OF assms(2)]
      mul [OF resident] ok [OF assms(2)] ok [OF resident] Let_def ok_or_def option.case ..
qed

section \<open>Lemmas: the drain loop\<close>

definition drained :: "PipelineState \<Rightarrow> PipelineState" where
  "drained s = s\<lparr>frames := [], stats := (stats s)
     \<lparr>dequeued := ((\<lambda>d. saturating_add d 1) ^^ length (frames s)) (dequeued (stats s))\<rparr>\<rparr>"

lemma drained_empty: "frames s = [] \<Longrightarrow> drained s = s"
  by (cases s) (simp add: drained_def)

lemma try_take_Cons:
  assumes "frames s = f # fs"
  obtains s1 where "try_take s = (s1, Some f)" "frames s1 = fs" "active_generation s1 = active_generation s"
    "drained s1 = drained s"
proof
  let ?s1 = "s\<lparr>frames := fs, stats := (stats s)\<lparr>dequeued := saturating_add (dequeued (stats s)) 1\<rparr>\<rparr>"
  show "try_take s = (?s1, Some f)" using assms by (simp add: try_take_def)
  show "drained ?s1 = drained s" using assms by (simp add: drained_def funpow_Suc_right del: funpow.simps)
qed simp_all

lemma drain_without_compressor:
  "drain_frames tj alloc quality s None w = (map input_line (frames s), Ok (drained s), None, w)"
proof (induction "frames s" arbitrary: s)
  case Nil
  then show ?case by (subst drain_frames.simps) (simp add: try_take_def drained_empty)
next
  case (Cons f fs)
  obtain s1 where s1: "try_take s = (s1, Some f)" "frames s1 = fs" "drained s1 = drained s"
    using try_take_Cons [of s f fs] Cons.hyps(2) by metis
  have "frames s = f # fs" using Cons.hyps(2) by simp
  with Cons.hyps(1) [of s1] s1 show ?case
    by (subst drain_frames.simps) (simp add: consume_frame_def)
qed

text \<open>What an encoded frame keeps of the captured one.\<close>

definition encodes :: "Frame \<Rightarrow> EncodedFrame \<Rightarrow> bool" where
  "encodes f e \<longleftrightarrow> jpeg_id e = frame_id f \<and> jpeg_width e = width (frame_layout f)
     \<and> jpeg_height e = height (frame_layout f) \<and> jpeg_boundary (jpeg_bytes e)"

lemma consume_frame_Some:
  assumes "writes_in_bounds tj" and "wf_compressor c" and "generation (frame_id f) = active_generation s"
  obtains (failed) e c' w' where "consume_frame tj alloc quality f s (Some c) w =
      (Err (''cannot encode frame '' @ display_FrameId (frame_id f) @ '': '' @ e), s, Some c', w')"
  | (encoded) jpeg c' w' where "consume_frame tj alloc quality f s (Some c) w =
      (Ok (encoded_line f jpeg), s, Some c', w')" "encodes f jpeg" "wf_compressor c'"
proof -
  obtain r c' w' where run: "compress_bgrx tj alloc f quality (c, w) = (r, c', w')"
    by (metis prod.exhaust)
  note sound = compress_bgrx_sound [OF assms(1,2) run]
  show ?thesis
  proof (cases r)
    case (Ok jpeg)
    then have "encodes f jpeg" "wf_compressor c'" using sound by (auto simp: encodes_def)
    moreover have "with_current_generation (jpeg_id jpeg) (\<lambda>u. (Some (), u)) s () = ((s, ()), Ok ())"
      using assms(3) calculation(1) by (simp add: with_current_generation_def gate_check_def encodes_def)
    ultimately show ?thesis using Ok run by (intro encoded) (simp_all add: consume_frame_def)
  next
    case (Err e)
    then show ?thesis using run by (intro failed) (simp add: consume_frame_def)
  next
    case Panic
    then show ?thesis using sound by simp
  qed
qed

lemma drain_with_compressor:
  assumes "writes_in_bounds tj" and "wf_compressor c"
    and "\<forall>f \<in> set (frames s). generation (frame_id f) = active_generation s"
  shows "case drain_frames tj alloc quality s (Some c) w of (ls, r, compressor, w') \<Rightarrow>
    (\<exists>jpegs. r = Ok (drained s) \<and> ls = map2 encoded_line (frames s) jpegs \<and> list_all2 encodes (frames s) jpegs)
    \<or> (\<exists>f \<in> set (frames s). \<exists>e. r = Err (''cannot encode frame '' @ display_FrameId (frame_id f) @ '': '' @ e))"
  using assms(2,3)
proof (induction "frames s" arbitrary: s c w)
  case Nil
  then show ?case by (subst drain_frames.simps) (simp add: try_take_def drained_empty)
next
  case (Cons f fs)
  obtain s1 where s1: "try_take s = (s1, Some f)" "frames s1 = fs" "active_generation s1 = active_generation s"
    "drained s1 = drained s"
    using try_take_Cons [of s f fs] Cons.hyps(2) by metis
  have gen: "generation (frame_id f) = active_generation s1"
    "\<forall>f \<in> set (frames s1). generation (frame_id f) = active_generation s1"
    using Cons.prems(2) Cons.hyps(2) s1 by (metis list.set_intros)+
  show ?case
  proof (rule consume_frame_Some [OF assms(1) Cons.prems(1) gen(1), of alloc quality w], goal_cases)
    case (1 e c' w')
    then show ?thesis
      using s1(1) Cons.hyps(2) [symmetric] by (subst drain_frames.simps) auto
  next
    case (2 jpeg c' w')
    note encoded = 2
    note IH = Cons.hyps(1) [OF s1(2) [symmetric] encoded(3) gen(2), of w']
    obtain ls r compressor w2 where d: "drain_frames tj alloc quality s1 (Some c') w' = (ls, r, compressor, w2)"
      by (metis prod.exhaust)
    then have run: "drain_frames tj alloc quality s (Some c) w = (encoded_line f jpeg # ls, r, compressor, w2)"
      by (subst drain_frames.simps) (simp add: s1(1) encoded(1))
    have frames: "frames s = f # frames s1" using Cons.hyps(2) s1(2) by simp
    from IH d consider jpegs where "r = Ok (drained s1)" "ls = map2 encoded_line (frames s1) jpegs"
        "list_all2 encodes (frames s1) jpegs"
      | f' e where "f' \<in> set (frames s1)"
        "r = Err (''cannot encode frame '' @ display_FrameId (frame_id f') @ '': '' @ e)"
      by (auto simp only: prod.case)
    then show ?thesis
    proof cases
      case 1
      then show ?thesis
        unfolding run prod.case frames using encoded(2) s1(4) by (intro disjI1 exI [of _ "jpeg # jpegs"]) simp
    next
      case 2
      then show ?thesis unfolding run prod.case frames by (intro disjI2) auto
    qed
  qed
qed

section \<open>Lemmas: the whole run\<close>

lemma saturating_count: "k < 2 ^ 63 \<Longrightarrow> ((\<lambda>d. saturating_add d 1) ^^ k) 0 = of_nat k"
proof (induction k)
  case (Suc k)
  then show ?case using saturating_add_of_nat [of k] by simp
qed simp

lemma show_u64_of_nat: "n < 2 ^ 64 \<Longrightarrow> show_u64 (of_nat n) = show_nat n"
  by (simp add: show_u64_def unat_of_nat)

definition run_summary :: "nat \<Rightarrow> usize \<Rightarrow> string" where
  "run_summary n cap =
     ''summary generation='' @ show_u64 run_generation @ '' capacity='' @ show_nat cap
     @ '' accepted='' @ show_nat n @ '' dequeued='' @ show_nat (min n cap)
     @ '' dropped-capacity='' @ show_nat (n - cap) @ '' queued='' @ show_nat 0 @ '' usb-transmission=disabled''"

lemma summary_drained:
  assumes "n < 2 ^ 63"
  shows "summary_line (snapshot (drained (captured l cap n))) = run_summary n cap"
proof -
  have min: "n - (n - cap) = min n cap" by auto
  then have "((\<lambda>d. saturating_add d 1) ^^ (n - (n - cap))) 0 = of_nat (min n cap)"
    unfolding min using assms by (intro saturating_count) simp
  moreover have "show_u64 (of_nat k) = show_nat k" if "k \<le> n" for k
    using assms that by (intro show_u64_of_nat) simp
  ultimately show ?thesis
    by (simp add: summary_line_def snapshot_def drained_def captured_def run_summary_def PipelineStats_default_def)
qed

lemma simulate_pattern_captured:
  assumes "FrameLayout_new (po_width options) (po_height options) = Ok l"
    and "byte_len l * unat (po_frames options) \<le> MAX_PATTERN_WORK_BYTES"
    and "0 < po_queue_capacity options" and "alloc (byte_len l)"
  shows "unat (po_frames options) < 2 ^ 63"
    and "simulate_pattern tj alloc options encode w =
     (let n = unat (po_frames options); cap = po_queue_capacity options;
          ls = plan_lines options encode l @ map (capture_line l cap) [0..<n]
      in case make_compressor tj encode w of
           (Err e, w) \<Rightarrow> ((ls, Err e), w)
         | (Panic, w) \<Rightarrow> ((ls, Panic), w)
         | (Ok compressor, w) \<Rightarrow>
             (case drain_and_summarise tj alloc (po_quality options) (captured l cap n) compressor w of
                (out, w) \<Rightarrow> (print_lines ls out, w)))"
proof -
  have wf: "wf_layout l" using assms(1) by (simp add: FrameLayout_new_Ok)
  then have "0 < byte_len l" by (simp add: wf_layout_def)
  then have "unat (po_frames options) \<le> byte_len l * unat (po_frames options)" by simp
  also note assms(2)
  also have "MAX_PATTERN_WORK_BYTES < 2 ^ 63" by (simp add: MAX_PATTERN_WORK_BYTES_def)
  finally show small: "unat (po_frames options) < 2 ^ 63" .
  have "capture_frames alloc l (map of_nat [0..<unat (po_frames options)]) (captured l (po_queue_capacity options) 0)
      = (map (capture_line l (po_queue_capacity options)) [0..<unat (po_frames options)],
         Ok (captured l (po_queue_capacity options) (unat (po_frames options))))"
    using capture_frames_captured [of l alloc "po_queue_capacity options" 0 "unat (po_frames options)"] wf assms(3,4) small
    by simp
  then show "simulate_pattern tj alloc options encode w =
     (let n = unat (po_frames options); cap = po_queue_capacity options;
          ls = plan_lines options encode l @ map (capture_line l cap) [0..<n]
      in case make_compressor tj encode w of
           (Err e, w) \<Rightarrow> ((ls, Err e), w)
         | (Panic, w) \<Rightarrow> ((ls, Panic), w)
         | (Ok compressor, w) \<Rightarrow>
             (case drain_and_summarise tj alloc (po_quality options) (captured l cap n) compressor w of
                (out, w) \<Rightarrow> (print_lines ls out, w)))"
    by (simp only: simulate_pattern_def pattern_workload_eq [OF assms(1,2)]
        start_pipeline_eq [where l = l, OF assms(3)] attempt.simps print_lines_Pair Let_def fst_conv snd_conv
        outcome.case)
qed

section \<open>Properties\<close>

text \<open>C16: the transcript of a dry run. For dimensions with a layout, a workload within the limit, a
  queue of at least one frame and an allocator that serves a frame, \<open>simulate_pattern\<close> without
  encoding succeeds and prints exactly: the plan, one capture line per frame, with the frame that fell
  out of the queue from the capacity on, the newest frames in order of capture, and a summary in which
  every frame is accepted, the excess over the capacity is dropped and nothing stays queued. The
  outside world is not touched.\<close>

theorem simulate_dry_run_transcript:
  assumes "FrameLayout_new (po_width options) (po_height options) = Ok l"
    and "byte_len l * unat (po_frames options) \<le> MAX_PATTERN_WORK_BYTES"
    and "0 < po_queue_capacity options" and "alloc (byte_len l)"
    and "n = unat (po_frames options)" and "cap = po_queue_capacity options"
  shows "simulate_pattern tj alloc options False w =
    ((plan_lines options False l @ map (capture_line l cap) [0..<n]
      @ map (\<lambda>k. input_line (pattern_frame l k)) [n - cap..<n] @ [run_summary n cap], Ok ()), w)"
proof -
  note run = simulate_pattern_captured [where alloc = alloc, OF assms(1-4)]
  have "drain_and_summarise tj alloc (po_quality options) (captured l cap n) None w =
      ((map (\<lambda>k. input_line (pattern_frame l k)) [n - cap..<n] @ [run_summary n cap], Ok ()), w)"
    using summary_drained [of n l cap] run(1) assms(5)
    by (simp add: drain_and_summarise_def drain_without_compressor finished_def captured_def comp_def)
  then show ?thesis
    unfolding run(2) by (simp add: make_compressor_def Let_def assms(5,6))
qed

theorem simulate_dry_run_transcript_witness:
  "\<exists>l. FrameLayout_new 2 2 = Ok l \<and>
     simulate_pattern stub_turbojpeg (\<lambda>_. True)
       \<lparr>po_width = 2, po_height = 2, po_frames = 3, po_queue_capacity = 2, po_quality = 80\<rparr> False () =
     ((plan_lines \<lparr>po_width = 2, po_height = 2, po_frames = 3, po_queue_capacity = 2, po_quality = 80\<rparr> False l
       @ map (capture_line l 2) [0..<3] @ map (\<lambda>k. input_line (pattern_frame l k)) [3 - 2..<3]
       @ [run_summary 3 2], Ok ()), ())"
proof -
  let ?o = "\<lparr>po_width = 2, po_height = 2, po_frames = 3, po_queue_capacity = 2, po_quality = 80\<rparr>"
  obtain l where l: "FrameLayout_new 2 2 = Ok l" and len: "byte_len l = 16" by (simp add: FrameLayout_new_eq)
  have "simulate_pattern stub_turbojpeg (\<lambda>_. True) ?o False () =
      ((plan_lines ?o False l @ map (capture_line l 2) [0..<3]
        @ map (\<lambda>k. input_line (pattern_frame l k)) [3 - 2..<3] @ [run_summary 3 2], Ok ()), ())"
    by (rule simulate_dry_run_transcript) (simp_all add: l len MAX_PATTERN_WORK_BYTES_def)
  with l show ?thesis by blast
qed

text \<open>C10: an encoding run fails only at the encoder. Under the same conditions, with a TurboJPEG that
  writes only inside its destination, the run with encoding either succeeds, with one line for each of
  the newest frames in order, of a JPEG with that frame's identifier and dimensions and the SOI and EOI
  markers, and the summary of the dry run; or it reports that the encoder cannot be initialised or
  that one of these frames cannot be encoded. It never panics, the queue rejects no generated frame,
  and the generation gate drops no encoded one.\<close>

theorem simulate_encode_outcome:
  assumes "FrameLayout_new (po_width options) (po_height options) = Ok l"
    and "byte_len l * unat (po_frames options) \<le> MAX_PATTERN_WORK_BYTES"
    and "0 < po_queue_capacity options" and "alloc (byte_len l)" and "writes_in_bounds tj"
    and "n = unat (po_frames options)" and "cap = po_queue_capacity options"
    and "newest = map (pattern_frame l) [n - cap..<n]"
    and "simulate_pattern tj alloc options True w = ((ls, r), w')"
  shows "(\<exists>jpegs. r = Ok () \<and> list_all2 encodes newest jpegs
      \<and> ls = plan_lines options True l @ map (capture_line l cap) [0..<n]
             @ map2 encoded_line newest jpegs @ [run_summary n cap])
    \<or> (\<exists>e. r = Err (''cannot initialize offline JPEG encoder: '' @ e))
    \<or> (\<exists>f \<in> set newest. \<exists>e. r = Err (''cannot encode frame '' @ display_FrameId (frame_id f) @ '': '' @ e))"
proof -
  note run = simulate_pattern_captured [where alloc = alloc, OF assms(1-4)]
  let ?s = "captured l cap n"
  have frames: "frames ?s = newest" by (simp add: captured_def assms(8))
  obtain q w1 where new: "Compressor_new tj w = (q, w1)" by fastforce
  then consider e where "q = Err e" | c where "q = Ok c" "wf_compressor c"
    by (auto simp: Compressor_new_def wf_compressor_def split: prod.splits option.splits)
  then show ?thesis
  proof cases
    case (1 e)
    then have "r = Err (''cannot initialize offline JPEG encoder: '' @ e)"
      using assms(9) new unfolding run(2) by (auto simp: make_compressor_def Let_def)
    then show ?thesis by blast
  next
    case (2 c)
    obtain ls2 r2 compressor w2 where d: "drain_frames tj alloc (po_quality options) ?s (Some c) w1 = (ls2, r2, compressor, w2)"
      by (metis prod.exhaust)
    have out: "(ls, r) = print_lines (plan_lines options True l @ map (capture_line l cap) [0..<n])
        (sequel (ls2, r2) (\<lambda>s. println (summary_line (snapshot s)) finished))"
      using assms(9) new 2(1) d unfolding run(2) assms(6) assms(7)
      by (simp add: make_compressor_def Let_def drain_and_summarise_def)
    have "\<forall>f \<in> set (frames ?s). generation (frame_id f) = active_generation ?s"
      by (auto simp: captured_def)
    from drain_with_compressor [OF assms(5) 2(2) this, of alloc "po_quality options" w1] d
    consider jpegs where "r2 = Ok (drained ?s)" "ls2 = map2 encoded_line newest jpegs" "list_all2 encodes newest jpegs"
      | f e where "f \<in> set newest" "r2 = Err (''cannot encode frame '' @ display_FrameId (frame_id f) @ '': '' @ e)"
      unfolding frames by (auto simp only: prod.case)
    then show ?thesis
    proof cases
      case (1 jpegs)
      with out run(1) have "r = Ok ()" "ls = plan_lines options True l @ map (capture_line l cap) [0..<n]
          @ map2 encoded_line newest jpegs @ [run_summary n cap]"
        by (simp_all add: summary_drained finished_def assms(6))
      with 1(3) show ?thesis by blast
    next
      case (2 f e)
      with out have "r = Err (''cannot encode frame '' @ display_FrameId (frame_id f) @ '': '' @ e)"
        by (simp add: sequel_def)
      with 2(1) show ?thesis by blast
    qed
  qed
qed

theorem simulate_encode_outcome_witness:
  "\<exists>ls r w'. simulate_pattern stub_turbojpeg (\<lambda>_. True)
       \<lparr>po_width = 2, po_height = 2, po_frames = 3, po_queue_capacity = 2, po_quality = 80\<rparr> True () = ((ls, r), w')
     \<and> r \<noteq> Panic"
proof -
  let ?o = "\<lparr>po_width = 2, po_height = 2, po_frames = 3, po_queue_capacity = 2, po_quality = 80\<rparr>"
  obtain l where l: "FrameLayout_new 2 2 = Ok l" and len: "byte_len l = 16" by (simp add: FrameLayout_new_eq)
  obtain ls r w' where run: "simulate_pattern stub_turbojpeg (\<lambda>_. True) ?o True () = ((ls, r), w')"
    by (metis prod.exhaust)
  let ?newest = "map (pattern_frame l) [3 - 2..<3]"
  have "(\<exists>jpegs. r = Ok () \<and> list_all2 encodes ?newest jpegs
      \<and> ls = plan_lines ?o True l @ map (capture_line l 2) [0..<3]
             @ map2 encoded_line ?newest jpegs @ [run_summary 3 2])
    \<or> (\<exists>e. r = Err (''cannot initialize offline JPEG encoder: '' @ e))
    \<or> (\<exists>f \<in> set ?newest. \<exists>e. r = Err (''cannot encode frame '' @ display_FrameId (frame_id f) @ '': '' @ e))"
    by (rule simulate_encode_outcome [OF _ _ _ _ stub_in_bounds _ _ refl run])
      (simp_all add: l len MAX_PATTERN_WORK_BYTES_def)
  then have "r \<noteq> Panic" by blast
  with run show ?thesis by blast
qed

end
