(* ===== verification/Screen_Cast.thy ===== *)
theory Screen_Cast
  imports Rust_Text
begin

text \<open>
  The compositor check of \<open>rust/src/screencast.rs\<close>: \<open>discover\<close> asks \<open>gdbus\<close> for the version of the
  ScreenCast interface and \<open>parse_version_output\<close> reads its answer. Running a program is a
  parameter: from its name and arguments it gives the collected output or the text of an I/O error.
\<close>

section \<open>Model\<close>

definition REQUIRED_API_VERSION :: u32 where [const_simps]: "REQUIRED_API_VERSION = 4"

record ScreenCastInfo =
  version :: u32
  compatible :: bool

record command_output =
  status_success :: bool
  status_text :: string
  out_stdout :: bytes
  out_stderr :: bytes

type_synonym run_command = "string \<Rightarrow> string list \<Rightarrow> (command_output, string) outcome"

definition parse_version_output :: "(nat \<Rightarrow> bool) \<Rightarrow> str \<Rightarrow> (u32, string) outcome" where
  "parse_version_output printable output =
     and_then (ok_or (Option.bind (strip_prefix ''(<'' (trim output)) (strip_suffix ''>,)''))
       (''unexpected gdbus Version response: '' @ debug_str printable output)) (\<lambda>value.
     let value = (case strip_prefix ''uint32 '' value of Some v \<Rightarrow> v | None \<Rightarrow> value) in
     and_then (ensure (\<not> (value = [] \<or> \<not> list_all is_ascii_digit value))
       (''invalid ScreenCast version value: '' @ debug_str printable value)) (\<lambda>_.
       ok_or (parse_u32 value) (''ScreenCast version is out of range: '' @ value)))"

text \<open>\<open>str::replace(['\r', '\n'], " ")\<close>.\<close>

definition replace_line_breaks :: "str \<Rightarrow> str" where
  "replace_line_breaks s = map (\<lambda>c. if c = CHR 0x0D \<or> c = CHR 0x0A then CHR '' '' else c) s"

definition gdbus_args :: "string list" where
  "gdbus_args =
     [''call'', ''--session'', ''--timeout=3'', ''--dest'', ''org.gnome.Mutter.ScreenCast'',
      ''--object-path'', ''/org/gnome/Mutter/ScreenCast'', ''--method'',
      ''org.freedesktop.DBus.Properties.Get'', ''org.gnome.Mutter.ScreenCast'', ''Version'']"

definition discover :: "(nat \<Rightarrow> bool) \<Rightarrow> run_command \<Rightarrow> (ScreenCastInfo, string) outcome" where
  "discover printable run =
     and_then (map_err (\<lambda>e. ''cannot execute gdbus: '' @ e)
       (run ''gdbus'' gdbus_args)) (\<lambda>output.
     if \<not> status_success output
     then let detail = replace_line_breaks (trim (from_utf8_lossy (out_stderr output))) in
          Err (if detail = [] then ''gdbus exited with '' @ status_text output
               else ''gdbus failed: '' @ detail)
     else
     and_then (ok_or (from_utf8 (out_stdout output)) ''gdbus returned non-UTF-8 output'') (\<lambda>stdout.
     and_then (parse_version_output printable stdout) (\<lambda>v.
       Ok \<lparr>version = v, compatible = (v \<ge> REQUIRED_API_VERSION)\<rparr>)))"

section \<open>Lemmas\<close>

lemma strip_prefix_Some: "strip_prefix p s = Some r \<longleftrightarrow> s = p @ r"
  by (auto simp: strip_prefix_def starts_with_def) (metis append_take_drop_id)+

lemma strip_suffix_Some: "strip_suffix p s = Some r \<longleftrightarrow> s = r @ p"
  by (auto simp: strip_suffix_def) (metis append_take_drop_id)

text \<open>The forms \<open>gdbus\<close> prints a number in: bare, or with its type.\<close>

definition version_forms :: "string \<Rightarrow> string list" where
  "version_forms digits = [''(<'' @ digits @ ''>,)'', ''(<uint32 '' @ digits @ ''>,)'']"

definition version_digits :: "string \<Rightarrow> bool" where
  "version_digits ds \<longleftrightarrow> ds \<noteq> [] \<and> list_all is_ascii_digit ds"

lemma version_digits_no_prefix: "version_digits ds \<Longrightarrow> strip_prefix ''uint32 '' ds = None"
proof (rule ccontr)
  assume "version_digits ds" and "strip_prefix ''uint32 '' ds \<noteq> None"
  then obtain r where "ds = ''uint32 '' @ r" by (auto simp: strip_prefix_Some)
  with \<open>version_digits ds\<close> show False by (simp add: version_digits_def is_ascii_digit_def)
qed

lemma parse_u32_digits:
  "version_digits ds \<Longrightarrow> parse_u32 ds = Some v \<longleftrightarrow> decimal_value ds = unat v"
proof -
  assume "version_digits ds"
  then have "parse_u32 ds = (if decimal_value ds \<le> 4294967295 then Some (of_nat (decimal_value ds)) else None)"
    by (simp add: parse_u32_def parse_unsigned_value version_digits_def)
  moreover have "unat v \<le> 4294967295" using unsigned_less [of v, where 'a = nat] by simp
  moreover have "of_nat n = v \<longleftrightarrow> n = unat v" if "n \<le> 4294967295" for n
    using that by (auto simp: unat_of_nat)
  ultimately show ?thesis by auto
qed

lemma parse_version_output_Ok:
  "parse_version_output printable s = Ok v \<longleftrightarrow>
     (\<exists>ds. version_digits ds \<and> decimal_value ds = unat v \<and> trim s \<in> set (version_forms ds))"
proof
  assume "parse_version_output printable s = Ok v"
  then obtain x where x: "trim s = ''(<'' @ x @ ''>,)''"
    and "let y = (case strip_prefix ''uint32 '' x of Some z \<Rightarrow> z | None \<Rightarrow> x) in
      version_digits y \<and> parse_u32 y = Some v"
    by (auto simp: parse_version_output_def outcome_simps Let_def bind_eq_Some_conv strip_prefix_Some
        strip_suffix_Some version_digits_def)
  then have "\<exists>y. (x = y \<or> x = ''uint32 '' @ y) \<and> version_digits y \<and> decimal_value y = unat v"
    by (cases "strip_prefix ''uint32 '' x") (auto simp: Let_def parse_u32_digits strip_prefix_Some)
  with x show "\<exists>ds. version_digits ds \<and> decimal_value ds = unat v \<and> trim s \<in> set (version_forms ds)"
    by (auto simp: version_forms_def)
next
  assume "\<exists>ds. version_digits ds \<and> decimal_value ds = unat v \<and> trim s \<in> set (version_forms ds)"
  then obtain ds x where ds: "version_digits ds" "decimal_value ds = unat v"
    and x: "trim s = ''(<'' @ x @ ''>,)''" "x = ds \<or> x = ''uint32 '' @ ds"
    by (auto simp: version_forms_def)
  have "strip_prefix ''(<'' (trim s) = Some (x @ ''>,)'')" "strip_suffix ''>,)'' (x @ ''>,)'') = Some x"
    using x(1) by (simp_all only: strip_prefix_Some strip_suffix_Some append_assoc)
  moreover have "(case strip_prefix ''uint32 '' x of Some z \<Rightarrow> z | None \<Rightarrow> x) = ds"
    using x(2) version_digits_no_prefix [OF ds(1)] strip_prefix_Some [of "''uint32 ''" x ds] by auto
  ultimately show "parse_version_output printable s = Ok v"
    using ds parse_u32_digits [OF ds(1), THEN iffD2, OF ds(2)]
    by (simp add: parse_version_output_def version_digits_def Let_def)
qed

lemma parse_version_output_no_panic: "parse_version_output printable s \<noteq> Panic"
  by (auto simp: parse_version_output_def outcome_simps Let_def)

section \<open>Properties\<close>

text \<open>C40: \<open>parse_version_output\<close> accepts exactly the answers that are, between white space, a decimal
  number in the bare or the typed form of \<open>gdbus\<close>, whose value fits \<open>u32\<close>, and returns that value;
  it never panics. Signs, extra text, other tuples and larger numbers are errors.\<close>

theorem version_output_exact:
  "(parse_version_output printable s = Ok v \<longleftrightarrow>
     (\<exists>ds. ds \<noteq> [] \<and> list_all is_ascii_digit ds \<and> decimal_value ds = unat v
        \<and> (trim s = ''(<'' @ ds @ ''>,)'' \<or> trim s = ''(<uint32 '' @ ds @ ''>,)'')))
   \<and> parse_version_output printable s \<noteq> Panic"
  using parse_version_output_Ok [of printable s v] parse_version_output_no_panic
  by (auto simp: version_digits_def version_forms_def)

text \<open>What \<open>discover\<close> reports comes from a successful \<open>gdbus\<close> call whose output is such an answer,
  and the compositor counts as compatible exactly from version 4 on; when the program cannot run,
  fails, or answers anything else, the result is an error, never a panic.\<close>

lemma discover_spec:
  assumes "\<And>program args. run program args \<noteq> Panic"
  shows "(discover printable run = Ok info \<longleftrightarrow>
      (\<exists>output s. run ''gdbus'' gdbus_args = Ok output \<and> status_success output
        \<and> from_utf8 (out_stdout output) = Some s \<and> parse_version_output printable s = Ok (version info)
        \<and> compatible info = (4 \<le> unat (version info))))
    \<and> discover printable run \<noteq> Panic"
proof
  show "discover printable run \<noteq> Panic"
    using assms parse_version_output_no_panic by (auto simp: discover_def outcome_simps Let_def)
  have "discover printable run = Ok info \<longleftrightarrow>
      (\<exists>output s v. run ''gdbus'' gdbus_args = Ok output \<and> status_success output
        \<and> from_utf8 (out_stdout output) = Some s \<and> parse_version_output printable s = Ok v
        \<and> info = \<lparr>version = v, compatible = (4 \<le> unat v)\<rparr>)"
    by (auto simp: discover_def outcome_simps Let_def const_simps word_le_nat_alt split: if_splits)
  then show "discover printable run = Ok info \<longleftrightarrow>
      (\<exists>output s. run ''gdbus'' gdbus_args = Ok output \<and> status_success output
        \<and> from_utf8 (out_stdout output) = Some s \<and> parse_version_output printable s = Ok (version info)
        \<and> compatible info = (4 \<le> unat (version info)))"
    by (cases info) auto
qed

end
