(* ===== verification/Program.thy ===== *)
theory Program
  imports Decode_Command Observer Simulation Screen_Cast
begin

text \<open>
  The program as a whole: \<open>print_screen_cast_version\<close> and \<open>main\<close> of \<open>rust/src/main.rs\<close>, which turns the
  process arguments into a command, runs it and maps its result to the exit status. The parameters of
  the components are collected in one record.
\<close>

section \<open>Model\<close>

record 'w system =
  sys_printable :: "nat \<Rightarrow> bool"
  sys_files :: file_system
  sys_run :: run_command
  sys_alloc :: "usize \<Rightarrow> bool"
  sys_libusb :: "'w libusb"
  sys_host :: "'w host"
  sys_turbojpeg :: "'w turbojpeg"

definition print_screen_cast_version :: "(nat \<Rightarrow> bool) \<Rightarrow> run_command \<Rightarrow> unit console" where
  "print_screen_cast_version printable run =
     attempt (discover printable run) (\<lambda>info.
       println (''screen-cast-version='' @ show_u32 (version info))
       (println (''required-minimum='' @ show_u32 REQUIRED_API_VERSION
                 @ '' compatible='' @ show_bool (compatible info)) finished))"

text \<open>What a finished process leaves: its two output streams, its exit status and the world. The
  status of a panic is 101, that of the language's runtime; its message is not modelled.\<close>

record 'w process =
  proc_stdout :: "string list"
  proc_stderr :: "string list"
  proc_status :: nat
  proc_world :: 'w

definition execute ::
  "'w system \<Rightarrow> Command \<Rightarrow> 'w \<Rightarrow> (string list \<times> string list \<times> (unit, string) outcome \<times> 'w) option" where
  "execute sys command w =
     (let offline = (\<lambda>(out, r). Some (out, [], r, w)) in
      case command of
        Observe duration \<Rightarrow>
          Option.bind (observe (sys_libusb sys) (sys_host sys) duration w) (\<lambda>(events, r, w).
            Some ([], map event_line events, r, w))
      | DecodeHex packet \<Rightarrow> offline (decode packet)
      | DecodeHexFile path \<Rightarrow>
          offline (attempt (read_hex_file (sys_printable sys) (sys_files sys) path) decode)
      | ProtocolInfo \<Rightarrow> offline print_protocol_info
      | Pattern options encode \<Rightarrow>
          (case simulate_pattern (sys_turbojpeg sys) (sys_alloc sys) options encode w of
             ((out, r), w) \<Rightarrow> Some (out, [], r, w))
      | ScreenCastVersion \<Rightarrow> offline (print_screen_cast_version (sys_printable sys) (sys_run sys)))"

definition finish :: "string list \<times> string list \<times> (unit, string) outcome \<times> 'w \<Rightarrow> 'w process" where
  "finish = (\<lambda>(out, err, r, w).
     case r of
       Ok _ \<Rightarrow> \<lparr>proc_stdout = out, proc_stderr = err, proc_status = 0, proc_world = w\<rparr>
     | Err e \<Rightarrow> \<lparr>proc_stdout = out, proc_stderr = err @ [''smiusbd-rs: '' @ e], proc_status = 1, proc_world = w\<rparr>
     | Panic \<Rightarrow> \<lparr>proc_stdout = out, proc_stderr = err, proc_status = 101, proc_world = w\<rparr>)"

text \<open>The arguments are byte strings, the program name first; \<open>env::args\<close> panics on one that is not
  UTF-8. \<open>None\<close> is a process that does not end.\<close>

definition main :: "'w system \<Rightarrow> bytes list \<Rightarrow> 'w \<Rightarrow> 'w process option" where
  "main sys args w =
     (case those (map from_utf8 args) of
        None \<Rightarrow> Some \<lparr>proc_stdout = [], proc_stderr = [], proc_status = 101, proc_world = w\<rparr>
      | Some all_args \<Rightarrow>
          (case parse_args (sys_printable sys) (drop 1 all_args) of
             Ok command \<Rightarrow> map_option finish (execute sys command w)
           | Err e \<Rightarrow> Some \<lparr>proc_stdout = [], proc_stderr = [e], proc_status = 2, proc_world = w\<rparr>
           | Panic \<Rightarrow> Some \<lparr>proc_stdout = [], proc_stderr = [], proc_status = 101, proc_world = w\<rparr>))"

section \<open>Lemmas: nothing offline panics\<close>

lemma discover_no_panic: "run ''gdbus'' gdbus_args \<noteq> Panic \<Longrightarrow> discover printable run \<noteq> Panic"
  by (simp add: discover_def parse_version_output_def outcome_simps Let_def)

lemma snd_sequel: "snd (sequel c k) = and_then (snd c) (\<lambda>v. snd (k v))"
  by (cases "snd c") (simp_all add: sequel_def)

lemma capture_frames_no_panic: "snd (capture_frames alloc l qs s) \<noteq> Panic"
proof (induction qs arbitrary: s)
  case (Cons q qs)
  have "test_pattern alloc i l \<noteq> Panic" for i by (simp add: test_pattern_eq outcome_simps)
  then have "snd (capture_frame alloc l q s) \<noteq> Panic"
    by (auto simp: capture_frame_def snd_attempt outcome_simps Let_def split: prod.split SubmitOutcome.split)
  with Cons show ?case by (simp add: snd_sequel outcome_simps)
qed simp

definition wf_encoder :: "Compressor option \<Rightarrow> bool" where
  "wf_encoder compressor \<longleftrightarrow> (\<forall>c. compressor = Some c \<longrightarrow> wf_compressor c)"

lemma consume_frame_no_panic:
  assumes "writes_in_bounds tj" and "wf_encoder compressor"
    and "consume_frame tj alloc quality f s compressor w = (r, s', compressor', w')"
  shows "r \<noteq> Panic \<and> wf_encoder compressor'"
proof (cases compressor)
  case (Some c)
  obtain r1 c1 w1 where run: "compress_bgrx tj alloc f quality (c, w) = (r1, c1, w1)"
    by (metis prod.exhaust)
  have "r1 \<noteq> Panic" "wf_compressor c1"
    using compress_bgrx_sound [OF assms(1) _ run] assms(2) Some by (auto simp: wf_encoder_def)
  then show ?thesis
    using assms(3) Some run
    by (cases r1) (auto simp: consume_frame_def wf_encoder_def with_current_generation_def gate_check_def
        split: if_splits)
qed (use assms in \<open>auto simp: consume_frame_def\<close>)

lemma drain_frames_no_panic:
  assumes "writes_in_bounds tj" and "wf_encoder compressor"
  shows "fst (snd (drain_frames tj alloc quality s compressor w)) \<noteq> Panic"
  using assms(2)
proof (induction "frames s" arbitrary: s compressor w)
  case Nil
  then show ?case by (subst drain_frames.simps) (simp add: try_take_def)
next
  case (Cons f fs)
  obtain s1 where s1: "try_take s = (s1, Some f)" "frames s1 = fs"
    using try_take_Cons [of s f fs] Cons.hyps(2) by metis
  obtain r s2 compressor' w' where step:
    "consume_frame tj alloc quality f s1 compressor w = (r, s2, compressor', w')" by (metis prod.exhaust)
  from consume_frame_no_panic [OF assms(1) Cons.prems step] have ok: "r \<noteq> Panic" "wf_encoder compressor'" by simp_all
  have "fs = frames s2" using s1(2) consume_frame_frames [OF step] by simp
  from Cons.hyps(1) [OF this ok(2), of w'] ok(1) show ?case
    by (subst drain_frames.simps) (cases r; simp add: s1(1) step case_prod_unfold)
qed

lemma simulate_pattern_no_panic:
  assumes "writes_in_bounds tj"
  shows "snd (fst (simulate_pattern tj alloc options encode w)) \<noteq> Panic"
proof -
  define prep where "prep = attempt (pattern_workload options) (\<lambda>layout.
        attempt (start_pipeline options) (\<lambda>s.
        print_lines (plan_lines options encode layout)
          (capture_frames alloc layout (map of_nat [0..<unat (po_frames options)]) s)))"
  have "pattern_workload options \<noteq> Panic"
    by (simp add: pattern_workload_def outcome_simps Let_def)
  moreover have "start_pipeline options \<noteq> Panic"
    by (simp add: start_pipeline_def FramePipeline_new_def begin_generation_def outcome_simps Let_def)
  ultimately have prep: "snd prep \<noteq> Panic"
    by (simp add: prep_def snd_attempt outcome_simps capture_frames_no_panic)
  have made: "r \<noteq> Panic \<and> (\<forall>compressor. r = Ok compressor \<longrightarrow> wf_encoder compressor)"
    if "make_compressor tj encode w = (r, w')" for r w'
    using that
    by (auto simp: make_compressor_def Compressor_new_def wf_encoder_def wf_compressor_def
        split: if_splits prod.splits option.splits)
  have drained: "snd (fst (drain_and_summarise tj alloc q s compressor w)) \<noteq> Panic" if "wf_encoder compressor"
    for q s compressor w
    using drain_frames_no_panic [OF assms that, of alloc q s w]
    by (simp add: drain_and_summarise_def case_prod_unfold snd_sequel outcome_simps)
  show ?thesis
    using prep made drained unfolding simulate_pattern_def prep_def [symmetric] Let_def
    by (cases "snd prep"; cases "make_compressor tj encode w"; cases "fst (make_compressor tj encode w)")
      (auto simp: case_prod_unfold)
qed

lemma decode_no_panic: "snd (decode p) \<noteq> Panic"
  using decode_result by blast

text \<open>The files and the programs of the outside answer with a result or an error.\<close>

definition outside_answers :: "'w system \<Rightarrow> bool" where
  "outside_answers sys \<longleftrightarrow>
     (\<forall>path. file_open (sys_files sys) path \<noteq> Panic
        \<and> (\<forall>file. file_open (sys_files sys) path = Ok file \<longrightarrow> file_length file \<noteq> Panic))
     \<and> sys_run sys ''gdbus'' gdbus_args \<noteq> Panic"

lemma read_hex_file_no_panic: "outside_answers sys \<Longrightarrow> read_hex_file printable (sys_files sys) path \<noteq> Panic"
  by (simp add: read_hex_file_def outside_answers_def outcome_simps read_hex_text_no_panic)

lemma execute_offline:
  assumes "outside_answers sys" and "writes_in_bounds (sys_turbojpeg sys)" and "\<And>d. command \<noteq> Observe d"
  obtains out r w' where "execute sys command w = Some (out, [], r, w')" "r \<noteq> Panic"
proof (cases command)
  case (Pattern options encode)
  then show ?thesis
    using that simulate_pattern_no_panic [OF assms(2), of "sys_alloc sys" options encode w]
    by (cases "simulate_pattern (sys_turbojpeg sys) (sys_alloc sys) options encode w")
      (auto simp: execute_def case_prod_unfold)
next
  case (DecodeHexFile path)
  have "snd (attempt (read_hex_file (sys_printable sys) (sys_files sys) path) decode) \<noteq> Panic"
    using read_hex_file_no_panic [OF assms(1)] decode_no_panic by (simp add: snd_attempt outcome_simps)
  with DecodeHexFile show ?thesis using that by (auto simp: execute_def case_prod_unfold)
next
  case ScreenCastVersion
  have "snd (print_screen_cast_version (sys_printable sys) (sys_run sys)) \<noteq> Panic"
    using discover_no_panic [of "sys_run sys"] assms(1)
    by (simp add: print_screen_cast_version_def snd_attempt outcome_simps outside_answers_def)
  with ScreenCastVersion show ?thesis using that by (auto simp: execute_def case_prod_unfold)
qed (use assms(3) that decode_no_panic print_protocol_info_Ok in \<open>auto simp: execute_def case_prod_unfold\<close>)

lemma from_utf8_ascii: "(\<forall>c \<in> set t. (of_char c :: nat) < 128) \<Longrightarrow> from_utf8 (ascii t) = Some t"
proof -
  assume "\<forall>c \<in> set t. (of_char c :: nat) < 128"
  then have "\<forall>a \<in> set (map unat (ascii t)). a < 128"
    by (auto simp: ascii_def unat_of_nat)
  then have "utf8_decode (map unat (ascii t)) \<noteq> None" by (simp add: utf8_decode_ascii)
  then show ?thesis by (simp add: from_utf8_def chars_of_ascii)
qed

lemma from_utf8_hex_text: "from_utf8 (ascii (hex_text p)) = Some (hex_text p)"
proof (rule from_utf8_ascii)
  have "(of_char (digit_char d) :: nat) < 128" if "d < 16" for d
    using that by (simp add: of_char_hex_digit)
  then show "\<forall>c \<in> set (hex_text p). (of_char c :: nat) < 128"
    using byte_digits_bound by (fastforce simp: hex_text_eq)
qed

lemma length_hex_text: "length (hex_text p) = 2 * length p"
  by (induction p) (simp_all add: hex_text_eq byte_digits_def)

lemma parse_args_decode_hex:
  "parse_args printable [''--decode-hex'', hex_text p] = Ok (DecodeHex p)"
  "parse_args printable [''--decode-hex-file'', ''-''] = Ok (DecodeHexFile ''-'')"
  by (simp_all add: parse_args_def parse_hex_hex_text)

lemma read_stdin_hex_text:
  assumes "stdin_reader fs = \<lparr>read_bytes = ascii (hex_text p), read_error = None\<rparr>"
    and "2 * length p \<le> MAX_HEX_TEXT_BYTES"
  shows "read_hex_file printable fs ''-'' = Ok p"
proof -
  have "\<not> usize_max \<le> MAX_HEX_TEXT_BYTES" by (simp add: const_simps)
  with assms show ?thesis
    by (simp add: read_hex_file_def read_hex_text_eq from_utf8_hex_text length_hex_text parse_hex_hex_text)
qed

end
