(* ===== verification/Protocol_Tests.thy ===== *)
theory Protocol_Tests
  imports Envelope
begin

text \<open>
  The unit tests of \<open>rust/src/protocol.rs\<close>, run on the model. Each test of the source is a
  Boolean-valued definition of the same name: \<open>assert_eq!\<close> is an equation, a panic of the test
  (a failed \<open>unwrap\<close>, an index out of range) makes it false, and a loop over inputs quantifies over
  the list it runs through. The fixture \<open>synthetic_frame_ack\<close> is built by the same writes as in the
  source; those of the frame tests are in \<open>Jpeg_Stream\<close> and \<open>Envelope\<close>. One property collects the
  tests: the model behaves as the suite of the repository demands of the code.
\<close>

unbundle bit_operations_syntax

section \<open>Assertions\<close>

text \<open>\<open>let x = r.unwrap();\<close> followed by the assertions about \<open>x\<close>.\<close>

primrec unwrapped :: "('a, 'e) outcome \<Rightarrow> ('a \<Rightarrow> bool) \<Rightarrow> bool" where
  "unwrapped (Ok x) test = test x"
| "unwrapped (Err e) test = False"
| "unwrapped Panic test = False"

text \<open>A packet of a fixture, whose construction can only panic.\<close>

abbreviation built :: "(bytes, unit) outcome \<Rightarrow> (bytes \<Rightarrow> bool) \<Rightarrow> bool" where
  "built \<equiv> unwrapped"

fun is_err :: "('a, 'e) outcome \<Rightarrow> bool" where
  "is_err (Err e) = True"
| "is_err _ = False"

section \<open>Acknowledgements\<close>

definition synthetic_frame_ack :: "u8 \<Rightarrow> (bytes, 'e) outcome" where
  "synthetic_frame_ack sequence =
     and_then (copy_into (replicate FRAME_ACK_SIZE 0xa5) 0 (length WIRE_MAGIC) WIRE_MAGIC) (\<lambda>packet.
     and_then (copy_into packet 12 16 (to_le_bytes 4 (of_nat FRAME_ACK_SIZE :: u32))) (\<lambda>packet.
     and_then (copy_into packet 16 20 (to_le_bytes 4 FRAME_ACK_SIGNATURE)) (\<lambda>packet.
     and_then (set_at packet 20 sequence) (\<lambda>packet.
       copy_into packet 21 24 (replicate 3 0)))))"

definition parses_observed_frame_ack_fixture :: bool where
  "parses_observed_frame_ack_fixture \<longleftrightarrow>
     built (synthetic_frame_ack 0x89) (\<lambda>packet.
       parse_frame_ack packet = Ok \<lparr>ack_sequence = 0x89, unclassified_bytes21_23 = [0, 0, 0]\<rparr>)"

definition frame_ack_rejects_every_truncation_and_an_oversized_packet :: bool where
  "frame_ack_rejects_every_truncation_and_an_oversized_packet \<longleftrightarrow>
     built (synthetic_frame_ack 0x37) (\<lambda>packet.
       (\<forall>actual \<in> set [0..<FRAME_ACK_SIZE]. built (slice_to packet actual) (\<lambda>cut.
          parse_frame_ack cut = Err (AckInvalidPacketLength actual FRAME_ACK_SIZE)))
       \<and> parse_frame_ack (packet @ [0]) = Err (AckInvalidPacketLength (FRAME_ACK_SIZE + 1) FRAME_ACK_SIZE))"

definition frame_ack_rejects_bad_magic_length_and_signature :: bool where
  "frame_ack_rejects_bad_magic_length_and_signature \<longleftrightarrow>
     built (and_then (synthetic_frame_ack 1) (\<lambda>p. set_at p 0 (p ! 0 XOR 0xff))) (\<lambda>bad_magic.
       parse_frame_ack bad_magic = Err AckBadMagic)
     \<and> built (and_then (synthetic_frame_ack 2) (\<lambda>p. copy_into p 12 16 (to_le_bytes 4 (512 :: u32)))) (\<lambda>bad_length.
       parse_frame_ack bad_length = Err (AckInvalidDeclaredLength 512))
     \<and> built (and_then (synthetic_frame_ack 3) (\<lambda>p. copy_into p 16 20 (to_le_bytes 4 (0xdeadbeef :: u32)))) (\<lambda>bad_signature.
       parse_frame_ack bad_signature = Err (AckInvalidSignature 0xdeadbeef))"

definition frame_ack_preserves_unclassified_bytes_without_rejecting_them :: bool where
  "frame_ack_preserves_unclassified_bytes_without_rejecting_them \<longleftrightarrow>
     (\<forall>offset \<in> set [21..<24].
        built (and_then (synthetic_frame_ack 0xfe) (\<lambda>p. set_at p offset (0x80 OR of_nat offset))) (\<lambda>packet.
        unwrapped (parse_frame_ack packet) (\<lambda>ack.
          ack_sequence ack = 0xfe
          \<and> unclassified_bytes21_23 ack ! (offset - 21) = 0x80 OR of_nat offset)))"

definition frame_ack_errors_have_specific_display_messages :: bool where
  "frame_ack_errors_have_specific_display_messages \<longleftrightarrow>
     display_FrameAckParseError (AckInvalidPacketLength 23 FRAME_ACK_SIZE)
       = ''frame ACK packet is 23 bytes; expected exactly 1024''
     \<and> display_FrameAckParseError (AckInvalidSignature 0xdeadbeef)
       = ''invalid frame ACK signature 0xdeadbeef; expected 0x010001e9''"

section \<open>Requests and modes\<close>

definition heartbeat_contains_client_tag_and_zeroes_remaining_tail :: bool where
  "heartbeat_contains_client_tag_and_zeroes_remaining_tail \<longleftrightarrow>
     unwrapped (build_bulk_heartbeat_request 10346) (\<lambda>packet.
       unwrapped (parse_canonical_command_request packet) (\<lambda>r. request_opcode r = 0xec)
       \<and> built (slice packet 21 HEARTBEAT_TAG_OFFSET) (list_all (\<lambda>byte. byte = 0))
       \<and> built (slice packet HEARTBEAT_TAG_OFFSET 40) (\<lambda>tag. tag = ascii ''10346'')
       \<and> built (slice_from packet 40) (list_all (\<lambda>byte. byte = 0)))"

definition heartbeat_rejects_a_tag_that_cannot_be_nul_terminated :: bool where
  "heartbeat_rejects_a_tag_that_cannot_be_nul_terminated \<longleftrightarrow>
     is_ok (build_bulk_heartbeat_request 99999999)
     \<and> build_bulk_heartbeat_request 100000000 = Err (ClientTagTooLong 9 8)"

definition capabilities_request_has_observed_shape :: bool where
  "capabilities_request_has_observed_shape \<longleftrightarrow>
     built build_capabilities_request (\<lambda>packet.
       length packet = 48
       \<and> unwrapped (parse_canonical_command_request packet) (\<lambda>r. request_opcode r = 0x65))"

definition parses_observed_mode_table_and_stops_at_zero_row :: bool where
  "parses_observed_mode_table_and_stops_at_zero_row \<longleftrightarrow>
     built (let put = (\<lambda>a v p. copy_into p a (a + 4) (to_le_bytes 4 (v :: u32))) in
       and_then (copy_into (replicate 96 0) 0 12 WIRE_MAGIC) (\<lambda>p.
       and_then (put 12 32 p) (\<lambda>p.
       and_then (put 48 1600 p) (\<lambda>p. and_then (put 52 900 p) (\<lambda>p.
       and_then (put 56 75 p) (\<lambda>p. and_then (put 60 32 p) (\<lambda>p.
       and_then (put 64 1280 p) (\<lambda>p. and_then (put 68 720 p) (\<lambda>p.
       and_then (put 72 60 p) (\<lambda>p. put 76 16 p)))))))))) (\<lambda>packet.
     unwrapped (parse_observed_modes packet) (\<lambda>modes. modes =
       [\<lparr>mode_width = 1600, mode_height = 900, refresh_hz = 75, bits_per_pixel = 32\<rparr>,
        \<lparr>mode_width = 1280, mode_height = 720, refresh_hz = 60, bits_per_pixel = 16\<rparr>]))"

definition rejects_bad_magic_and_inconsistent_request_length :: bool where
  "rejects_bad_magic_and_inconsistent_request_length \<longleftrightarrow>
     parse_header (replicate 21 0) = Err BadMagic
     \<and> unwrapped (build_bulk_heartbeat_request 1) (\<lambda>packet. built (set_at packet 12 48) (\<lambda>packet.
         case parse_canonical_command_request packet of
           Err (InvalidRequestLength _ _) \<Rightarrow> True
         | _ \<Rightarrow> False))"

section \<open>Frames\<close>

text \<open>The test compares the address of the borrowed JPEG slice with that of the payload; here the
  slice is compared with the bytes found at that place.\<close>

definition parses_borrowed_superspeed_frame_fixture :: bool where
  "parses_borrowed_superspeed_frame_fixture \<longleftrightarrow>
     built (synthetic_frame SUPER_SPEED_MAX_PACKET_SIZE) (\<lambda>packet.
     unwrapped (parse_frame_envelope packet SUPER_SPEED_MAX_PACKET_SIZE) (\<lambda>frame.
       env_sequence frame = 0x89 \<and> unclassified_byte23 frame = 0
       \<and> env_jpeg frame = synthetic_jpeg
       \<and> built (slice_from packet HEADER_SIZE) (\<lambda>rest. take (length (env_jpeg frame)) rest = env_jpeg frame)
       \<and> length (decoder_metadata frame) = JPEG_DECODER_METADATA_SIZE
       \<and> list_all (\<lambda>byte. byte = 0xa5) (decoder_metadata frame)
       \<and> length (env_padding frame) = 992
       \<and> list_all (\<lambda>byte. byte = 0) (env_padding frame)
       \<and> (length packet - HEADER_SIZE) mod SUPER_SPEED_MAX_PACKET_SIZE = 0))"

definition accepts_high_speed_alignment_explicitly :: bool where
  "accepts_high_speed_alignment_explicitly \<longleftrightarrow>
     built (synthetic_frame HIGH_SPEED_MAX_PACKET_SIZE) (\<lambda>packet.
     unwrapped (parse_frame_envelope packet HIGH_SPEED_MAX_PACKET_SIZE) (\<lambda>frame.
       length (env_jpeg frame) = 32 \<and> length (env_padding frame) = 480
       \<and> (length packet - HEADER_SIZE) mod HIGH_SPEED_MAX_PACKET_SIZE = 0))"

definition jpeg_parser_skips_segment_eoi_and_entropy_byte_stuffing :: bool where
  "jpeg_parser_skips_segment_eoi_and_entropy_byte_stuffing \<longleftrightarrow>
     parse_jpeg_end synthetic_jpeg = Ok (length synthetic_jpeg)
     \<and> built (slice synthetic_jpeg 7 9) (\<lambda>bs. bs = [0xff, 0xd9])
     \<and> built (slice synthetic_jpeg 23 26) (\<lambda>bs. bs = [0xff, 0x00, 0xd9])
     \<and> parse_jpeg_end [0xff, 0xd8, 0xff, 0xda, 0x00, 0x02] = Err (InvalidJpegScanHeader 2 2 0)"

definition reports_header_jpeg_and_decoder_truncation_separately :: bool where
  "reports_header_jpeg_and_decoder_truncation_separately \<longleftrightarrow>
     parse_frame_envelope (replicate (HEADER_SIZE - 1) 0) HIGH_SPEED_MAX_PACKET_SIZE
       = Err (FrameTooShort (HEADER_SIZE - 1) HEADER_SIZE)
     \<and> built (frame_with_parts [0xff, 0xd8, 0xff] 0 0) (\<lambda>truncated_marker.
         parse_frame_envelope truncated_marker HIGH_SPEED_MAX_PACKET_SIZE = Err (TruncatedJpegMarker 2))
     \<and> built (frame_with_parts synthetic_jpeg (JPEG_DECODER_METADATA_SIZE - 1) 0) (\<lambda>truncated_metadata.
         parse_frame_envelope truncated_metadata HIGH_SPEED_MAX_PACKET_SIZE
         = Err (TruncatedDecoderMetadata (JPEG_DECODER_METADATA_SIZE - 1) JPEG_DECODER_METADATA_SIZE))"

definition rejects_declared_length_mismatch_and_checked_length_overflow :: bool where
  "rejects_declared_length_mismatch_and_checked_length_overflow \<longleftrightarrow>
     built (synthetic_frame HIGH_SPEED_MAX_PACKET_SIZE) (\<lambda>packet.
     let declared = length packet - 1 in
     built (copy_into packet 12 16 (to_le_bytes 4 (of_nat declared :: u32))) (\<lambda>packet.
       parse_frame_envelope packet HIGH_SPEED_MAX_PACKET_SIZE
       = Err (DeclaredLengthMismatch declared (length packet))))
     \<and> align_payload_length usize_max HIGH_SPEED_MAX_PACKET_SIZE = Err LengthOverflow"

definition rejects_nonzero_and_excess_padding :: bool where
  "rejects_nonzero_and_excess_padding \<longleftrightarrow>
     built (and_then (synthetic_frame HIGH_SPEED_MAX_PACKET_SIZE) (\<lambda>p. set_at p (length p - 1) 0x7f)) (\<lambda>nonzero.
       parse_frame_envelope nonzero HIGH_SPEED_MAX_PACKET_SIZE = Err (NonZeroPadding 479 0x7f))
     \<and> built (frame_with_parts synthetic_jpeg JPEG_DECODER_METADATA_SIZE HIGH_SPEED_MAX_PACKET_SIZE) (\<lambda>excessive.
       parse_frame_envelope excessive HIGH_SPEED_MAX_PACKET_SIZE
       = Err (PaddingTooLong HIGH_SPEED_MAX_PACKET_SIZE (HIGH_SPEED_MAX_PACKET_SIZE - 1)))"

definition rejects_unaligned_payload_and_unknown_packet_size :: bool where
  "rejects_unaligned_payload_and_unknown_packet_size \<longleftrightarrow>
     built (frame_with_parts synthetic_jpeg JPEG_DECODER_METADATA_SIZE 0) (\<lambda>unaligned.
       parse_frame_envelope unaligned HIGH_SPEED_MAX_PACKET_SIZE
       = Err (UnalignedPayload (length synthetic_jpeg + JPEG_DECODER_METADATA_SIZE)
                (HIGH_SPEED_MAX_PACKET_SIZE * 41) HIGH_SPEED_MAX_PACKET_SIZE)
       \<and> parse_frame_envelope unaligned 64 = Err (InvalidMaxPacketSize 64))"

definition keeps_observed_sequence_byte_separate_from_unclassified_byte_23 :: bool where
  "keeps_observed_sequence_byte_separate_from_unclassified_byte_23 \<longleftrightarrow>
     built (and_then (synthetic_frame HIGH_SPEED_MAX_PACKET_SIZE) (\<lambda>p. set_at p 23 1)) (\<lambda>packet.
     unwrapped (parse_frame_envelope packet HIGH_SPEED_MAX_PACKET_SIZE) (\<lambda>frame.
       env_sequence frame = 0x89 \<and> unclassified_byte23 frame = 1))"

section \<open>Lemmas: acknowledgements\<close>

lemmas show_eval = show_radix.simps digit_char_def char_of_def show_hex_alt_def show_hex_pad_def
  zero_pad_def show_u8_def show_u32_def show_u64_def bit_Suc_0_iff

definition ack_bytes :: "u32 \<Rightarrow> u32 \<Rightarrow> u8 \<Rightarrow> bytes \<Rightarrow> bytes" where
  "ack_bytes declared signature sequence unclassified =
     WIRE_MAGIC @ to_le_bytes 4 declared @ to_le_bytes 4 signature @ [sequence] @ unclassified
     @ replicate 1000 0xa5"

lemma synthetic_frame_ack_eq: "synthetic_frame_ack s = Ok (ack_bytes 1024 FRAME_ACK_SIGNATURE s [0, 0, 0])"
proof -
  have "replicate 1024 (0xa5 :: u8) = replicate 12 0xa5 @ replicate 4 0xa5 @ replicate 4 0xa5
      @ [0xa5, 0xa5, 0xa5, 0xa5] @ replicate 1000 0xa5"
    by (simp add: replicate_add [symmetric] replicate_app_Cons_same eval_nat_numeral)
  then show ?thesis
    unfolding synthetic_frame_ack_def FRAME_ACK_SIZE_def
    by (simp add: copy_into_def set_at_def list_update_append take_Cons' drop_Cons' ack_bytes_def
        numeral_3_eq_3)
qed

lemma parse_ack_bytes:
  assumes "length u = 3"
  shows "parse_frame_ack (ack_bytes declared signature s u) =
    (if declared \<noteq> 1024 then Err (AckInvalidDeclaredLength declared)
     else if signature \<noteq> FRAME_ACK_SIGNATURE then Err (AckInvalidSignature signature)
     else Ok \<lparr>ack_sequence = s, unclassified_bytes21_23 = u\<rparr>)"
  using assms by (simp add: parse_frame_ack_eq ack_bytes_def u32_le.dec_enc nth_append drop_Cons' Let_def)

lemma length_ack_bytes: "length u = 3 \<Longrightarrow> length (ack_bytes d g s u) = 1024"
  by (simp add: ack_bytes_def)

lemma ack_bytes_writes:
  "and_then (synthetic_frame_ack s) (\<lambda>p. copy_into p 12 16 (to_le_bytes 4 d)) =
     Ok (ack_bytes d FRAME_ACK_SIGNATURE s [0, 0, 0])"
  "and_then (synthetic_frame_ack s) (\<lambda>p. copy_into p 16 20 (to_le_bytes 4 g)) =
     Ok (ack_bytes 1024 g s [0, 0, 0])"
  "k < 3 \<Longrightarrow> and_then (synthetic_frame_ack s) (\<lambda>p. set_at p (21 + k) b) =
     (Ok (ack_bytes 1024 FRAME_ACK_SIGNATURE s ([0, 0, 0] [k := b])) :: (bytes, unit) outcome)"
  by (auto simp: synthetic_frame_ack_eq copy_into_def set_at_def ack_bytes_def list_update_append
      take_Cons' drop_Cons' numeral_3_eq_3 less_Suc_eq)

lemma frame_ack_tests:
  "parses_observed_frame_ack_fixture"
  "frame_ack_rejects_every_truncation_and_an_oversized_packet"
  "frame_ack_rejects_bad_magic_length_and_signature"
  "frame_ack_preserves_unclassified_bytes_without_rejecting_them"
  "frame_ack_errors_have_specific_display_messages"
proof -
  show "parses_observed_frame_ack_fixture"
    by (simp add: parses_observed_frame_ack_fixture_def synthetic_frame_ack_eq parse_ack_bytes)
  show "frame_ack_rejects_every_truncation_and_an_oversized_packet"
    by (simp add: frame_ack_rejects_every_truncation_and_an_oversized_packet_def synthetic_frame_ack_eq
        slice_to_def length_ack_bytes parse_frame_ack_eq FRAME_ACK_SIZE_def)
  have "parse_frame_ack ((ack_bytes d g q [0, 0, 0]) [0 := x]) = Err AckBadMagic" if "x \<noteq> 0x73" for d g q x
    using that by (simp add: parse_frame_ack_eq length_ack_bytes) (simp add: ack_bytes_def WIRE_MAGIC_bytes)
  moreover have "ack_bytes d g q u ! 0 = 0x73" "ack_bytes d g q u \<noteq> []" for d g q u
    by (simp_all add: ack_bytes_def WIRE_MAGIC_bytes)
  ultimately show "frame_ack_rejects_bad_magic_length_and_signature"
    unfolding frame_ack_rejects_bad_magic_length_and_signature_def ack_bytes_writes
    by (simp add: parse_ack_bytes FRAME_ACK_SIGNATURE_def synthetic_frame_ack_eq set_at_def length_ack_bytes)
  have "[21..<24] = [21, 22, 23]" by (simp add: upt_rec)
  then show "frame_ack_preserves_unclassified_bytes_without_rejecting_them"
    using ack_bytes_writes(3) [of 0] ack_bytes_writes(3) [of 1] ack_bytes_writes(3) [of 2]
    by (simp add: frame_ack_preserves_unclassified_bytes_without_rejecting_them_def parse_ack_bytes)
  show "frame_ack_errors_have_specific_display_messages"
    by (simp add: frame_ack_errors_have_specific_display_messages_def show_eval const_simps)
qed

section \<open>Lemmas: requests and modes\<close>

lemma heartbeat_tests:
  "heartbeat_contains_client_tag_and_zeroes_remaining_tail"
  "heartbeat_rejects_a_tag_that_cannot_be_nul_terminated"
  "rejects_bad_magic_and_inconsistent_request_length"
proof -
  have bytes: "heartbeat_bytes 10346 = WIRE_MAGIC @ to_le_bytes 4 (44 :: u32) @ to_le_bytes 4 COMMAND_CLASS
      @ [0xec] @ replicate 14 0 @ ascii ''10346'' @ replicate 4 0"
    by (simp add: heartbeat_bytes_def show_eval BULK_HEARTBEAT_OPCODE_def)
  then have "parse_canonical_command_request (heartbeat_bytes 10346) = Ok \<lparr>request_length = 44, request_opcode = 0xec\<rparr>"
    by (simp add: parse_canonical_layout request_layout_def)
  with bytes show "heartbeat_contains_client_tag_and_zeroes_remaining_tail"
    by (simp add: heartbeat_contains_client_tag_and_zeroes_remaining_tail_def build_bulk_heartbeat_request_eq
        slice_def slice_from_def HEARTBEAT_TAG_OFFSET_def take_Cons' drop_Cons' list_all_iff)
  show "heartbeat_rejects_a_tag_that_cannot_be_nul_terminated"
    by (simp add: heartbeat_rejects_a_tag_that_cannot_be_nul_terminated_def build_bulk_heartbeat_request_eq
        show_eval)
  have "(to_le_bytes 4 (44 :: u32)) [0 := 48] = to_le_bytes 4 (48 :: u32)"
    by code_simp
  then have "(heartbeat_bytes 1) [12 := 48] = WIRE_MAGIC @ to_le_bytes 4 (48 :: u32) @ drop 16 (heartbeat_bytes 1)"
    by (simp add: heartbeat_bytes_def list_update_append)
  then have "parse_canonical_command_request ((heartbeat_bytes 1) [12 := 48]) = Err (InvalidRequestLength 48 44)"
    using length_heartbeat_bytes [of 1] by (simp add: parse_canonical_eq u32_le.dec_enc)
  moreover have zeros: "replicate 12 0 \<noteq> WIRE_MAGIC" by code_simp
  ultimately show "rejects_bad_magic_and_inconsistent_request_length"
    by (simp add: rejects_bad_magic_and_inconsistent_request_length_def build_bulk_heartbeat_request_eq
        parse_header_eq set_at_def length_heartbeat_bytes zeros)
qed

lemma request_tests:
  "capabilities_request_has_observed_shape"
  "parses_observed_mode_table_and_stops_at_zero_row"
proof -
  show "capabilities_request_has_observed_shape"
    by (simp add: capabilities_request_has_observed_shape_def build_capabilities_request_def const_simps
        build_zeroed_request_eq parse_canonical_eq u32_le.dec_enc nth_append Let_def)
  let ?modes = "[\<lparr>mode_width = 1600, mode_height = 900, refresh_hz = 75, bits_per_pixel = 32\<rparr>,
    \<lparr>mode_width = 1280, mode_height = 720, refresh_hz = 60, bits_per_pixel = 16\<rparr>]"
  let ?packet = "WIRE_MAGIC @ to_le_bytes 4 (32 :: u32) @ replicate 32 0 @ concat (map mode_bytes ?modes) @ replicate 16 0"
  have "replicate 96 (0 :: u8) = replicate 12 0 @ replicate 4 0 @ replicate 32 0 @ replicate 4 0 @ replicate 4 0
      @ replicate 4 0 @ replicate 4 0 @ replicate 4 0 @ replicate 4 0 @ replicate 4 0 @ replicate 4 0 @ replicate 16 0"
    by (simp add: replicate_add [symmetric])
  then have "parses_observed_mode_table_and_stops_at_zero_row \<longleftrightarrow>
      unwrapped (parse_observed_modes ?packet) (\<lambda>modes. modes = ?modes)"
    unfolding parses_observed_mode_table_and_stops_at_zero_row_def
    by (simp add: copy_into_def Let_def mode_bytes_def)
  moreover have "parse_observed_modes ((WIRE_MAGIC @ to_le_bytes 4 (32 :: u32) @ replicate 32 0)
      @ concat (map mode_bytes ?modes) @ replicate 16 0) = Ok ?modes"
    by (rule observed_modes_roundtrip)
      (simp_all add: plausible_def decode_mode_def from_le_bytes_zeros)
  ultimately show "parses_observed_mode_table_and_stops_at_zero_row" by simp
qed

section \<open>Lemmas: frames\<close>

text \<open>A packet with an intact header and a payload that starts with the fixture's JPEG stream: the
  parser reaches the part behind the stream.\<close>

definition frame_bytes :: "u8 \<Rightarrow> bytes \<Rightarrow> bytes" where
  "frame_bytes b23 payload =
     envelope_header 0x89 b23 (48 + length payload) (replicate 24 0) @ payload"

lemma length_frame_bytes: "length (frame_bytes b payload) = 48 + length payload"
  by (simp add: frame_bytes_def envelope_header_def)

lemma parse_frame_bytes:
  assumes "mps = 512 \<or> mps = 1024" and "length payload < 2 ^ 31"
  shows "parse_frame_envelope (frame_bytes b payload) mps =
    and_then (parse_jpeg_end payload) (envelope_tail (frame_bytes b payload) mps)"
proof -
  let ?p = "frame_bytes b payload"
  have "take 12 ?p = WIRE_MAGIC" "take 4 (drop 12 ?p) = to_le_bytes 4 (of_nat (length ?p) :: u32)"
    "take 4 (drop 16 ?p) = to_le_bytes 4 FRAME_SIGNATURE" "?p ! 20 = FRAME_TYPE" "?p ! 21 = FRAME_SUBTYPE"
    "drop 48 ?p = payload"
    by (simp_all add: frame_bytes_def envelope_header_def nth_append)
  moreover have "unat (of_nat (length ?p) :: u32) = length ?p"
    using assms(2) length_frame_bytes [of b payload] by (simp only: unat_of_nat) simp
  moreover have "48 \<le> length ?p" by (simp add: length_frame_bytes)
  ultimately show ?thesis
    using assms(1) by (simp only: parse_frame_envelope_eq u32_le.dec_enc Let_def) simp
qed

lemma parse_synthetic_payload:
  "length rest < 2 ^ 31 \<Longrightarrow> parse_jpeg_end (synthetic_jpeg @ rest) = Ok 32"
  using jpeg_end.complete [OF is_jpeg_synthetic, of rest]
  by (simp add: length_synthetic_jpeg usize_max_def)

lemma frame_with_parts_bytes:
  "length jpeg + d + k < 2 ^ 31 \<Longrightarrow>
     frame_with_parts jpeg d k = Ok (frame_bytes 0 (jpeg @ replicate d 0xa5 @ replicate k 0))"
  by (simp add: frame_with_parts_eq frame_bytes_def add.assoc Let_def)

lemma synthetic_frame_bytes:
  "synthetic_frame 512 = Ok (frame_bytes 0 (synthetic_jpeg @ replicate 0x5000 0xa5 @ replicate 480 0))"
  "synthetic_frame 1024 = Ok (frame_bytes 0 (synthetic_jpeg @ replicate 0x5000 0xa5 @ replicate 992 0))"
  by (simp_all add: synthetic_frame_eq frame_with_parts_bytes length_synthetic_jpeg pad_length_def)

lemma drop_frame_bytes:
  "drop 48 (frame_bytes b payload) = payload" "drop (48 + n) (frame_bytes b payload) = drop n payload"
proof -
  show d: "drop 48 (frame_bytes b payload) = payload" by (simp add: frame_bytes_def envelope_header_def)
  show "drop (48 + n) (frame_bytes b payload) = drop n payload"
    by (subst add.commute) (simp only: drop_drop [symmetric] d)
qed

lemma nth_frame_bytes: "frame_bytes b payload ! 22 = 0x89" "frame_bytes b payload ! 23 = b"
  by (simp_all add: frame_bytes_def envelope_header_def nth_append)

lemma parse_fixture:
  assumes "mps = 512 \<or> mps = 1024" and "length padding < 2 ^ 30"
  shows "parse_frame_envelope (frame_bytes b (synthetic_jpeg @ replicate 0x5000 0xa5 @ padding)) mps =
    (if mps \<le> length padding then Err (PaddingTooLong (length padding) (mps - 1))
     else case find_indexed 0 (\<lambda>b. b \<noteq> 0) padding of
         Some (offset, value) \<Rightarrow> Err (NonZeroPadding offset value)
       | None \<Rightarrow>
           if length padding \<noteq> mps - 32
           then Err (UnalignedPayload (20512 + length padding) (20480 + mps) mps)
           else Ok \<lparr>env_sequence = 0x89, unclassified_byte23 = b, env_jpeg = synthetic_jpeg,
                    decoder_metadata = replicate 0x5000 0xa5, env_padding = padding\<rparr>)"
proof -
  let ?payload = "synthetic_jpeg @ replicate 0x5000 0xa5 @ padding"
  have "parse_jpeg_end ?payload = Ok 32"
    by (rule parse_synthetic_payload) (use assms in simp)
  moreover have "length ?payload < 2 ^ 31" using assms by (simp add: length_synthetic_jpeg)
  moreover have "drop (48 + 32 + 0x5000) (frame_bytes b ?payload) = padding"
    "drop (48 + 32) (frame_bytes b ?payload) = replicate 0x5000 0xa5 @ padding"
    unfolding add.assoc drop_frame_bytes by (simp_all add: length_synthetic_jpeg)
  moreover have "pad_length mps (32 + 0x5000) = mps - 32" "32 + (mps - 32) = mps"
    using assms(1) by (auto simp: pad_length_def)
  ultimately show ?thesis
    using assms(1)
    by (simp add: parse_frame_bytes envelope_tail_def length_frame_bytes length_synthetic_jpeg
        nth_frame_bytes drop_frame_bytes Let_def split: option.split)
qed

lemmas speed_sizes = HIGH_SPEED_MAX_PACKET_SIZE_def SUPER_SPEED_MAX_PACKET_SIZE_def
  JPEG_DECODER_METADATA_SIZE_def HEADER_SIZE_def

lemma frame_parse_tests:
  "parses_borrowed_superspeed_frame_fixture"
  "accepts_high_speed_alignment_explicitly"
  "rejects_nonzero_and_excess_padding"
  "rejects_unaligned_payload_and_unknown_packet_size"
  "keeps_observed_sequence_byte_separate_from_unclassified_byte_23"
proof -
  show "parses_borrowed_superspeed_frame_fixture"
    by (simp add: parses_borrowed_superspeed_frame_fixture_def speed_sizes synthetic_frame_bytes parse_fixture
        slice_from_def length_frame_bytes drop_frame_bytes length_synthetic_jpeg list_all_iff)
  show "accepts_high_speed_alignment_explicitly"
    by (simp add: accepts_high_speed_alignment_explicitly_def speed_sizes synthetic_frame_bytes parse_fixture
        length_frame_bytes length_synthetic_jpeg)
  show "keeps_observed_sequence_byte_separate_from_unclassified_byte_23"
  proof -
    have "(frame_bytes b payload) [23 := c] = frame_bytes c payload" for b c payload
      by (simp add: frame_bytes_def envelope_header_def list_update_append)
    then show ?thesis
      by (simp add: keeps_observed_sequence_byte_separate_from_unclassified_byte_23_def speed_sizes
          synthetic_frame_bytes set_at_def length_frame_bytes parse_fixture)
  qed
  show "rejects_unaligned_payload_and_unknown_packet_size"
    using parse_fixture [of 512 "[]" 0]
    by (simp add: rejects_unaligned_payload_and_unknown_packet_size_def speed_sizes frame_with_parts_bytes
        length_synthetic_jpeg parse_frame_envelope_eq [where mps = 64])
  show "rejects_nonzero_and_excess_padding"
  proof -
    have "replicate 480 (0 :: u8) = replicate 479 0 @ [0]" using replicate_add [of 479 1 "0 :: u8"] by simp
    then have "(frame_bytes 0 (synthetic_jpeg @ replicate 0x5000 0xa5 @ replicate 480 0)) [21039 := 0x7f] =
        frame_bytes 0 (synthetic_jpeg @ replicate 0x5000 0xa5 @ replicate 479 0 @ [0x7f])"
      by (simp add: frame_bytes_def envelope_header_def list_update_append length_synthetic_jpeg)
    moreover have "find_indexed 0 (\<lambda>b. b \<noteq> 0) (replicate 479 0 @ [0x7f :: u8]) = Some (479, 0x7f)"
      by (simp add: find_indexed_Some nth_append)
    ultimately show ?thesis
      by (simp add: rejects_nonzero_and_excess_padding_def speed_sizes synthetic_frame_bytes set_at_def
          length_frame_bytes length_synthetic_jpeg frame_with_parts_bytes parse_fixture)
  qed
qed

text \<open>The two short streams of the tests, walked to their error.\<close>

lemmas walk_eval = parse_jpeg_end_def jpeg_walk.simps next_marker_def take_marker_def skip_fill.simps
  segment_end_def starts_with_def get_at_def checked_add_def usize_max_def

lemma short_streams:
  "parse_jpeg_end [0xff, 0xd8, 0xff] = Err (TruncatedJpegMarker 2)"
  "parse_jpeg_end [0xff, 0xd8, 0xff, 0xda, 0x00, 0x02] = Err (InvalidJpegScanHeader 2 2 0)"
proof -
  show "parse_jpeg_end [0xff, 0xd8, 0xff] = Err (TruncatedJpegMarker 2)"
    by (simp add: walk_eval)
  have "read_u16_be [0xff, 0xd8, 0xff, 0xda, 0x00, 0x02] 4 = (Ok 2 :: (u16, FrameParseError) outcome)"
    by (simp add: read_u16_be_def add_usize_def usize_max_def slice_def from_be_bytes_def)
  then show "parse_jpeg_end [0xff, 0xd8, 0xff, 0xda, 0x00, 0x02] = Err (InvalidJpegScanHeader 2 2 0)"
    by (simp add: walk_eval saturating_sub_def checked_mul_def Let_def)
qed

lemma frame_error_tests:
  "jpeg_parser_skips_segment_eoi_and_entropy_byte_stuffing"
  "reports_header_jpeg_and_decoder_truncation_separately"
  "rejects_declared_length_mismatch_and_checked_length_overflow"
proof -
  show "jpeg_parser_skips_segment_eoi_and_entropy_byte_stuffing"
    using parse_synthetic_payload [of "[]"]
    by (simp add: jpeg_parser_skips_segment_eoi_and_entropy_byte_stuffing_def short_streams length_synthetic_jpeg
        slice_def) (simp add: synthetic_jpeg_def)
  have "parse_frame_envelope (frame_bytes 0 (synthetic_jpeg @ replicate 20479 0xa5)) 512 =
      Err (TruncatedDecoderMetadata 20479 20480)"
    by (simp add: parse_frame_bytes parse_synthetic_payload length_synthetic_jpeg envelope_tail_def
        length_frame_bytes)
  then show "reports_header_jpeg_and_decoder_truncation_separately"
    by (simp add: reports_header_jpeg_and_decoder_truncation_separately_def speed_sizes frame_with_parts_bytes
        length_synthetic_jpeg parse_frame_bytes short_streams parse_frame_envelope_eq [where p = "replicate 47 0"])
  let ?q = "frame_bytes 0 (synthetic_jpeg @ replicate 0x5000 0xa5 @ replicate 480 0)"
  have "parse_frame_envelope (take 12 ?q @ to_le_bytes 4 (21039 :: u32) @ drop 16 ?q) 512 =
      Err (DeclaredLengthMismatch 21039 21040)"
    using parse_frame_envelope_mismatch [of 512 "take 12 ?q @ to_le_bytes 4 (21039 :: u32) @ drop 16 ?q" 21039]
    by (simp add: length_frame_bytes length_synthetic_jpeg) (simp add: frame_bytes_def envelope_header_def)
  then show "rejects_declared_length_mismatch_and_checked_length_overflow"
    by (simp add: rejects_declared_length_mismatch_and_checked_length_overflow_def speed_sizes
        synthetic_frame_bytes copy_into_def length_frame_bytes length_synthetic_jpeg align_payload_length_def
        sub_usize_def checked_add_def usize_max_def)
qed

section \<open>All tests\<close>

text \<open>The model passes the unit tests of \<open>protocol.rs\<close>: the acknowledgement, request, mode table, JPEG
  and frame parsers give, on the fixtures of the repository and on their cut, extended and damaged
  variants, exactly the values, errors and messages the 18 tests assert.\<close>

lemma protocol_tests_hold:
  "parses_observed_frame_ack_fixture
   \<and> frame_ack_rejects_every_truncation_and_an_oversized_packet
   \<and> frame_ack_rejects_bad_magic_length_and_signature
   \<and> frame_ack_preserves_unclassified_bytes_without_rejecting_them
   \<and> frame_ack_errors_have_specific_display_messages
   \<and> heartbeat_contains_client_tag_and_zeroes_remaining_tail
   \<and> heartbeat_rejects_a_tag_that_cannot_be_nul_terminated
   \<and> capabilities_request_has_observed_shape
   \<and> parses_observed_mode_table_and_stops_at_zero_row
   \<and> rejects_bad_magic_and_inconsistent_request_length
   \<and> parses_borrowed_superspeed_frame_fixture
   \<and> accepts_high_speed_alignment_explicitly
   \<and> jpeg_parser_skips_segment_eoi_and_entropy_byte_stuffing
   \<and> reports_header_jpeg_and_decoder_truncation_separately
   \<and> rejects_declared_length_mismatch_and_checked_length_overflow
   \<and> rejects_nonzero_and_excess_padding
   \<and> rejects_unaligned_payload_and_unknown_packet_size
   \<and> keeps_observed_sequence_byte_separate_from_unclassified_byte_23"
  by (intro conjI frame_ack_tests heartbeat_tests request_tests frame_parse_tests frame_error_tests)

end
