(* ===== verification/Component_Tests.thy ===== *)
theory Component_Tests
  imports Program Protocol_Tests
begin

text \<open>
  The unit tests of \<open>rust/src/frame.rs\<close>, \<open>jpeg.rs\<close>, \<open>main.rs\<close>, \<open>usb.rs\<close> and \<open>screencast.rs\<close>, run on the
  model as in \<open>Protocol_Tests\<close>. What the tests take from outside stays a parameter: the allocator,
  TurboJPEG, and which characters \<open>Debug\<close> prints as they are. The size of a C struct is
  tested in \<open>C_Layout\<close>, the blocking of a second thread and the checksums of two large patterns in
  \<open>Scenario_Tests\<close>, the round trip through the decoder of TurboJPEG in \<open>Roundtrip_Test\<close>. The \<open>Send\<close> and
  \<open>Sync\<close> bounds, which only the compiler checks, are left out.
\<close>

section \<open>Frames and the pipeline\<close>

definition frame :: "(usize \<Rightarrow> bool) \<Rightarrow> u64 \<Rightarrow> u64 \<Rightarrow> (Frame, FrameError) outcome" where
  "frame alloc g n =
     and_then (FrameLayout_new 8 4) (test_pattern alloc \<lparr>generation = g, sequence = n\<rparr>)"

definition layout_and_buffer_lengths_are_checked :: "(usize \<Rightarrow> bool) \<Rightarrow> bool" where
  "layout_and_buffer_lengths_are_checked alloc \<longleftrightarrow>
     FrameLayout_new 0 1 = Err ZeroDimension
     \<and> (case FrameLayout_new (MAX_DIMENSION + 1) 1 of Err (DimensionTooLarge _ _ _) \<Rightarrow> True | _ \<Rightarrow> False)
     \<and> (case FrameLayout_new MAX_DIMENSION MAX_DIMENSION of Err (FrameTooLarge _ _) \<Rightarrow> True | _ \<Rightarrow> False)
     \<and> unwrapped (FrameLayout_new 2 2) (\<lambda>layout.
         stride layout = 8
         \<and> (case from_bgrx \<lparr>generation = 1, sequence = 0\<rparr> layout (replicate 15 0) of
              Err (PixelLength _ _) \<Rightarrow> True | _ \<Rightarrow> False))
     \<and> (let inconsistent = \<lparr>width = 2, height = 2, stride = 8, byte_len = 1\<rparr> in
          FrameLayout_validate inconsistent = Err InconsistentLayout
          \<and> (case from_bgrx \<lparr>generation = 1, sequence = 0\<rparr> inconsistent [0] of
               Err InconsistentLayout \<Rightarrow> True | _ \<Rightarrow> False))
     \<and> allocate_zeroed alloc usize_max = Err (AllocationFailed usize_max)"

text \<open>\<open>assert_eq!(pipeline.submit(frame(g, n)), outcome)\<close> and what follows it.\<close>

definition submits ::
  "(usize \<Rightarrow> bool) \<Rightarrow> u64 \<Rightarrow> u64 \<Rightarrow> SubmitOutcome \<Rightarrow> PipelineState \<Rightarrow> (PipelineState \<Rightarrow> bool) \<Rightarrow> bool" where
  "submits alloc g n outcome pipeline continue \<longleftrightarrow>
     unwrapped (frame alloc g n) (\<lambda>f.
       case submit f pipeline of (pipeline, r) \<Rightarrow> r = outcome \<and> continue pipeline)"

text \<open>\<open>pipeline.try_take().unwrap()\<close> and the assertions on the frame.\<close>

definition takes ::
  "PipelineState \<Rightarrow> (Frame \<Rightarrow> PipelineState \<Rightarrow> bool) \<Rightarrow> bool" where
  "takes pipeline continue \<longleftrightarrow>
     (case try_take pipeline of
        (pipeline, Some f) \<Rightarrow> continue f pipeline
      | (pipeline, None) \<Rightarrow> False)"

text \<open>\<open>pipeline.begin_generation(g).unwrap()\<close> and the assertions on the number of discarded frames.\<close>

definition begins :: "u64 \<Rightarrow> PipelineState \<Rightarrow> (usize \<Rightarrow> PipelineState \<Rightarrow> bool) \<Rightarrow> bool" where
  "begins g pipeline continue \<longleftrightarrow>
     (case begin_generation g pipeline of (pipeline, r) \<Rightarrow>
        unwrapped r (\<lambda>discarded. continue discarded pipeline))"

definition bounded_queue_drops_oldest :: "(usize \<Rightarrow> bool) \<Rightarrow> bool" where
  "bounded_queue_drops_oldest alloc \<longleftrightarrow>
     unwrapped (FramePipeline_new 2 7) (\<lambda>pipeline.
     submits alloc 7 0 Queued pipeline (\<lambda>pipeline.
     submits alloc 7 1 Queued pipeline (\<lambda>pipeline.
     submits alloc 7 2 (DroppedOldest \<lparr>generation = 7, sequence = 0\<rparr>) pipeline (\<lambda>pipeline.
     takes pipeline (\<lambda>f pipeline. sequence (frame_id f) = 1
     \<and> takes pipeline (\<lambda>f pipeline. sequence (frame_id f) = 2
     \<and> (case try_take pipeline of (pipeline, taken) \<Rightarrow>
          taken = None
          \<and> (let snap = snapshot pipeline in
               accepted (snap_stats snap) = 3 \<and> dropped_capacity (snap_stats snap) = 1
               \<and> dequeued (snap_stats snap) = 2))))))))"

definition generation_transition_clears_and_rejects_late_frames :: "(usize \<Rightarrow> bool) \<Rightarrow> bool" where
  "generation_transition_clears_and_rejects_late_frames alloc \<longleftrightarrow>
     unwrapped (FramePipeline_new 2 3) (\<lambda>pipeline.
     submits alloc 3 4 Queued pipeline (\<lambda>pipeline.
     begins 4 pipeline (\<lambda>discarded pipeline. discarded = 1
     \<and> submits alloc 3 5 (RejectedGeneration 4 3) pipeline (\<lambda>pipeline.
     submits alloc 4 0 Queued pipeline (\<lambda>pipeline.
     submits alloc 4 0 (RejectedSequence 0 0) pipeline (\<lambda>pipeline.
     (case begin_generation 4 pipeline of (pipeline, r) \<Rightarrow>
        (case r of Err (GenerationNotIncreasing _ _) \<Rightarrow> True | _ \<Rightarrow> False)
        \<and> (let snap = snapshot pipeline in
             discarded_generation (snap_stats snap) = 1 \<and> rejected_generation (snap_stats snap) = 1
             \<and> rejected_sequence (snap_stats snap) = 1))))))))"

text \<open>The world of the first closure is the variable \<open>called\<close>.\<close>

definition sink_gate_never_runs_for_an_old_generation :: bool where
  "sink_gate_never_runs_for_an_old_generation \<longleftrightarrow>
     unwrapped (FramePipeline_new 1 9) (\<lambda>pipeline.
     begins 10 pipeline (\<lambda>_ pipeline.
     (case with_current_generation \<lparr>generation = 9, sequence = 3\<rparr> (\<lambda>called. (Some (), True)) pipeline False of
        ((pipeline, called), r) \<Rightarrow>
          r = Err \<lparr>mismatch_active = 10, mismatch_received = 9\<rparr> \<and> \<not> called
          \<and> rejected_sink_generation (snap_stats (snapshot pipeline)) = 1
          \<and> snd (with_current_generation \<lparr>generation = 10, sequence = 0\<rparr> (\<lambda>w. (Some (42 :: i32), w))
                   pipeline ()) = Ok 42)))"

section \<open>Compression\<close>

definition rejects_invalid_quality_before_ffi :: "'w turbojpeg \<Rightarrow> (usize \<Rightarrow> bool) \<Rightarrow> 'w \<Rightarrow> bool" where
  "rejects_invalid_quality_before_ffi tj alloc w \<longleftrightarrow>
     unwrapped (and_then (FrameLayout_new 8 8) (test_pattern alloc \<lparr>generation = 1, sequence = 0\<rparr>)) (\<lambda>f.
     case Compressor_new tj w of (r, w) \<Rightarrow> unwrapped r (\<lambda>c.
     case compress_bgrx tj alloc f 0 (c, w) of (r, c, w) \<Rightarrow>
       is_err r \<and> (case compress_bgrx tj alloc f 101 (c, w) of (r, c, w) \<Rightarrow> is_err r)))"

definition encoded_frame_from_old_generation_is_rejected_before_sink ::
  "'w turbojpeg \<Rightarrow> (usize \<Rightarrow> bool) \<Rightarrow> 'w \<Rightarrow> bool" where
  "encoded_frame_from_old_generation_is_rejected_before_sink tj alloc w \<longleftrightarrow>
     unwrapped (FramePipeline_new 1 4) (\<lambda>pipeline.
     unwrapped (and_then (FrameLayout_new 64 48) (test_pattern alloc \<lparr>generation = 4, sequence = 12\<rparr>)) (\<lambda>f.
     case submit f pipeline of (pipeline, outcome) \<Rightarrow> outcome = Queued
     \<and> takes pipeline (\<lambda>in_flight pipeline.
     case Compressor_new tj w of (r, w) \<Rightarrow> unwrapped r (\<lambda>c.
     case compress_bgrx tj alloc in_flight 80 (c, w) of (r, c, w) \<Rightarrow> unwrapped r (\<lambda>encoded.
       jpeg_id encoded = frame_id in_flight
       \<and> begins 5 pipeline (\<lambda>_ pipeline.
           case with_current_generation (jpeg_id encoded) (\<lambda>reached_sink. (Some (), True)) pipeline False of
             ((pipeline, reached_sink), r) \<Rightarrow>
               r = Err \<lparr>mismatch_active = 5, mismatch_received = 4\<rparr> \<and> \<not> reached_sink))))))"

definition checksum_matches_known_fnv1a_vectors :: bool where
  "checksum_matches_known_fnv1a_vectors \<longleftrightarrow>
     fnv1a64 (ascii '''') = 0xcbf29ce484222325 \<and> fnv1a64 (ascii ''a'') = 0xaf63dc4c8601ec8c"

section \<open>The command line\<close>

definition parses_observe_duration :: "(nat \<Rightarrow> bool) \<Rightarrow> bool" where
  "parses_observe_duration printable \<longleftrightarrow>
     unwrapped (parse_args printable [''--observe'', ''--duration'', ''5'']) (\<lambda>c. c = Observe (Some 5))"

definition hex_parser_accepts_capture_friendly_separators :: "(nat \<Rightarrow> bool) \<Rightarrow> bool" where
  "hex_parser_accepts_capture_friendly_separators printable \<longleftrightarrow>
     unwrapped (parse_hex printable ''73:6d 69\<newline>66'') (\<lambda>bs. bs = ascii ''smif'')"

definition rejects_zero_duration_and_odd_hex :: "(nat \<Rightarrow> bool) \<Rightarrow> bool" where
  "rejects_zero_duration_and_odd_hex printable \<longleftrightarrow>
     is_err (parse_args printable [''--observe'', ''--duration'', ''0''])
     \<and> is_err (parse_hex printable ''abc'')"

text \<open>The second character of the input is U+00E9, two bytes of UTF-8.\<close>

definition hex_parser_rejects_non_ascii_without_panicking :: "(nat \<Rightarrow> bool) \<Rightarrow> bool" where
  "hex_parser_rejects_non_ascii_without_panicking printable \<longleftrightarrow>
     is_err (parse_hex printable [CHR ''a'', CHR 0xC3, CHR 0xA9, CHR ''x''])"

definition parses_decode_hex_file_path_and_stdin :: "(nat \<Rightarrow> bool) \<Rightarrow> bool" where
  "parses_decode_hex_file_path_and_stdin printable \<longleftrightarrow>
     unwrapped (parse_args printable [''--decode-hex-file'', ''capture.hex'']) (\<lambda>c. c = DecodeHexFile ''capture.hex'')
     \<and> unwrapped (parse_args printable [''--decode-hex-file'', ''-'']) (\<lambda>c. c = DecodeHexFile ''-'')"

text \<open>\<open>str::contains\<close>.\<close>

fun contains :: "str \<Rightarrow> str \<Rightarrow> bool" where
  "contains [] pat \<longleftrightarrow> pat = []"
| "contains (c # cs) pat \<longleftrightarrow> take (length pat) (c # cs) = pat \<or> contains cs pat"

definition bounded_hex_reader_counts_whitespace_and_rejects_before_parsing :: "(nat \<Rightarrow> bool) \<Rightarrow> bool" where
  "bounded_hex_reader_counts_whitespace_and_rejects_before_parsing printable \<longleftrightarrow>
     (let cursor = (\<lambda>s. \<lparr>read_bytes = ascii s, read_error = None\<rparr>) in
      unwrapped (read_hex_text printable (cursor ''00 \<newline>'') 4) (\<lambda>bs. bs = [0])
      \<and> (case read_hex_text printable (cursor ''xxxxx'') 4 of
           Err e \<Rightarrow> contains e ''exceeds the 4 byte safety limit'' \<and> \<not> contains e ''invalid hex digit''
         | _ \<Rightarrow> False))"

definition generic_decoder_accepts_observed_opcode_specific_header_words :: bool where
  "generic_decoder_accepts_observed_opcode_specific_header_words \<longleftrightarrow>
     list_all (\<lambda>(opcode, word12, word16).
       built (and_then (copy_into (replicate 44 0) 0 (length WIRE_MAGIC) WIRE_MAGIC) (\<lambda>packet.
         and_then (copy_into packet 12 16 (to_le_bytes 4 word12)) (\<lambda>packet.
         and_then (copy_into packet 16 20 (to_le_bytes 4 word16)) (\<lambda>packet.
           set_at packet 20 opcode)))) (\<lambda>packet. is_ok (snd (decode packet))))
     [(0x45 :: u8, 8 :: u32, 6 :: u32), (0x32, 44, 0x10000006)]"

definition parses_pattern_options_and_alias :: "(nat \<Rightarrow> bool) \<Rightarrow> bool" where
  "parses_pattern_options_and_alias printable \<longleftrightarrow>
     (let expected_options =
        \<lparr>po_width = 1600, po_height = 900, po_frames = 3, po_queue_capacity = 1, po_quality = 91\<rparr> in
      unwrapped (parse_args printable
        [''--pattern'', ''1600x900'', ''--queue'', ''1'', ''--frames'', ''3'', ''--quality'', ''91''])
        (\<lambda>c. c = Pattern expected_options False)
      \<and> unwrapped (parse_args printable
        [''--encode-plan'', ''1600X900'', ''--frames'', ''3'', ''--queue'', ''1'', ''--quality'', ''91''])
        (\<lambda>c. c = Pattern expected_options True))"

definition rejects_unsafe_pattern_options ::
  "'w turbojpeg \<Rightarrow> (usize \<Rightarrow> bool) \<Rightarrow> (nat \<Rightarrow> bool) \<Rightarrow> 'w \<Rightarrow> bool" where
  "rejects_unsafe_pattern_options tj alloc printable w \<longleftrightarrow>
     is_ok (parse_args printable [''--pattern'', ''0x900''])
     \<and> is_err (snd (fst (simulate_pattern tj alloc
         \<lparr>po_width = 0, po_height = 900, po_frames = 1, po_queue_capacity = 1, po_quality = 80\<rparr> False w)))
     \<and> is_err (parse_args printable [''--pattern'', ''800x600'', ''--frames'', ''0''])
     \<and> is_err (parse_args printable [''--pattern'', ''800x600'', ''--queue'', ''999''])
     \<and> is_err (parse_args printable [''--encode-plan'', ''800x600'', ''--quality'', ''0''])"

section \<open>USB and the compositor\<close>

definition speed_values_match_libusb_enum :: bool where
  "speed_values_match_libusb_enum \<longleftrightarrow>
     Speed_from 3 = High \<and> Speed_from 4 = Super \<and> Speed_from 5 = SuperPlus \<and> Speed_from 99 = Other 99"

definition bcd_formatter_preserves_nibbles :: bool where
  "bcd_formatter_preserves_nibbles \<longleftrightarrow> format_bcd 0x0320 = ''3.20'' \<and> format_bcd 0x0001 = ''0.01''"

definition parses_gdbus_variant_formats :: "(nat \<Rightarrow> bool) \<Rightarrow> bool" where
  "parses_gdbus_variant_formats printable \<longleftrightarrow>
     unwrapped (parse_version_output printable ''(<4>,)\<newline>'') (\<lambda>v. v = 4)
     \<and> unwrapped (parse_version_output printable ''(<uint32 12>,)'') (\<lambda>v. v = 12)"

definition rejects_ambiguous_or_out_of_range_versions :: "(nat \<Rightarrow> bool) \<Rightarrow> bool" where
  "rejects_ambiguous_or_out_of_range_versions printable \<longleftrightarrow>
     is_err (parse_version_output printable ''(4,)'')
     \<and> is_err (parse_version_output printable ''(<4 extra>,)'')
     \<and> is_err (parse_version_output printable ''(<4294967296>,)'')"

section \<open>Lemmas: frames and compression\<close>

lemma frame_Ok:
  "alloc 128 \<Longrightarrow> \<exists>px. frame alloc g n =
     Ok \<lparr>frame_id = \<lparr>generation = g, sequence = n\<rparr>,
         frame_layout = \<lparr>width = 8, height = 4, stride = 32, byte_len = 128\<rparr>, pixels = px\<rparr>"
  by (simp add: frame_def FrameLayout_new_eq test_pattern_eq wf_layout_validate wf_layout_def)

lemma layout_tests: "layout_and_buffer_lengths_are_checked alloc"
  by (simp add: layout_and_buffer_lengths_are_checked_def FrameLayout_new_eq FrameLayout_validate_def
      from_bgrx_def allocate_zeroed_def const_simps Let_def)

lemma gate_test: "sink_gate_never_runs_for_an_old_generation"
  by (simp add: sink_gate_never_runs_for_an_old_generation_def FramePipeline_new_def begins_def
      begin_generation_def with_current_generation_def gate_check_def snapshot_def PipelineStats_default_def
      saturating_add_def u64_max_def Let_def)

lemma queue_test: "alloc 128 \<Longrightarrow> bounded_queue_drops_oldest alloc"
  using frame_Ok [of alloc 7 0] frame_Ok [of alloc 7 1] frame_Ok [of alloc 7 2]
  by (auto simp: bounded_queue_drops_oldest_def FramePipeline_new_def submits_def submit_def enqueue_def
      takes_def try_take_def snapshot_def PipelineStats_default_def saturating_add_def u64_max_def word_le_nat_alt Let_def)

lemma transition_test: "alloc 128 \<Longrightarrow> generation_transition_clears_and_rejects_late_frames alloc"
  using frame_Ok [of alloc 3 4] frame_Ok [of alloc 3 5] frame_Ok [of alloc 4 0]
  by (auto simp: generation_transition_clears_and_rejects_late_frames_def FramePipeline_new_def submits_def
      submit_def enqueue_def begins_def begin_generation_def snapshot_def PipelineStats_default_def
      saturating_add_def u64_max_def Let_def)

lemma quality_test:
  assumes "alloc 256" and "tjInitCompress tj w = (Some h, w')"
  shows "rejects_invalid_quality_before_ffi tj alloc w"
  using assms
  by (simp add: rejects_invalid_quality_before_ffi_def FrameLayout_new_eq test_pattern_eq wf_layout_validate
      wf_layout_def Compressor_new_def compress_bgrx_def check_jpeg_frame_def ensure_def)

lemma fnv_test: "checksum_matches_known_fnv1a_vectors"
  using fnv1a64_vectors by (simp add: checksum_matches_known_fnv1a_vectors_def ascii_def)

section \<open>Lemmas: the command line\<close>

lemmas digits_eval = parse_u8_def parse_u32_def parse_u64_def parse_usize_def parse_unsigned_def
  is_ascii_digit_def

lemma duration_tests: "parses_observe_duration printable" "parses_decode_hex_file_path_and_stdin printable"
  by (simp_all add: parses_observe_duration_def parses_decode_hex_file_path_and_stdin_def parse_args_def digits_eval)

lemma bcd_tests: "speed_values_match_libusb_enum" "bcd_formatter_preserves_nibbles"
  by (simp_all add: speed_values_match_libusb_enum_def Speed_from_def bcd_formatter_preserves_nibbles_def
      format_bcd_def show_eval)

lemma pattern_option_tests: "parses_pattern_options_and_alias printable"
  by (simp add: parses_pattern_options_and_alias_def parse_args_def parse_pattern_args_def parse_dimensions_def
      is_dimension_separator_def slice_to_def slice_from_def pattern_option_def option_defaults_def
      const_simps digits_eval word_less_nat_alt word_le_nat_alt)

lemmas hex_eval = parse_hex_def chars_def utf8_decode.simps utf8_next_def is_cont_def chunks_exact.simps
  is_ascii_whitespace_def is_ascii_hexdigit_def to_digit_16_def

lemma hex_tests:
  "hex_parser_accepts_capture_friendly_separators printable"
  "rejects_zero_duration_and_odd_hex printable"
  "hex_parser_rejects_non_ascii_without_panicking printable"
  by (simp_all add: hex_parser_accepts_capture_friendly_separators_def rejects_zero_duration_and_odd_hex_def
      hex_parser_rejects_non_ascii_without_panicking_def parse_args_def digits_eval hex_eval ascii_def)

lemma version_tests:
  "parses_gdbus_variant_formats printable" "rejects_ambiguous_or_out_of_range_versions printable"
  by (simp_all add: parses_gdbus_variant_formats_def rejects_ambiguous_or_out_of_range_versions_def
      parse_version_output_def trim_def utf8_encode_def utf8_encode_char_def is_whitespace_def strip_prefix_def
      strip_suffix_def starts_with_def hex_eval digits_eval show_eval ensure_def Let_def)

lemma reader_test: "bounded_hex_reader_counts_whitespace_and_rejects_before_parsing printable"
  by (simp add: bounded_hex_reader_counts_whitespace_and_rejects_before_parsing_def read_hex_text_def
      take_read_to_end_def checked_add_def usize_try_from_def usize_max_def from_utf8_def hex_eval ascii_def
      show_eval ensure_def Let_def)

lemma unsafe_option_test: "rejects_unsafe_pattern_options tj alloc printable w"
  by (simp add: rejects_unsafe_pattern_options_def parse_args_def parse_pattern_args_def parse_dimensions_def
      is_dimension_separator_def slice_to_def slice_from_def pattern_option_def option_defaults_def
      const_simps digits_eval word_less_nat_alt word_le_nat_alt simulate_pattern_def pattern_workload_def
      FrameLayout_new_def Let_def)

lemma decoder_test: "generic_decoder_accepts_observed_opcode_specific_header_words"
proof -
  have packet: "and_then (copy_into (replicate 44 0) 0 (length WIRE_MAGIC) WIRE_MAGIC) (\<lambda>packet.
      and_then (copy_into packet 12 16 (to_le_bytes 4 word12)) (\<lambda>packet.
      and_then (copy_into packet 16 20 (to_le_bytes 4 word16)) (\<lambda>packet. set_at packet 20 opcode))) =
      Ok (WIRE_MAGIC @ to_le_bytes 4 word12 @ to_le_bytes 4 word16 @ [opcode] @ replicate 23 0)"
    for opcode and word12 word16 :: u32
  proof -
    have "replicate 44 (0 :: u8) = replicate 12 0 @ replicate 4 0 @ replicate 4 0 @ [0] @ replicate 23 0"
      by (simp add: replicate_add [symmetric] replicate_app_Cons_same eval_nat_numeral)
    then show ?thesis by (simp add: copy_into_def set_at_def list_update_append take_Cons' drop_Cons')
  qed
  have "is_ok (snd (decode (WIRE_MAGIC @ to_le_bytes 4 word12 @ to_le_bytes 4 word16 @ [opcode] @ replicate 23 0)))"
    if "word16 \<noteq> FRAME_SIGNATURE" for opcode and word12 word16 :: u32
    using that
    by (simp add: decode_def parse_header_eq u32_le.dec_enc const_simps parse_canonical_eq Let_def)
  then show ?thesis
    unfolding generic_decoder_accepts_observed_opcode_specific_header_words_def packet
    by (simp add: FRAME_SIGNATURE_def)
qed

section \<open>Lemmas: an encoding library\<close>

text \<open>What the compression tests need of TurboJPEG: it initialises, asks for a destination within the
  limit, and answers a call that keeps its contract with one stream between the two boundary markers.\<close>

definition encoding_library :: "'w turbojpeg \<Rightarrow> bytes \<Rightarrow> bytes \<Rightarrow> bool" where
  "encoding_library tj jpeg rest \<longleftrightarrow>
     jpeg_boundary jpeg \<and> length (jpeg @ rest) \<le> MAX_JPEG_BUFFER_BYTES
     \<and> (\<forall>w. \<exists>h w'. tjInitCompress tj w = (Some h, w'))
     \<and> (\<forall>x y s w. \<exists>w'. tjBufSize tj x y s w = (of_nat (length (jpeg @ rest)), w'))
     \<and> (\<forall>w. \<exists>w'. \<forall>a. ffi_ok a \<longrightarrow> length (arg_destination a) = length (jpeg @ rest) \<longrightarrow>
         tjCompress2 tj a w = (\<lparr>res_code = 0, res_destination = jpeg @ rest, res_moved = False,
           res_size = of_nat (length jpeg)\<rparr>, w'))"

lemma encoding_library_compresses:
  assumes "encoding_library tj jpeg rest" and "\<forall>n \<le> isize_max. alloc n"
    and "wf_frame f" and "1 \<le> quality" and "quality \<le> 100" and "wf_compressor c"
  shows "\<exists>c' w'. compress_bgrx tj alloc f quality (c, w) =
      (Ok \<lparr>jpeg_id = frame_id f, jpeg_bytes = jpeg, jpeg_width = width (frame_layout f),
           jpeg_height = height (frame_layout f), jpeg_quality = quality\<rparr>, c', w')
    \<and> wf_compressor c' \<and> scratch_capacity c' = max (scratch_capacity c) (length (jpeg @ rest))"
proof -
  let ?n = "length (jpeg @ rest)"
  from assms(1) obtain w1 where w1: "tjBufSize tj (int (unat (width (frame_layout f))))
      (int (unat (height (frame_layout f)))) TJSAMP_422 w = (of_nat ?n, w1)"
    unfolding encoding_library_def by blast
  from assms(1) obtain w2 where w2: "\<And>a. ffi_ok a \<Longrightarrow> length (arg_destination a) = ?n \<Longrightarrow>
      tjCompress2 tj a w1 = (\<lparr>res_code = 0, res_destination = jpeg @ rest, res_moved = False,
        res_size = of_nat (length jpeg)\<rparr>, w2)"
    unfolding encoding_library_def by blast
  have n: "0 < ?n" "?n \<le> MAX_JPEG_BUFFER_BYTES" "jpeg_boundary jpeg"
    using assms(1) by (auto simp: encoding_library_def jpeg_boundary_def)
  moreover have "alloc ?n" "alloc (length jpeg)"
    using n(2) assms(2) by (simp_all add: MAX_JPEG_BUFFER_BYTES_def isize_max_def)
  moreover have "Frame_validate f = Ok ()" using assms(3) by (simp add: Frame_validate_Ok)
  ultimately show ?thesis
    using compress_succeeds [OF _ assms(4-6) w1, of alloc jpeg rest w2] w2 by blast
qed

lemma encoded_test:
  assumes "encoding_library tj jpeg rest" and "\<forall>n \<le> isize_max. alloc n"
  shows "encoded_frame_from_old_generation_is_rejected_before_sink tj alloc w"
proof -
  let ?l = "\<lparr>width = 64, height = 48, stride = 256, byte_len = 12288\<rparr>"
  let ?i = "\<lparr>generation = 4, sequence = 12\<rparr>"
  let ?f = "\<lparr>frame_id = ?i, frame_layout = ?l, pixels = pattern_image ?i ?l\<rparr>"
  have f: "and_then (FrameLayout_new 64 48) (test_pattern alloc ?i) = Ok ?f"
    using assms(2)
    by (simp add: FrameLayout_new_eq test_pattern_eq wf_layout_validate wf_layout_def isize_max_def)
  have wf: "wf_frame ?f" by (simp add: wf_frame_def wf_layout_def length_pattern_image)
  obtain h w1 where new: "tjInitCompress tj w = (Some h, w1)"
    using assms(1) unfolding encoding_library_def by blast
  let ?c = "\<lparr>tj_raw = h, scratch = [], scratch_capacity = 0\<rparr>"
  have "wf_compressor ?c" by (simp add: wf_compressor_def)
  then obtain e c' w2 where enc: "compress_bgrx tj alloc ?f 80 (?c, w1) = (Ok e, c', w2)" "jpeg_id e = ?i"
    using encoding_library_compresses [OF assms wf, where quality = 80 and c = ?c and w = w1] by (auto simp: word_le_nat_alt)
  show ?thesis
    unfolding encoded_frame_from_old_generation_is_rejected_before_sink_def f
    by (simp add: FramePipeline_new_def submit_def enqueue_def takes_def try_take_def Compressor_new_def new enc
        begins_def begin_generation_def with_current_generation_def gate_check_def Let_def)
qed

section \<open>All tests\<close>

text \<open>The model passes the unit tests of \<open>frame.rs\<close>, \<open>jpeg.rs\<close>, \<open>main.rs\<close>, \<open>usb.rs\<close> and
  \<open>screencast.rs\<close> listed here, when the allocator serves every request and TurboJPEG encodes: layouts,
  the queue and the generations behave as asserted, work of an old generation never reaches the
  sink, and the parsers of arguments, hexadecimal text and version answers accept and refuse the
  inputs of the tests.\<close>

lemma component_tests_hold:
  assumes "\<forall>n \<le> isize_max. alloc n" and "encoding_library tj jpeg rest"
  shows "layout_and_buffer_lengths_are_checked alloc
   \<and> bounded_queue_drops_oldest alloc
   \<and> generation_transition_clears_and_rejects_late_frames alloc
   \<and> sink_gate_never_runs_for_an_old_generation
   \<and> rejects_invalid_quality_before_ffi tj alloc w
   \<and> encoded_frame_from_old_generation_is_rejected_before_sink tj alloc w
   \<and> checksum_matches_known_fnv1a_vectors
   \<and> parses_observe_duration printable
   \<and> hex_parser_accepts_capture_friendly_separators printable
   \<and> rejects_zero_duration_and_odd_hex printable
   \<and> hex_parser_rejects_non_ascii_without_panicking printable
   \<and> parses_decode_hex_file_path_and_stdin printable
   \<and> bounded_hex_reader_counts_whitespace_and_rejects_before_parsing printable
   \<and> generic_decoder_accepts_observed_opcode_specific_header_words
   \<and> parses_pattern_options_and_alias printable
   \<and> rejects_unsafe_pattern_options tj alloc printable w
   \<and> speed_values_match_libusb_enum
   \<and> bcd_formatter_preserves_nibbles
   \<and> parses_gdbus_variant_formats printable
   \<and> rejects_ambiguous_or_out_of_range_versions printable"
proof -
  have "alloc 128" "alloc 256" using assms(1) by (simp_all add: isize_max_def)
  moreover obtain h w' where "tjInitCompress tj w = (Some h, w')"
    using assms(2) unfolding encoding_library_def by blast
  ultimately show ?thesis
    by (intro conjI layout_tests queue_test transition_test gate_test quality_test encoded_test [OF assms(2,1)]
        fnv_test duration_tests hex_tests reader_test decoder_test pattern_option_tests unsafe_option_test
        bcd_tests version_tests)
qed

lemma component_tests_hold_sample:
  "encoded_frame_from_old_generation_is_rejected_before_sink stub_turbojpeg (\<lambda>n. True) ()
   \<and> bounded_queue_drops_oldest (\<lambda>n. True)"
proof -
  have "encoding_library (stub_turbojpeg :: unit turbojpeg) [0xff, 0xd8, 0xff, 0xd9] (replicate 996 0)"
    by (auto simp: encoding_library_def stub_turbojpeg_def jpeg_boundary_def MAX_JPEG_BUFFER_BYTES_def
        take_Cons' ffi_ok_def)
  then show ?thesis
    using component_tests_hold [of "\<lambda>n. True" stub_turbojpeg "[0xff, 0xd8, 0xff, 0xd9]" "replicate 996 0" "()"]
    by blast
qed

end
