(* ===== verification/Pattern_Digest.thy ===== *)
theory Pattern_Digest
  imports Frames
begin

text \<open>
  The digests of successive test patterns (\<open>rust/src/frame.rs\<close>). The multiplier of the checksum is odd,
  so the lowest bit of the digest is the parity of the lowest bits of all bytes. Inverting a pixel
  changes three bytes, and the square always covers the same number of pixels, so the picture's own
  contribution is the same for all frames of a layout; the sequence number decides.
  At the end stands that every pixel of a pattern is opaque.
\<close>

section \<open>Lemmas: the lowest bit of a digest\<close>

definition odd_count :: "bytes \<Rightarrow> nat" where
  "odd_count bs = (\<Sum>b\<leftarrow>bs. of_bool (odd b))"

lemma odd_count_simps [simp]:
  "odd_count [] = 0" "odd_count (b # bs) = of_bool (odd b) + odd_count bs"
  "odd_count (xs @ ys) = odd_count xs + odd_count ys"
  by (simp_all add: odd_count_def)

lemma odd_count_concat: "odd_count (concat (map f [0..<n])) = (\<Sum>k<n. odd_count (f k))"
  by (induction n) simp_all

lemma odd_ucast: "odd (ucast b :: u64) \<longleftrightarrow> odd (b :: u8)"
  by (simp flip: bit_0 add: bit_simps)

lemma odd_fnv_step: "odd (fnv_step s b) \<longleftrightarrow> odd s \<noteq> odd b"
  by (simp add: fnv_step_def FNV_PRIME_def even_xor_iff odd_ucast)

lemma odd_digest: "odd (foldl fnv_step s bs) \<longleftrightarrow> odd s \<noteq> odd (odd_count bs)"
proof (induction bs arbitrary: s)
  case (Cons b bs)
  show ?case using Cons.IH [of "fnv_step s b"] odd_fnv_step [of s b] by (cases "odd b") simp_all
qed simp

section \<open>Lemmas: the picture\<close>

lemma odd_not: "odd (NOT b) \<longleftrightarrow> even (b :: u8)"
  by simp

text \<open>Inverting the three colour bytes of a pixel changes the parity.\<close>

lemma odd_count_colour:
  assumes "x < unat (width l)"
  shows "odd (odd_count (pattern_colour i l y x)) \<longleftrightarrow>
    odd (odd_count (BARS ! (x * 8 div unat (width l))) + of_bool (in_square i l x y))"
proof -
  obtain a b c d where "BARS ! (x * 8 div unat (width l)) = [a, b, c, d]"
    using BARS_colour [OF bar_index [OF assms]] by (auto simp: length_Suc_conv eval_nat_numeral)
  then show ?thesis by (auto simp: pattern_colour_def Let_def)
qed

lemma sum_range: "a + s \<le> (n :: nat) \<Longrightarrow> (\<Sum>k<n. of_bool (a \<le> k \<and> k < a + s)) = s"
proof -
  assume "a + s \<le> n"
  then have "{k \<in> {..<n}. a \<le> k \<and> k < a + s} = {a..<a + s}" by auto
  then show ?thesis by (simp add: sum.If_cases of_bool_def Int_def)
qed

lemma square_pixels:
  assumes "wf_layout l"
  shows "(\<Sum>y<unat (height l). \<Sum>x<unat (width l). of_bool (in_square i l x y)) = square_side l * square_side l"
proof -
  let ?s = "square_side l" and ?w = "unat (width l)" and ?h = "unat (height l)"
  define x0 where "x0 = square_at 37 ?w ?s (unat (sequence i))"
  define y0 where "y0 = square_at 23 ?h ?s (unat (sequence i))"
  have le: "x0 + ?s \<le> ?w" "y0 + ?s \<le> ?h"
    using square_at_inside [of ?s ?w 37 "unat (sequence i)"] square_at_inside [of ?s ?h 23 "unat (sequence i)"]
    by (simp_all add: x0_def y0_def square_side_def)
  have "of_bool (in_square i l x y) = of_bool (y0 \<le> y \<and> y < y0 + ?s) * (of_bool (x0 \<le> x \<and> x < x0 + ?s) :: nat)"
    for x y by (auto simp: in_square_def Let_def x0_def y0_def)
  then have "(\<Sum>y<?h. \<Sum>x<?w. of_bool (in_square i l x y) :: nat) =
      (\<Sum>y<?h. of_bool (y0 \<le> y \<and> y < y0 + ?s) * (\<Sum>x<?w. of_bool (x0 \<le> x \<and> x < x0 + ?s)))"
    by (simp only: sum_distrib_left)
  also have "\<dots> = (\<Sum>y<?h. of_bool (y0 \<le> y \<and> y < y0 + ?s)) * ?s"
    by (simp only: sum_range [OF le(1)] sum_distrib_right)
  finally show ?thesis by (simp only: sum_range [OF le(2)])
qed

lemma odd_sum_cong:
  "(\<And>k. k \<in> A \<Longrightarrow> odd (f k) \<longleftrightarrow> odd (g k :: nat)) \<Longrightarrow> odd (sum f A) \<longleftrightarrow> odd (sum g A)"
  by (induction A rule: infinite_finite_induct) auto

text \<open>The parity of a picture depends on the layout only.\<close>

definition bars_count :: "FrameLayout \<Rightarrow> nat" where
  "bars_count l = (\<Sum>y<unat (height l). \<Sum>x<unat (width l). odd_count (BARS ! (x * 8 div unat (width l))))"

lemma odd_count_image:
  assumes "wf_layout l"
  shows "odd (odd_count (pattern_image i l)) \<longleftrightarrow> odd (bars_count l + square_side l * square_side l)"
proof -
  have "odd_count (pattern_image i l) =
      (\<Sum>y<unat (height l). \<Sum>x<unat (width l). odd_count (pattern_colour i l y x))"
    by (simp only: pattern_image_def pattern_row_def odd_count_concat)
  also have "odd \<dots> \<longleftrightarrow> odd (\<Sum>y<unat (height l). \<Sum>x<unat (width l).
      odd_count (BARS ! (x * 8 div unat (width l))) + of_bool (in_square i l x y))"
    by (intro odd_sum_cong odd_count_colour) simp
  also have "(\<Sum>y<unat (height l). \<Sum>x<unat (width l).
      odd_count (BARS ! (x * 8 div unat (width l))) + of_bool (in_square i l x y)) =
      bars_count l + square_side l * square_side l"
    by (simp only: sum.distrib bars_count_def square_pixels [OF assms])
  finally show ?thesis .
qed

section \<open>Lemmas: the sequence number\<close>

lemma even_successor:
  assumes "even (n :: u64)"
  shows "drop_bit 8 (n + 1) = drop_bit 8 n" "odd (ucast (n + 1) :: u8)" "even (ucast n :: u8)"
proof -
  have n: "n + 1 = 1 OR n" using assms by (simp add: one_or_eq)
  show "drop_bit 8 (n + 1) = drop_bit 8 n" unfolding n by (rule bit_eqI) (simp add: bit_simps)
  show "odd (ucast (n + 1) :: u8)" unfolding n by (simp flip: bit_0 add: bit_simps)
  have "odd (ucast n :: u8) \<longleftrightarrow> odd n" by (simp flip: bit_0 add: bit_simps)
  then show "even (ucast n :: u8)" using assms by simp
qed

lemma odd_count_successor:
  "even (n :: u64) \<Longrightarrow> odd_count (to_le_bytes 8 (n + 1)) = Suc (odd_count (to_le_bytes 8 n))"
  using even_successor [of n] to_le_bytes.simps(2) [of 7 n] to_le_bytes.simps(2) [of 7 "n + 1"] by simp

text \<open>Two frames that differ in an even sequence number and its successor have different digests,
  whatever the layout and the generation.\<close>

lemma successive_patterns_differ:
  assumes "wf_layout l" and "even n"
    and "test_pattern alloc \<lparr>generation = g, sequence = n\<rparr> l = Ok first"
    and "test_pattern alloc \<lparr>generation = g, sequence = n + 1\<rparr> l = Ok second"
  shows "checksum first \<noteq> checksum second"
proof -
  let ?i = "\<lparr>generation = g, sequence = n\<rparr>" and ?j = "\<lparr>generation = g, sequence = n + 1\<rparr>"
  have "first = \<lparr>frame_id = ?i, frame_layout = l, pixels = pattern_image ?i l\<rparr>"
    "second = \<lparr>frame_id = ?j, frame_layout = l, pixels = pattern_image ?j l\<rparr>"
    using assms(3,4) by (auto simp: test_pattern_eq outcome_simps split: if_splits)
  then have "odd (checksum first) \<noteq> odd (checksum second)"
    using odd_count_successor [OF assms(2)] odd_count_image [OF assms(1), of ?i] odd_count_image [OF assms(1), of ?j]
    by (simp add: checksum_def odd_digest del: foldl_append)
  then show ?thesis by auto
qed

section \<open>Alpha\<close>

lemma concat_map_concat: "concat (concat (map f ys)) = concat (map (\<lambda>y. concat (f y)) ys)"
  by (induction ys) simp_all

lemma pattern_alpha: "list_all (\<lambda>pixel. pixel ! 3 = 255) (chunks_exact 4 (pattern_image i l))"
proof -
  let ?xss = "concat (map (\<lambda>y. map (pattern_colour i l y) [0..<unat (width l)]) [0..<unat (height l)])"
  have "pattern_image i l = concat ?xss"
    unfolding concat_map_concat pattern_image_def pattern_row_def [abs_def] ..
  moreover have ok: "length xs = 4 \<and> xs ! 3 = 255" if mem: "xs \<in> set ?xss" for xs
  proof -
    obtain x y where x: "x < unat (width l)" "xs = pattern_colour i l y x" using mem by auto
    then show ?thesis
      using BARS_colour [OF bar_index [OF x(1)]] length_pattern_colour [OF x(1)]
      by (simp add: pattern_colour_def Let_def numeral_3_eq_3)
  qed
  moreover have "chunks_exact 4 (concat ?xss) = ?xss" by (rule chunks_exact_concat) (use ok in auto)
  ultimately show ?thesis unfolding list_all_iff by metis
qed

end
