(* ===== verification/Scenario_Tests.thy ===== *)
theory Scenario_Tests
  imports Component_Tests Pattern_Digest
begin

text \<open>
  Two unit tests that need more than evaluating calls. The test of \<open>rust/src/frame.rs\<close> on large
  patterns compares digests of 320000 bytes, which \<open>Pattern_Digest\<close> decides. The test with two threads and three channels is
  a step relation over the threads of \<open>Pipeline\<close>: its main thread waits for the sink to be entered, starts
  the transition, looks for its end, releases the sink and joins both.
\<close>

section \<open>Model: the pattern test\<close>

definition pattern_is_bgrx_and_changes_deterministically :: "(usize \<Rightarrow> bool) \<Rightarrow> bool" where
  "pattern_is_bgrx_and_changes_deterministically alloc \<longleftrightarrow>
     unwrapped (FrameLayout_new 800 100) (\<lambda>layout.
     unwrapped (test_pattern alloc \<lparr>generation = 1, sequence = 0\<rparr> layout) (\<lambda>first.
     unwrapped (test_pattern alloc \<lparr>generation = 1, sequence = 1\<rparr> layout) (\<lambda>second.
       let yellow_offset = 99 * stride layout + 150 * BGRX_BYTES_PER_PIXEL in
       built (slice (pixels first) yellow_offset (yellow_offset + 4)) (\<lambda>pixel. pixel = [0, 255, 255, 255])
       \<and> list_all (\<lambda>pixel. pixel ! 3 = 255) (chunks_exact 4 (pixels first))
       \<and> checksum first \<noteq> checksum second
       \<and> checksum first = checksum first)))"

section \<open>Model: the test with two threads\<close>

text \<open>Where the main thread is: before \<open>entered_rx.recv()\<close> returns, behind it with the transition thread
  started and the look at \<open>advanced_rx\<close> ahead, behind \<open>release_tx.send(())\<close>, and behind the two joins.\<close>

datatype main_stage = Awaits_Sink | Looks | Released | Joined

text \<open>The one call of each thread; the sink closure is modelled by the step that completes it, which
  waits for the release.\<close>

definition thread_call :: "nat \<Rightarrow> Call" where
  "thread_call t = (if t = 0 then Gate \<lparr>generation = 2, sequence = 0\<rparr> False else Begin_Generation 3)"

definition thread_done :: "Config \<Rightarrow> nat \<Rightarrow> bool" where
  "thread_done c t \<longleftrightarrow> pcs c t = Idle \<and> t \<in> fst ` set (history c)"

definition permitted :: "main_stage \<Rightarrow> nat \<Rightarrow> Config \<Rightarrow> Config \<Rightarrow> bool" where
  "permitted stage t c c' \<longleftrightarrow>
     (t = 0 \<or> t = 1 \<and> stage \<noteq> Awaits_Sink)
     \<and> (pcs c t = Idle \<longrightarrow> t \<notin> fst ` set (history c) \<and> pcs c' t = Waiting (thread_call t))
     \<and> (\<forall>i p. pcs c t = In_Sink i p \<longrightarrow> stage = Released)"

inductive test_reachable :: "PipelineState \<Rightarrow> main_stage \<Rightarrow> Config \<Rightarrow> bool" for s where
  test_start: "test_reachable s Awaits_Sink (initial_config s)"
| test_thread: "test_reachable s stage c \<Longrightarrow> step t c c' \<Longrightarrow> permitted stage t c c' \<Longrightarrow> test_reachable s stage c'"
| test_entered: "test_reachable s Awaits_Sink c \<Longrightarrow> pcs c 0 = In_Sink i p \<Longrightarrow> test_reachable s Looks c"
| test_release: "test_reachable s Looks c \<Longrightarrow> test_reachable s Released c"
| test_joined: "test_reachable s Released c \<Longrightarrow> thread_done c 0 \<Longrightarrow> thread_done c 1 \<Longrightarrow> test_reachable s Joined c"

text \<open>The assertions: no message of the transition when the main thread looks, no failed \<open>unwrap\<close> in a
  thread, and the new generation at the end.\<close>

definition generation_transition_waits_for_atomic_sink_submission :: bool where
  "generation_transition_waits_for_atomic_sink_submission \<longleftrightarrow>
     unwrapped (FramePipeline_new 1 2) (\<lambda>pipeline.
       (\<forall>stage c. test_reachable pipeline stage c \<longrightarrow>
          (stage = Looks \<longrightarrow> \<not> thread_done c 1)
          \<and> (\<forall>(t, call, r) \<in> set (history c). r = Gated (Ok ()) \<or> (\<exists>n. r = Began (Ok n)))
          \<and> (stage = Joined \<longrightarrow> snap_generation (snapshot (shared c)) = 3))
       \<and> (\<exists>c. test_reachable pipeline Joined c))"

section \<open>Lemmas: the pattern test\<close>

lemma pattern_test:
  assumes "alloc 320000"
  shows "pattern_is_bgrx_and_changes_deterministically alloc"
proof -
  let ?l = "\<lparr>width = 800, height = 100, stride = 3200, byte_len = 320000\<rparr>"
  let ?i = "\<lambda>n. \<lparr>generation = 1, sequence = n\<rparr>"
  have new: "FrameLayout_new 800 100 = Ok ?l" by (simp add: FrameLayout_new_eq)
  have wf: "wf_layout ?l" by (simp add: wf_layout_def)
  have made: "test_pattern alloc (?i n) ?l =
      Ok \<lparr>frame_id = ?i n, frame_layout = ?l, pixels = pattern_image (?i n) ?l\<rparr>" for n
    using assms by (simp add: test_pattern_eq wf_layout_validate [OF wf])
  have colour: "pattern_colour (?i 0) ?l 99 150 = [0, 255, 255, 255]"
    by (simp add: pattern_colour_def in_square_def square_side_def square_at_def BARS_def)
  have nth: "pattern_image (?i 0) ?l ! (317400 + c) = [0, 255, 255, 255] ! c" if "c < 4" for c
    using nth_pattern_image [of 150 ?l 99 c "?i 0"] that colour by simp
  have len: "length (pattern_image (?i 0) ?l) = 320000" by (simp add: length_pattern_image)
  have "take 4 (drop 317400 (pattern_image (?i 0) ?l)) = [0, 255, 255, 255]"
    by (rule nth_equalityI) (use len nth in simp_all)
  then have "built (slice (pattern_image (?i 0) ?l) 317400 317404) (\<lambda>pixel. pixel = [0, 255, 255, 255])"
    by (simp add: slice_def len)
  moreover have "checksum \<lparr>frame_id = ?i 0, frame_layout = ?l, pixels = pattern_image (?i 0) ?l\<rparr>
      \<noteq> checksum \<lparr>frame_id = ?i 1, frame_layout = ?l, pixels = pattern_image (?i 1) ?l\<rparr>"
    using successive_patterns_differ [OF wf, of 0 alloc 1] made by simp
  ultimately show ?thesis
    unfolding pattern_is_bgrx_and_changes_deterministically_def new unwrapped.simps made
    by (simp add: pattern_alpha BGRX_BYTES_PER_PIXEL_def Let_def)
qed

section \<open>Lemmas: the test with two threads\<close>

definition gate_entry :: "nat \<times> Call \<times> Response" where
  "gate_entry = (0, Gate \<lparr>generation = 2, sequence = 0\<rparr> False, Gated (Ok ()))"

definition begin_entry :: "nat \<times> Call \<times> Response" where
  "begin_entry = (1, Begin_Generation 3, Began (Ok 0))"

text \<open>The sink is entered before the transition starts, keeps the mutex until it is released, and only
  then can the transition run.\<close>

definition waits_inv :: "PipelineState \<Rightarrow> main_stage \<Rightarrow> Config \<Rightarrow> bool" where
  "waits_inv s stage c \<longleftrightarrow>
     (let i = \<lparr>generation = 2, sequence = 0\<rparr>; first = pcs c 0; second = pcs c 1 in
      (history c = [] \<and> shared c = s \<and> stage = Awaits_Sink \<and> second = Idle \<and>
        (first \<in> {Idle, Waiting (thread_call 0)} \<and> owner c = None
         \<or> first \<in> {Holding (thread_call 0), In_Sink i False} \<and> owner c = Some 0))
      \<or> (history c = [] \<and> shared c = s \<and> stage \<in> {Looks, Released} \<and> first = In_Sink i False \<and> owner c = Some 0
         \<and> second \<in> {Idle, Waiting (thread_call 1)})
      \<or> (history c = [gate_entry] \<and> shared c = s \<and> stage = Released \<and>
         (first = Leaving (Gated (Ok ())) \<and> owner c = Some 0 \<and> second \<in> {Idle, Waiting (thread_call 1)}
          \<or> first = Idle \<and> (second \<in> {Idle, Waiting (thread_call 1)} \<and> owner c = None
                            \<or> second = Holding (thread_call 1) \<and> owner c = Some 1)))
      \<or> (history c = [gate_entry, begin_entry] \<and> active_generation (shared c) = 3 \<and> stage \<in> {Released, Joined}
         \<and> first = Idle \<and> second \<in> {Idle, Leaving (Began (Ok 0))}))"

definition waits_state :: PipelineState where
  "waits_state = \<lparr>active_generation = 2, capacity = 1, last_sequence = None, frames = [],
     stats = PipelineStats_default\<rparr>"

lemma waits_step:
  assumes "step t c c'" and "permitted stage t c c'" and "waits_inv waits_state stage c"
  shows "waits_inv waits_state stage c'"
  using assms(1)
proof cases
  case (invoke call)
  then show ?thesis using assms(2,3)
    by (auto simp: waits_inv_def permitted_def gate_entry_def begin_entry_def Let_def)
next
  case (lock_state call)
  then show ?thesis using assms(2,3)
    by (auto simp: waits_inv_def permitted_def thread_call_def Let_def)
next
  case (body call s w r)
  show ?thesis using body(1,2,4) body(3) [of "\<lparr>generation = 2, sequence = 0\<rparr>" False] assms(2,3)
    by (auto simp: waits_inv_def permitted_def thread_call_def begin_generation_def waits_state_def
        begin_entry_def Let_def)
next
  case (gate_reject i p s m)
  then show ?thesis using assms(2,3)
    by (auto simp: waits_inv_def permitted_def thread_call_def gate_check_def waits_state_def Let_def)
next
  case (gate_enter i p s)
  then show ?thesis using assms(2,3)
    by (auto simp: waits_inv_def permitted_def thread_call_def gate_check_def waits_state_def Let_def)
next
  case (sink i p u w r)
  then show ?thesis using assms(2,3)
    by (auto simp: waits_inv_def permitted_def thread_call_def sink_submission_def gate_entry_def Let_def)
next
  case (release r)
  then show ?thesis using assms(2,3)
    by (auto simp: waits_inv_def permitted_def thread_call_def Let_def)
qed

lemma waits_reachable: "test_reachable waits_state stage c \<Longrightarrow> waits_inv waits_state stage c"
proof (induction rule: test_reachable.induct)
  case (test_thread stage c t c')
  then show ?case using waits_step by blast
qed (auto simp: waits_inv_def initial_config_def thread_done_def Let_def gate_entry_def)

text \<open>A complete run: the transition already waits when the main thread looks.\<close>

lemma waits_completes: "\<exists>c. test_reachable waits_state Joined c"
proof -
  let ?r = "test_reachable waits_state" and ?i = "\<lparr>generation = 2, sequence = 0\<rparr>"
  define c1 where "c1 = (initial_config waits_state)\<lparr>pcs := (pcs (initial_config waits_state))(0 := Waiting (thread_call 0))\<rparr>"
  define c2 where "c2 = c1\<lparr>owner := Some 0, pcs := (pcs c1)(0 := Holding (thread_call 0))\<rparr>"
  define c3 where "c3 = c2\<lparr>shared := waits_state, pcs := (pcs c2)(0 := In_Sink ?i False)\<rparr>"
  define c4 where "c4 = c3\<lparr>pcs := (pcs c3)(1 := Waiting (thread_call 1))\<rparr>"
  define c5 where "c5 = c4\<lparr>submissions := submissions c4 @ [?i], pcs := (pcs c4)(0 := Leaving (Gated (Ok ()))),
    history := history c4 @ [(0, Gate ?i False, Gated (Ok ()))]\<rparr>"
  define c6 where "c6 = c5\<lparr>owner := None, poisoned := poisoned c5 \<or> poisons (Gated (Ok ())), pcs := (pcs c5)(0 := Idle)\<rparr>"
  define c7 where "c7 = c6\<lparr>owner := Some 1, pcs := (pcs c6)(1 := Holding (thread_call 1))\<rparr>"
  define s' where "s' = fst (begin_generation 3 waits_state)"
  define c8 where "c8 = c7\<lparr>shared := s', submissions := submissions c7, pcs := (pcs c7)(1 := Leaving (Began (Ok 0))),
    history := history c7 @ [(1, Begin_Generation 3, Began (Ok 0))]\<rparr>"
  define c9 where "c9 = c8\<lparr>owner := None, poisoned := poisoned c8 \<or> poisons (Began (Ok 0)), pcs := (pcs c8)(1 := Idle)\<rparr>"
  note defs = c9_def c8_def c7_def c6_def c5_def c4_def c3_def c2_def c1_def initial_config_def permitted_def thread_call_def
  have "?r Awaits_Sink c1" unfolding c1_def
    by (rule test_thread [OF test_start step.invoke]) (simp_all add: initial_config_def permitted_def)
  then have "?r Awaits_Sink c2" unfolding c2_def
    by (rule test_thread [OF _ step.lock_state]) (simp_all add: defs)
  then have "?r Awaits_Sink c3" unfolding c3_def
    by (rule test_thread [OF _ step.gate_enter [where p = False]]) (simp_all add: defs gate_check_def waits_state_def)
  then have "?r Looks c3" by (rule test_entered [where i = ?i and p = False]) (simp add: c3_def)
  then have "?r Looks c4" unfolding c4_def
    by (rule test_thread [OF _ step.invoke]) (simp_all add: defs)
  then have "?r Released c4" by (rule test_release)
  then have "?r Released c5" unfolding c5_def
    by (rule test_thread [OF _ step.sink [where u = "Some ()"]]) (simp_all add: defs sink_submission_def)
  then have "?r Released c6" unfolding c6_def
    by (rule test_thread [OF _ step.release]) (simp_all add: defs)
  then have "?r Released c7" unfolding c7_def
    by (rule test_thread [OF _ step.lock_state]) (simp_all add: defs)
  then have "?r Released c8" unfolding c8_def
    by (rule test_thread [OF _ step.body]) (simp_all add: defs s'_def begin_generation_def waits_state_def Let_def)
  then have "?r Released c9" unfolding c9_def
    by (rule test_thread [OF _ step.release]) (simp_all add: defs)
  then have "?r Joined c9" by (rule test_joined) (simp_all add: defs thread_done_def)
  then show ?thesis by blast
qed

lemma waits_test: "generation_transition_waits_for_atomic_sink_submission"
proof -
  have new: "FramePipeline_new 1 2 = Ok waits_state" by (simp add: FramePipeline_new_def waits_state_def)
  have "(stage = Looks \<longrightarrow> \<not> thread_done c 1)
      \<and> (\<forall>(t, call, r) \<in> set (history c). r = Gated (Ok ()) \<or> (\<exists>n. r = Began (Ok n)))
      \<and> (stage = Joined \<longrightarrow> snap_generation (snapshot (shared c)) = 3)"
    if "test_reachable waits_state stage c" for stage c
    using waits_reachable [OF that]
    by (auto simp: waits_inv_def thread_done_def gate_entry_def begin_entry_def snapshot_def Let_def)
  then show ?thesis
    unfolding generation_transition_waits_for_atomic_sink_submission_def new unwrapped.simps
    using waits_completes by blast
qed

section \<open>Property\<close>

text \<open>C38: two behaviours the unit tests probe hold in the model as the tests state them. The test pattern is
  BGRx with an opaque fourth byte, its bars stand where they should, and the digests of successive
  frames differ. And in every interleaving of a thread inside the sink closure
  with a thread that begins a generation, the second has not returned when the main thread looks
  before it releases the sink, no \<open>unwrap\<close> fails, and the test can complete and then finds the new generation.\<close>

theorem scenario_tests_hold:
  assumes "alloc 320000"
  shows "pattern_is_bgrx_and_changes_deterministically alloc
    \<and> generation_transition_waits_for_atomic_sink_submission"
  using pattern_test [of alloc] waits_test assms by simp

theorem scenario_tests_hold_witness: "pattern_is_bgrx_and_changes_deterministically (\<lambda>n. n \<le> 1000000)"
  using scenario_tests_hold [of "\<lambda>n. n \<le> 1000000"] by simp

end
