(* ===== verification/Roundtrip_Test.thy ===== *)
theory Roundtrip_Test
  imports Component_Tests Pattern_Digest
begin

text \<open>
  The round-trip test of \<open>rust/src/jpeg.rs\<close> with its decompressor. The decoder of TurboJPEG is a parameter, as the
  encoder is in \<open>Compressor\<close>. Whether a picture survives the lossy codec is a matter of TurboJPEG; what is proved
  is that the test passes for every library that encodes and whose decoder returns the picture within a
  bound per channel: the dimensions reach the decoder, the buffers fit, the second encoding reuses the
  scratch buffer, and the mean error is computed over all pixels.
\<close>

section \<open>Model\<close>

definition TJPF_BGRA :: int where "TJPF_BGRA = 8"

text \<open>The decoder: a handle; the result code, width, height, subsampling and colour space of a stream; and
  the result code and the destination memory of a decompression.\<close>

record 'w decoder =
  tjInitDecompress :: "'w \<Rightarrow> nat option \<times> 'w"
  tjDecompressHeader3 :: "nat \<Rightarrow> bytes \<Rightarrow> u64 \<Rightarrow> 'w \<Rightarrow> (int \<times> int \<times> int \<times> int \<times> int) \<times> 'w"
  tjDecompress2 :: "nat \<Rightarrow> bytes \<Rightarrow> u64 \<Rightarrow> bytes \<Rightarrow> int \<Rightarrow> int \<Rightarrow> int \<Rightarrow> int \<Rightarrow> int \<Rightarrow> 'w \<Rightarrow> (int \<times> bytes) \<times> 'w"

definition Decompressor_new :: "'w decoder \<Rightarrow> 'w \<Rightarrow> (nat, string) outcome \<times> 'w" where
  "Decompressor_new dec w = (case tjInitDecompress dec w of (raw, w) \<Rightarrow> (expect raw, w))"

definition decode_bgra ::
  "'w decoder \<Rightarrow> nat \<Rightarrow> EncodedFrame \<Rightarrow> 'w \<Rightarrow> (u32 \<times> u32 \<times> int \<times> bytes, string) outcome \<times> 'w" where
  "decode_bgra dec raw jpeg w =
     (let jpeg_size = of_nat (length (jpeg_bytes jpeg)) in
      case tjDecompressHeader3 dec raw (jpeg_bytes jpeg) jpeg_size w of
        ((header_result, width0, height0, subsampling, color_space), w) \<Rightarrow>
          if header_result \<noteq> 0 then (Panic, w)
          else case FrameLayout_new (of_int width0) (of_int height0) of
            Ok layout \<Rightarrow>
              (case i32_try_from (stride layout) of
                 None \<Rightarrow> (Panic, w)
               | Some pitch \<Rightarrow>
                   (case tjDecompress2 dec raw (jpeg_bytes jpeg) jpeg_size (replicate (byte_len layout) 0)
                           width0 pitch height0 TJPF_BGRA 0 w of
                      ((decode_result, pixels0), w) \<Rightarrow>
                        if decode_result \<noteq> 0 then (Panic, w)
                        else (Ok (of_int width0, of_int height0, subsampling, pixels0), w)))
          | _ \<Rightarrow> (Panic, w))"

definition abs_diff :: "u8 \<Rightarrow> u8 \<Rightarrow> nat" where
  "abs_diff a b = (if a < b then unat (b - a) else unat (a - b))"

definition total_error :: "bytes \<Rightarrow> bytes \<Rightarrow> nat" where
  "total_error source decoded =
     (\<Sum>(s, d)\<leftarrow>zip (chunks_exact 4 source) (chunks_exact 4 decoded).
        \<Sum>channel\<leftarrow>[0..<3]. abs_diff (s ! channel) (d ! channel))"

text \<open>The addresses of the scratch buffer are compared through its capacity: a vector moves only when it
  grows. The capacity of a compact result is the size reserved for it.\<close>

definition compression_is_deterministic_and_roundtrips_as_422 ::
  "'w turbojpeg \<Rightarrow> 'w decoder \<Rightarrow> (usize \<Rightarrow> bool) \<Rightarrow> 'w \<Rightarrow> bool" where
  "compression_is_deterministic_and_roundtrips_as_422 tj dec alloc w \<longleftrightarrow>
     unwrapped (FrameLayout_new 96 64) (\<lambda>layout.
     unwrapped (test_pattern alloc \<lparr>generation = 2, sequence = 7\<rparr> layout) (\<lambda>frame.
     case Compressor_new tj w of (r, w) \<Rightarrow> unwrapped r (\<lambda>c.
     case compress_bgrx tj alloc frame 90 (c, w) of (r, c, w) \<Rightarrow> unwrapped r (\<lambda>first.
     let capacity0 = scratch_capacity c in
     case compress_bgrx tj alloc frame 90 (c, w) of (r, c, w) \<Rightarrow> unwrapped r (\<lambda>second.
       scratch_capacity c = capacity0
       \<and> length (jpeg_bytes first) < capacity0
       \<and> jpeg_bytes first = jpeg_bytes second
       \<and> EncodedFrame_checksum first = EncodedFrame_checksum second
       \<and> jpeg_id first = frame_id frame
       \<and> (jpeg_width first, jpeg_height first, jpeg_quality first) = (96, 64, 90)
       \<and> (case Decompressor_new dec w of (r, w) \<Rightarrow> unwrapped r (\<lambda>raw.
          case decode_bgra dec raw first w of (r, w) \<Rightarrow> unwrapped r (\<lambda>(width0, height0, subsampling, decoded).
            (width0, height0, subsampling) = (96, 64, TJSAMP_422)
            \<and> list_all (\<lambda>pixel. pixel ! 3 = 255) (chunks_exact 4 decoded)
            \<and> (let channel_count = unat (width layout) * unat (height layout) * 3 in
                 total_error (pixels frame) decoded div channel_count < 35))))))))) "

section \<open>Lemmas\<close>

text \<open>A decoder that reads a stream as a 4:2:2 picture of 96 by 64 pixels and returns it within 34 of the
  source in every channel, opaque.\<close>

definition decodes_closely :: "'w decoder \<Rightarrow> bytes \<Rightarrow> bytes \<Rightarrow> bool" where
  "decodes_closely dec jpeg source \<longleftrightarrow>
     (\<forall>w. \<exists>h w'. tjInitDecompress dec w = (Some h, w'))
     \<and> (\<forall>h w. \<exists>cs w'. tjDecompressHeader3 dec h jpeg (of_nat (length jpeg)) w = ((0, 96, 64, TJSAMP_422, cs), w'))
     \<and> (\<forall>h buffer w. length buffer = 24576 \<longrightarrow>
         (\<exists>decoded w'. tjDecompress2 dec h jpeg (of_nat (length jpeg)) buffer 96 384 64 TJPF_BGRA 0 w = ((0, decoded), w') \<and> length decoded = length buffer
            \<and> (\<forall>d \<in> set (chunks_exact 4 decoded). d ! 3 = 255)
            \<and> (\<forall>(s, d) \<in> set (zip (chunks_exact 4 source) (chunks_exact 4 decoded)).
                 \<forall>channel < 3. abs_diff (s ! channel) (d ! channel) \<le> 34)))"

lemma sum_list_bound: "(\<And>x. x \<in> set xs \<Longrightarrow> f x \<le> (m :: nat)) \<Longrightarrow> (\<Sum>x\<leftarrow>xs. f x) \<le> m * length xs"
  by (induction xs) (auto intro: add_mono)

lemma total_error_bound:
  assumes "\<forall>(s, d) \<in> set (zip (chunks_exact 4 source) (chunks_exact 4 decoded)).
      \<forall>channel < 3. abs_diff (s ! channel) (d ! channel) \<le> m"
  shows "total_error source decoded \<le> 3 * m * (length source div 4)"
proof -
  let ?z = "zip (chunks_exact 4 source) (chunks_exact 4 decoded)"
  have "(case p of (s, d) \<Rightarrow> \<Sum>channel\<leftarrow>[0..<3]. abs_diff (s ! channel) (d ! channel)) \<le> 3 * m" if "p \<in> set ?z" for p
    using assms that sum_list_bound [of "[0..<3]" "\<lambda>channel. abs_diff (fst p ! channel) (snd p ! channel)" m]
    by (auto simp: case_prod_beta mult.commute)
  then have "total_error source decoded \<le> 3 * m * length ?z"
    unfolding total_error_def by (rule sum_list_bound)
  also have "\<dots> \<le> 3 * m * (length source div 4)" by (intro mult_le_mono2) (simp add: length_chunks)
  finally show ?thesis .
qed

lemma decodes_closely_picture:
  assumes "decodes_closely dec jpeg source" and "length buffer = 24576" and "length source = 24576"
  obtains decoded w' where
    "tjDecompress2 dec h jpeg (of_nat (length jpeg)) buffer 96 384 64 TJPF_BGRA 0 w = ((0, decoded), w')"
    "list_all (\<lambda>pixel. pixel ! 3 = 255) (chunks_exact 4 decoded)" "total_error source decoded div 18432 < 35"
proof -
  have "\<exists>decoded w'.
      tjDecompress2 dec h jpeg (of_nat (length jpeg)) buffer 96 384 64 TJPF_BGRA 0 w = ((0, decoded), w')
      \<and> length decoded = length buffer
      \<and> (\<forall>d \<in> set (chunks_exact 4 decoded). d ! 3 = 255)
      \<and> (\<forall>(s, d) \<in> set (zip (chunks_exact 4 source) (chunks_exact 4 decoded)).
           \<forall>channel < 3. abs_diff (s ! channel) (d ! channel) \<le> 34)"
    using assms(1) unfolding decodes_closely_def 
    by (elim conjE) (drule spec [where x = h], drule spec [where x = buffer], drule spec [where x = w], erule mp, rule assms(2))
  then obtain decoded w' where
    dec: "tjDecompress2 dec h jpeg (of_nat (length jpeg)) buffer 96 384 64 TJPF_BGRA 0 w = ((0, decoded), w')"
      "\<forall>d \<in> set (chunks_exact 4 decoded). d ! 3 = 255"
      "\<forall>(s, d) \<in> set (zip (chunks_exact 4 source) (chunks_exact 4 decoded)).
         \<forall>channel < 3. abs_diff (s ! channel) (d ! channel) \<le> 34"
    by (elim exE conjE)
  have "total_error source decoded div 18432 < 35"
    using total_error_bound [OF dec(3)] assms(3) by simp
  with dec(1,2) show ?thesis by (intro that) (simp_all add: list_all_iff)
qed

lemma decode_bgra_closely:
  assumes "decodes_closely dec (jpeg_bytes e) source" and "length source = 24576"
  shows "\<exists>decoded w'. decode_bgra dec raw e w = (Ok (96, 64, TJSAMP_422, decoded), w')
    \<and> list_all (\<lambda>pixel. pixel ! 3 = 255) (chunks_exact 4 decoded) \<and> total_error source decoded div 18432 < 35"
proof -
  from assms(1) obtain cs w1 where header: "tjDecompressHeader3 dec raw (jpeg_bytes e) (of_nat (length (jpeg_bytes e))) w
      = ((0, 96, 64, TJSAMP_422, cs), w1)" unfolding decodes_closely_def by metis
  have layout: "FrameLayout_new 96 64 = Ok \<lparr>width = 96, height = 64, stride = 384, byte_len = 24576\<rparr>"
    by (simp add: FrameLayout_new_eq)
  obtain decoded w2 where
    "tjDecompress2 dec raw (jpeg_bytes e) (of_nat (length (jpeg_bytes e))) (replicate 24576 0) 96 384 64 TJPF_BGRA 0 w1
       = ((0, decoded), w2)"
    "list_all (\<lambda>pixel. pixel ! 3 = 255) (chunks_exact 4 decoded)" "total_error source decoded div 18432 < 35"
    using decodes_closely_picture [OF assms(1) length_replicate assms(2)] .
  then show ?thesis
    by (simp add: decode_bgra_def header layout i32_try_from_def i32_max_def)
qed

lemma roundtrip_test:
  assumes "encoding_library tj jpeg rest" and "rest \<noteq> []" and "\<forall>n \<le> isize_max. alloc n"
    and "decodes_closely dec jpeg (pattern_image \<lparr>generation = 2, sequence = 7\<rparr>
      \<lparr>width = 96, height = 64, stride = 384, byte_len = 24576\<rparr>)"
  shows "compression_is_deterministic_and_roundtrips_as_422 tj dec alloc w"
proof -
  let ?l = "\<lparr>width = 96, height = 64, stride = 384, byte_len = 24576\<rparr>"
  let ?i = "\<lparr>generation = 2, sequence = 7\<rparr>"
  let ?f = "\<lparr>frame_id = ?i, frame_layout = ?l, pixels = pattern_image ?i ?l\<rparr>"
  let ?e = "\<lparr>jpeg_id = ?i, jpeg_bytes = jpeg, jpeg_width = 96, jpeg_height = 64, jpeg_quality = 90\<rparr>"
  have new: "FrameLayout_new 96 64 = Ok ?l" by (simp add: FrameLayout_new_eq)
  have wfl: "wf_layout ?l" by (simp add: wf_layout_def)
  have made: "test_pattern alloc ?i ?l = Ok ?f"
    using assms(3) by (simp add: test_pattern_eq wf_layout_validate [OF wfl] isize_max_def)
  have wf: "wf_frame ?f" using wfl by (simp add: wf_frame_def length_pattern_image)
  obtain h w1 where init: "tjInitCompress tj w = (Some h, w1)"
    using assms(1) unfolding encoding_library_def by blast
  let ?c = "\<lparr>tj_raw = h, scratch = [], scratch_capacity = 0\<rparr>"
  have q: "1 \<le> (90 :: u8)" "(90 :: u8) \<le> 100" by (simp_all add: word_le_nat_alt)
  have "wf_compressor ?c" by (simp add: wf_compressor_def)
  from encoding_library_compresses [OF assms(1,3) wf q this, of w1] obtain c1 w2 where
    first: "compress_bgrx tj alloc ?f 90 (?c, w1) = (Ok ?e, c1, w2)" "wf_compressor c1"
      "scratch_capacity c1 = length (jpeg @ rest)" by auto
  from encoding_library_compresses [OF assms(1,3) wf q first(2), of w2] first(3) obtain c2 w3 where
    second: "compress_bgrx tj alloc ?f 90 (c1, w2) = (Ok ?e, c2, w3)" "scratch_capacity c2 = length (jpeg @ rest)"
    by auto
  obtain raw w4 where raw: "tjInitDecompress dec w3 = (Some raw, w4)"
    using assms(4) unfolding decodes_closely_def by blast
  obtain decoded w5 where decoded: "decode_bgra dec raw ?e w4 = (Ok (96, 64, TJSAMP_422, decoded), w5)"
    "list_all (\<lambda>pixel. pixel ! 3 = 255) (chunks_exact 4 decoded)"
    "total_error (pattern_image ?i ?l) decoded div 18432 < 35"
    using decode_bgra_closely [of dec ?e "pattern_image ?i ?l" raw w4] assms(4) by (auto simp: length_pattern_image)
  show ?thesis
    unfolding compression_is_deterministic_and_roundtrips_as_422_def new unwrapped.simps made
    using assms(2) first(3) second(2) decoded
    by (simp add: Compressor_new_def init first(1) second(1) Decompressor_new_def raw Let_def)
qed

text \<open>A library for which the test passes: a codec that keeps the picture aside.\<close>

definition keeping_decoder :: "bytes \<Rightarrow> 'w decoder" where
  "keeping_decoder source = \<lparr>tjInitDecompress = (\<lambda>w. (Some 1, w)),
     tjDecompressHeader3 = (\<lambda>h jpeg n w. ((0, 96, 64, TJSAMP_422, 1), w)),
     tjDecompress2 = (\<lambda>h jpeg n buffer a b c d e w. ((0, source), w))\<rparr>"

lemma keeping_decoder_close:
  assumes "length source = 24576" and "list_all (\<lambda>pixel. pixel ! 3 = 255) (chunks_exact 4 source)"
  shows "decodes_closely (keeping_decoder source) jpeg source"
  using assms by (auto simp: decodes_closely_def keeping_decoder_def list_all_iff zip_same abs_diff_def)

lemma roundtrip_test_sample:
  assumes "encoding_library tj jpeg rest" and "rest \<noteq> []" and "\<forall>n \<le> isize_max. alloc n"
  shows "\<exists>dec. compression_is_deterministic_and_roundtrips_as_422 tj dec alloc w"
  using assms
  by (intro exI) (erule (2) roundtrip_test, rule keeping_decoder_close [OF _ pattern_alpha], simp add: length_pattern_image)

end
