(* ===== verification/C_Runtime.thy ===== *)
theory C_Runtime
  imports Usb_Devices
begin

text \<open>
  The fragment of C and its library that the preload guard, the C++ daemon and the probe use: calls
  that return or end the process, \<open>snprintf\<close> into a message buffer, \<open>strtoul\<close> and \<open>atoi\<close>, and the
  result codes of libusb; and what it means that time passes. A pointer that may be NULL is an \<open>option\<close>; a C string is the list of its
  characters without the terminator.
\<close>

section \<open>Calls that may end the process\<close>

text \<open>\<open>Undefined\<close> is the use of memory that is not allocated.\<close>

datatype 'a run = Returned 'a | Exited int | Undefined

primrec next_run :: "'a run \<Rightarrow> ('a \<Rightarrow> 's \<Rightarrow> 'b run \<times> 's) \<Rightarrow> 's \<Rightarrow> 'b run \<times> 's" where
  "next_run (Returned x) k s = k x s"
| "next_run (Exited status) k s = (Exited status, s)"
| "next_run Undefined k s = (Undefined, s)"

definition and_next :: "'a run \<times> 's \<Rightarrow> ('a \<Rightarrow> 's \<Rightarrow> 'b run \<times> 's) \<Rightarrow> 'b run \<times> 's" where
  "and_next c k = next_run (fst c) k (snd c)"

section \<open>libusb result codes and hotplug events\<close>

definition LIBUSB_SUCCESS :: int where [const_simps]: "LIBUSB_SUCCESS = 0"
definition LIBUSB_ERROR_NO_DEVICE :: int where [const_simps]: "LIBUSB_ERROR_NO_DEVICE = - 4"
definition LIBUSB_ERROR_INTERRUPTED :: int where [const_simps]: "LIBUSB_ERROR_INTERRUPTED = - 10"
definition LIBUSB_ERROR_NO_MEM :: int where [const_simps]: "LIBUSB_ERROR_NO_MEM = - 11"
definition LIBUSB_HOTPLUG_EVENT_DEVICE_ARRIVED :: int where
  [const_simps]: "LIBUSB_HOTPLUG_EVENT_DEVICE_ARRIVED = 1"
definition LIBUSB_HOTPLUG_EVENT_DEVICE_LEFT :: int where
  [const_simps]: "LIBUSB_HOTPLUG_EVENT_DEVICE_LEFT = 2"

section \<open>Strings\<close>

definition newline :: string where
  "newline = [CHR 0x0A]"

text \<open>\<open>snprintf(message, capacity, ...)\<close> for an output \<open>s\<close>: the length that would have been written, negative
  when it is not an \<open>int\<close>, and the bytes in the buffer with the terminator.\<close>

definition snprintf :: "nat \<Rightarrow> string \<Rightarrow> int \<times> string" where
  "snprintf capacity s =
     (if length s \<le> i32_max then int (length s) else - 1, take (capacity - 1) s @ [CHR 0x00])"

definition isspace :: "char \<Rightarrow> bool" where
  "isspace c \<longleftrightarrow> (of_char c :: nat) = 32 \<or> 9 \<le> (of_char c :: nat) \<and> (of_char c :: nat) \<le> 13"

text \<open>The sign and the digits after leading white space, and what follows them.\<close>

definition scan_number :: "string \<Rightarrow> bool \<times> string \<times> string" where
  "scan_number s =
     (let t = dropWhile isspace s;
          negative = (case t of [] \<Rightarrow> False | c # _ \<Rightarrow> c = CHR ''-'');
          u = (case t of [] \<Rightarrow> [] | c # cs \<Rightarrow> if c = CHR ''-'' \<or> c = CHR ''+'' then cs else t)
      in (negative, takeWhile is_ascii_digit u, dropWhile is_ascii_digit u))"

text \<open>\<open>strtoul(s, &end, 10)\<close>: the value, and the text at \<open>end\<close>, which is \<open>s\<close> itself when there is no
  digit. A value out of range is \<open>ULONG_MAX\<close>; a minus sign negates in \<open>unsigned long\<close>.\<close>

definition strtoul :: "string \<Rightarrow> u64 \<times> string" where
  "strtoul s =
     (case scan_number s of (negative, digits, rest) \<Rightarrow>
      if digits = [] then (0, s)
      else let v = decimal_value digits
           in (if v > unat u64_max then u64_max else if negative then - of_nat v else of_nat v, rest))"

text \<open>\<open>atoi(s)\<close> as \<open>(int)strtol(s, NULL, 10)\<close>: out of range, \<open>strtol\<close> gives the nearest \<open>long\<close>,
  whose low 32 bits are kept.\<close>

definition strtol :: "string \<Rightarrow> int" where
  "strtol s =
     (case scan_number s of (negative, digits, rest) \<Rightarrow>
      let v = int (decimal_value digits); v = (if negative then - v else v)
      in max (- (2 ^ 63)) (min (2 ^ 63 - 1) v))"

definition atoi :: "string \<Rightarrow> int" where
  "atoi s = as_c_int (strtol s)"

section \<open>Lemmas\<close>

lemma and_next_simps [simp]:
  "and_next (Returned x, s) k = k x s"
  "and_next (Exited status, s) k = (Exited status, s)"
  "and_next (Undefined, s) k = (Undefined, s)"
  by (simp_all add: and_next_def)

lemma scan_number_show: "scan_number (show_nat n) = (False, show_nat n, [])"
proof -
  obtain c cs where s: "show_nat n = c # cs" by (cases "show_nat n") auto
  then have digits: "\<forall>x \<in> set (c # cs). is_ascii_digit x" using show_nat_digits [of _ n] by metis
  then have "\<not> isspace c" "c \<noteq> CHR ''-''" "c \<noteq> CHR ''+''"
    by (auto simp: isspace_def is_ascii_digit_def)
  with digits show ?thesis by (simp add: scan_number_def s)
qed

lemma decimal_value_show: "decimal_value (show_nat n) = n"
proof -
  have "list_all is_ascii_digit (show_nat n)" using show_nat_digits [of _ n] by (simp add: list_all_iff)
  from parse_digits_value [OF this, of 0 n] parse_digits_show [of n n] show ?thesis
    by (auto simp: decimal_value_def split: if_splits)
qed

lemma strtoul_show: "n \<le> unat u64_max \<Longrightarrow> strtoul (show_nat n) = (of_nat n, [])"
  by (simp add: strtoul_def scan_number_show decimal_value_show)

section \<open>The passing of time\<close>

text \<open>
  A world may be assigned the real time that has elapsed, and the number of events and signals that are
  already pending then. A call never takes time back, and what is pending at a moment only
  becomes less. Waiting for events passes time, or it returns at once for something that was pending:
  libusb returns early when an event arrives or a signal is raised, of which there are finitely many at a moment.
\<close>

definition time_kept :: "('w \<Rightarrow> nat) \<Rightarrow> ('w \<Rightarrow> nat) \<Rightarrow> 'w \<Rightarrow> 'w \<Rightarrow> bool" where
  "time_kept elapsed pending w w' \<longleftrightarrow>
     elapsed w < elapsed w' \<or> elapsed w = elapsed w' \<and> pending w' \<le> pending w"

definition time_passed :: "('w \<Rightarrow> nat) \<Rightarrow> ('w \<Rightarrow> nat) \<Rightarrow> 'w \<Rightarrow> 'w \<Rightarrow> bool" where
  "time_passed elapsed pending w w' \<longleftrightarrow>
     elapsed w < elapsed w' \<or> elapsed w = elapsed w' \<and> pending w' < pending w"

lemma time_kept_preorder [simp]:
  "time_kept elapsed pending w w"
  "time_kept elapsed pending w w' \<Longrightarrow> time_kept elapsed pending w' w'' \<Longrightarrow> time_kept elapsed pending w w''"
  by (auto simp: time_kept_def)

lemma time_kept_closed [simp]: "(time_kept elapsed pending)\<^sup>*\<^sup>* = time_kept elapsed pending"
proof (intro ext iffI)
  show "time_kept elapsed pending w w'" if "(time_kept elapsed pending)\<^sup>*\<^sup>* w w'" for w w'
    using that by (induction rule: rtranclp_induct) (simp, erule (1) time_kept_preorder(2))
qed (rule r_into_rtranclp)

lemma time_passed_around:
  "time_kept elapsed pending w w1 \<Longrightarrow> time_passed elapsed pending w1 w2 \<Longrightarrow> time_kept elapsed pending w2 w' \<Longrightarrow>
     time_passed elapsed pending w w'"
  by (auto simp: time_kept_def time_passed_def)

lemma time_kept_elapsed: "time_kept elapsed pending w w' \<Longrightarrow> elapsed w \<le> elapsed w'"
  by (auto simp: time_kept_def)

text \<open>Before a moment \<open>end_time\<close>, time can pass only so often.\<close>

lemma wf_time_passed: "wf {(w', w). time_passed elapsed pending w w' \<and> int (elapsed w) < end_time}"
  by (rule wf_subset [OF wf_measures [of "[\<lambda>w. nat (end_time - int (elapsed w)), pending]"]])
    (auto simp: time_passed_def)

end
