(* ===== verification/Transfer_Guard.thy ===== *)
theory Transfer_Guard
  imports C_Runtime
begin

text \<open>
  The preload library of \<open>src/src/guard/smiusb_guard.c\<close>: it stands between the vendor daemon and
  libusb, answers calls on a NULL handle itself and, when the restart fence is on, ends the process
  as soon as the device is gone. The library behind it, the dynamic linker, the environment, \<open>malloc\<close>
  and the vendor's own callback are parameters.

  The state holds the static variables of the guard, the blocks it allocated, what it wrote to the
  standard error, the \<open>int\<close> objects that callers pass by pointer, and the outside world. Hotplug
  callbacks run on their own and during a registration; that libusb may also run one while a synchronous
  transfer waits, which with the fence on could only end the process earlier, is not modelled.
\<close>

section \<open>Model: state and outside\<close>

record guarded_hotplug_callback =
  callback :: nat
  user_data :: nat

type_synonym memory = "nat \<Rightarrow> int"

record 'w guard =
  blocked_calls :: u64
  restart_on_disconnect :: int
  resolved :: "string \<Rightarrow> bool"
  blocks :: "nat \<rightharpoonup> guarded_hotplug_callback"
  std_err :: string
  int_cells :: memory
  outside :: 'w

record 'w loader =
  getenv :: "string \<Rightarrow> 'w \<Rightarrow> string option"
  dlsym_next :: "string \<Rightarrow> 'w \<Rightarrow> (bool \<times> string option) \<times> 'w"
  malloc :: "'w \<Rightarrow> nat option \<times> 'w"

text \<open>The arguments of a hotplug registration; the callback may be NULL.\<close>

record 'f registration =
  reg_context :: "nat option"
  reg_events :: int
  reg_flags :: int
  reg_vendor_id :: int
  reg_product_id :: int
  reg_device_class :: int
  reg_callback :: "'f option"
  reg_user_data :: nat
  reg_handle :: "nat option"

text \<open>The function the guard registers in place of the vendor's.\<close>

datatype dispatcher = Guarded_Hotplug_Dispatch

text \<open>A registration that succeeds in calling back: libusb may run the callback any number of times
  before it returns, and goes on depending on what the callback returned.\<close>

datatype 'w register_run =
    Registered int memory 'w
  | Delivers "nat option" nat int memory 'w "int \<Rightarrow> memory \<Rightarrow> 'w \<Rightarrow> 'w register_run"

type_synonym 'w real_call = "memory \<times> 'w \<Rightarrow> int \<times> memory \<times> 'w"

record 'w real_libusb =
  real_libusb_bulk_transfer ::
    "nat option \<Rightarrow> u8 \<Rightarrow> nat option \<Rightarrow> int \<Rightarrow> nat option \<Rightarrow> u32 \<Rightarrow> 'w real_call"
  real_libusb_interrupt_transfer ::
    "nat option \<Rightarrow> u8 \<Rightarrow> nat option \<Rightarrow> int \<Rightarrow> nat option \<Rightarrow> u32 \<Rightarrow> 'w real_call"
  real_libusb_control_transfer ::
    "nat option \<Rightarrow> u8 \<Rightarrow> u8 \<Rightarrow> u16 \<Rightarrow> u16 \<Rightarrow> nat option \<Rightarrow> u16 \<Rightarrow> u32 \<Rightarrow> 'w real_call"
  real_libusb_claim_interface :: "nat option \<Rightarrow> int \<Rightarrow> 'w real_call"
  real_libusb_release_interface :: "nat option \<Rightarrow> int \<Rightarrow> 'w real_call"
  real_libusb_detach_kernel_driver :: "nat option \<Rightarrow> int \<Rightarrow> 'w real_call"
  real_libusb_set_interface_alt_setting :: "nat option \<Rightarrow> int \<Rightarrow> int \<Rightarrow> 'w real_call"
  real_libusb_reset_device :: "nat option \<Rightarrow> 'w real_call"
  real_libusb_close :: "nat option \<Rightarrow> memory \<times> 'w \<Rightarrow> memory \<times> 'w"
  real_register_null :: "dispatcher registration \<Rightarrow> 'w real_call"
  real_libusb_hotplug_register_callback :: "dispatcher registration \<Rightarrow> memory \<times> 'w \<Rightarrow> 'w register_run"
  real_descriptor :: "nat \<Rightarrow> 'w \<Rightarrow> (int \<times> LibusbDeviceDescriptor) \<times> 'w"

type_synonym 'w vendor =
  "nat \<Rightarrow> nat option \<Rightarrow> nat \<Rightarrow> int \<Rightarrow> nat \<Rightarrow> 'w guard \<Rightarrow> int run \<times> 'w guard"

section \<open>Model: the fence and the log\<close>

text \<open>The bytes of a message buffer of 256 that reach \<open>write\<close>.\<close>

definition message_bytes :: "string \<Rightarrow> string" where
  "message_bytes s =
     (case snprintf 256 s of (len, message) \<Rightarrow>
      if len > 0 then
        let n = nat len; n = (if n > 256 then 256 else n) in take n message
      else [])"

definition write_stderr :: "string \<Rightarrow> 'w guard \<Rightarrow> 'w guard" where
  "write_stderr s g = g\<lparr>std_err := std_err g @ message_bytes s\<rparr>"

definition fence_variable :: "'w loader \<Rightarrow> 'w \<Rightarrow> string option" where
  "fence_variable ld w = getenv ld ''SMIUSB_GUARD_RESTART_ON_DISCONNECT'' w"

definition restart_fence_enabled :: "'w loader \<Rightarrow> 'w guard \<Rightarrow> bool \<times> 'w guard" where
  "restart_fence_enabled ld g =
     (let cached = restart_on_disconnect g in
      if cached \<noteq> 0 then (cached = 2, g)
      else
        let enabled = (case fence_variable ld (outside g) of
                         None \<Rightarrow> False
                       | Some v \<Rightarrow> v \<noteq> [] \<and> v \<noteq> ''0'')
        in (enabled, g\<lparr>restart_on_disconnect := (if enabled then 2 else 1)\<rparr>))"

definition controlled_restart :: "string \<Rightarrow> 'w guard \<Rightarrow> 'a run \<times> 'w guard" where
  "controlled_restart reason g =
     (Exited 0, write_stderr (''smiusb-guard: controlled daemon restart: '' @ reason @ newline) g)"

definition restart_after_usb_disconnect :: "'w loader \<Rightarrow> string \<Rightarrow> int \<Rightarrow> 'w guard \<Rightarrow> unit run \<times> 'w guard" where
  "restart_after_usb_disconnect ld function_name result g =
     (if result = LIBUSB_ERROR_NO_DEVICE then
        (case restart_fence_enabled ld g of (enabled, g) \<Rightarrow>
           if enabled then controlled_restart function_name g else (Returned (), g))
      else (Returned (), g))"

definition guard_log :: "string \<Rightarrow> 'w guard \<Rightarrow> 'w guard" where
  "guard_log function_name g =
     (let count = blocked_calls g + 1 in
      write_stderr (''smiusb-guard: blocked '' @ function_name @ '' with NULL handle ''
        @ ''(returning LIBUSB_ERROR_NO_DEVICE, count='' @ show_u64 count @ '')'' @ newline)
        (g\<lparr>blocked_calls := count\<rparr>))"

definition resolve_or_die :: "'w loader \<Rightarrow> string \<Rightarrow> 'w guard \<Rightarrow> unit run \<times> 'w guard" where
  "resolve_or_die ld symbol g =
     (case dlsym_next ld symbol (outside g) of ((found, error), w) \<Rightarrow>
      let g = g\<lparr>outside := w\<rparr> in
      if \<not> found \<or> error \<noteq> None then
        (Exited 127, write_stderr (''smiusb-guard: cannot resolve '' @ symbol @ '': ''
           @ (case error of Some e \<Rightarrow> e | None \<Rightarrow> ''unknown dynamic linker error'') @ newline) g)
      else (Returned (), g\<lparr>resolved := (resolved g)(symbol := True)\<rparr>))"

text \<open>\<open>pthread_once\<close> on the control block of a symbol.\<close>

definition resolve_once :: "'w loader \<Rightarrow> string \<Rightarrow> 'w guard \<Rightarrow> unit run \<times> 'w guard" where
  "resolve_once ld symbol g =
     (if resolved g symbol then (Returned (), g) else resolve_or_die ld symbol g)"

definition call_real :: "'w real_call \<Rightarrow> 'w guard \<Rightarrow> int \<times> 'w guard" where
  "call_real f g =
     (case f (int_cells g, outside g) of (result, m, w) \<Rightarrow> (result, g\<lparr>int_cells := m, outside := w\<rparr>))"

section \<open>Model: hotplug callbacks\<close>

definition detach_fence ::
  "'w loader \<Rightarrow> 'w real_libusb \<Rightarrow> nat \<Rightarrow> int \<Rightarrow> 'w guard \<Rightarrow> unit run \<times> 'w guard" where
  "detach_fence ld lib device event g =
     (if event = LIBUSB_HOTPLUG_EVENT_DEVICE_LEFT then
        (case restart_fence_enabled ld g of (enabled, g) \<Rightarrow>
           if enabled then
             (case real_descriptor lib device (outside g) of ((result, descriptor), w) \<Rightarrow>
              let g = g\<lparr>outside := w\<rparr> in
              if result = LIBUSB_SUCCESS \<and> id_vendor descriptor = 0x090c \<and> id_product descriptor = 0x0768
              then controlled_restart ''SM768 hotplug detach'' g
              else (Returned (), g))
           else (Returned (), g))
      else (Returned (), g))"

definition guarded_hotplug_dispatch ::
  "'w loader \<Rightarrow> 'w real_libusb \<Rightarrow> 'w vendor \<Rightarrow> nat option \<Rightarrow> nat \<Rightarrow> int \<Rightarrow> nat \<Rightarrow> 'w guard \<Rightarrow>
     int run \<times> 'w guard" where
  "guarded_hotplug_dispatch ld lib vendor ctxt device event data g =
     and_next (detach_fence ld lib device event g) (\<lambda>_ g.
       case blocks g data of
         None \<Rightarrow> (Undefined, g)
       | Some guarded \<Rightarrow> vendor (callback guarded) ctxt device event (user_data guarded) g)"

text \<open>Running the callbacks that libusb makes during a registration.\<close>

primrec serve_register ::
  "(nat option \<Rightarrow> nat \<Rightarrow> int \<Rightarrow> 'w guard \<Rightarrow> int run \<times> 'w guard) \<Rightarrow> 'w register_run \<Rightarrow> 'w guard \<Rightarrow>
     int run \<times> 'w guard" where
  "serve_register cb (Registered result m w) g = (Returned result, g\<lparr>int_cells := m, outside := w\<rparr>)"
| "serve_register cb (Delivers ctxt device event m w k) g =
     and_next (cb ctxt device event (g\<lparr>int_cells := m, outside := w\<rparr>)) (\<lambda>answer g.
       serve_register cb (k answer (int_cells g) (outside g)) g)"

definition with_callback :: "'f option \<Rightarrow> nat \<Rightarrow> 'g registration \<Rightarrow> 'f registration" where
  "with_callback f data r =
     \<lparr>reg_context = reg_context r, reg_events = reg_events r, reg_flags = reg_flags r,
      reg_vendor_id = reg_vendor_id r, reg_product_id = reg_product_id r,
      reg_device_class = reg_device_class r, reg_callback = f, reg_user_data = data,
      reg_handle = reg_handle r\<rparr>"

definition libusb_hotplug_register_callback ::
  "'w loader \<Rightarrow> 'w real_libusb \<Rightarrow> 'w vendor \<Rightarrow> nat registration \<Rightarrow> 'w guard \<Rightarrow> int run \<times> 'w guard" where
  "libusb_hotplug_register_callback ld lib vendor r g =
     and_next (resolve_once ld ''libusb_hotplug_register_callback'' g) (\<lambda>_ g.
       case reg_callback r of
         None \<Rightarrow>
           (case call_real (real_register_null lib (with_callback None (reg_user_data r) r)) g of
              (result, g) \<Rightarrow> (Returned result, g))
       | Some f \<Rightarrow>
           (case malloc ld (outside g) of
              (None, w) \<Rightarrow> (Returned LIBUSB_ERROR_NO_MEM, g\<lparr>outside := w\<rparr>)
            | (Some guarded, w) \<Rightarrow>
                let g = g\<lparr>outside := w,
                  blocks := (blocks g)(guarded \<mapsto> \<lparr>callback = f, user_data = reg_user_data r\<rparr>)\<rparr>
                in and_next
                  (serve_register (\<lambda>ctxt device event. guarded_hotplug_dispatch ld lib vendor ctxt device event guarded)
                     (real_libusb_hotplug_register_callback lib
                        (with_callback (Some Guarded_Hotplug_Dispatch) guarded r) (int_cells g, outside g)) g)
                  (\<lambda>result g.
                    if result \<noteq> LIBUSB_SUCCESS
                    then (Returned result, g\<lparr>blocks := (blocks g)(guarded := None)\<rparr>)
                    else (Returned result, g))))"

section \<open>Model: guarded calls\<close>

definition store_zero :: "nat option \<Rightarrow> 'w guard \<Rightarrow> 'w guard" where
  "store_zero transferred g =
     (case transferred of None \<Rightarrow> g | Some p \<Rightarrow> g\<lparr>int_cells := (int_cells g)(p := 0)\<rparr>)"

definition libusb_bulk_transfer ::
  "'w loader \<Rightarrow> 'w real_libusb \<Rightarrow> nat option \<Rightarrow> u8 \<Rightarrow> nat option \<Rightarrow> int \<Rightarrow> nat option \<Rightarrow> u32 \<Rightarrow>
     'w guard \<Rightarrow> int run \<times> 'w guard" where
  "libusb_bulk_transfer ld lib handle endpoint data len transferred timeout g =
     (if handle = None then
        let g = guard_log ''libusb_bulk_transfer'' (store_zero transferred g) in
        and_next (restart_after_usb_disconnect ld ''libusb_bulk_transfer'' LIBUSB_ERROR_NO_DEVICE g) (\<lambda>_ g.
          (Returned LIBUSB_ERROR_NO_DEVICE, g))
      else
        and_next (resolve_once ld ''libusb_bulk_transfer'' g) (\<lambda>_ g.
          case call_real (real_libusb_bulk_transfer lib handle endpoint data len transferred timeout) g of
            (result, g) \<Rightarrow>
              and_next (restart_after_usb_disconnect ld ''libusb_bulk_transfer'' result g) (\<lambda>_ g.
                (Returned result, g))))"

definition libusb_interrupt_transfer ::
  "'w loader \<Rightarrow> 'w real_libusb \<Rightarrow> nat option \<Rightarrow> u8 \<Rightarrow> nat option \<Rightarrow> int \<Rightarrow> nat option \<Rightarrow> u32 \<Rightarrow>
     'w guard \<Rightarrow> int run \<times> 'w guard" where
  "libusb_interrupt_transfer ld lib handle endpoint data len transferred timeout g =
     (if handle = None then
        let g = guard_log ''libusb_interrupt_transfer'' (store_zero transferred g) in
        and_next (restart_after_usb_disconnect ld ''libusb_interrupt_transfer'' LIBUSB_ERROR_NO_DEVICE g) (\<lambda>_ g.
          (Returned LIBUSB_ERROR_NO_DEVICE, g))
      else
        and_next (resolve_once ld ''libusb_interrupt_transfer'' g) (\<lambda>_ g.
          case call_real (real_libusb_interrupt_transfer lib handle endpoint data len transferred timeout) g of
            (result, g) \<Rightarrow>
              and_next (restart_after_usb_disconnect ld ''libusb_interrupt_transfer'' result g) (\<lambda>_ g.
                (Returned result, g))))"

definition libusb_control_transfer ::
  "'w loader \<Rightarrow> 'w real_libusb \<Rightarrow> nat option \<Rightarrow> u8 \<Rightarrow> u8 \<Rightarrow> u16 \<Rightarrow> u16 \<Rightarrow> nat option \<Rightarrow> u16 \<Rightarrow> u32 \<Rightarrow>
     'w guard \<Rightarrow> int run \<times> 'w guard" where
  "libusb_control_transfer ld lib handle request_type request val index data len timeout g =
     (if handle = None then
        let g = guard_log ''libusb_control_transfer'' g in
        and_next (restart_after_usb_disconnect ld ''libusb_control_transfer'' LIBUSB_ERROR_NO_DEVICE g) (\<lambda>_ g.
          (Returned LIBUSB_ERROR_NO_DEVICE, g))
      else
        and_next (resolve_once ld ''libusb_control_transfer'' g) (\<lambda>_ g.
          case call_real (real_libusb_control_transfer lib handle request_type request val index data len timeout) g of
            (result, g) \<Rightarrow>
              and_next (restart_after_usb_disconnect ld ''libusb_control_transfer'' result g) (\<lambda>_ g.
                (Returned result, g))))"

text \<open>The macro \<open>NULL_GUARD_INTERFACE\<close> for a symbol and the function behind it.\<close>

definition null_guard_interface ::
  "'w loader \<Rightarrow> string \<Rightarrow> (nat option \<Rightarrow> int \<Rightarrow> 'w real_call) \<Rightarrow> nat option \<Rightarrow> int \<Rightarrow> 'w guard \<Rightarrow>
     int run \<times> 'w guard" where
  "null_guard_interface ld symbol real handle interface_number g =
     (if handle = None then (Returned LIBUSB_ERROR_NO_DEVICE, guard_log symbol g)
      else
        and_next (resolve_once ld symbol g) (\<lambda>_ g.
          case call_real (real handle interface_number) g of (result, g) \<Rightarrow> (Returned result, g)))"

definition libusb_claim_interface ::
  "'w loader \<Rightarrow> 'w real_libusb \<Rightarrow> nat option \<Rightarrow> int \<Rightarrow> 'w guard \<Rightarrow> int run \<times> 'w guard" where
  "libusb_claim_interface ld lib =
     null_guard_interface ld ''libusb_claim_interface'' (real_libusb_claim_interface lib)"

definition libusb_release_interface ::
  "'w loader \<Rightarrow> 'w real_libusb \<Rightarrow> nat option \<Rightarrow> int \<Rightarrow> 'w guard \<Rightarrow> int run \<times> 'w guard" where
  "libusb_release_interface ld lib =
     null_guard_interface ld ''libusb_release_interface'' (real_libusb_release_interface lib)"

definition libusb_detach_kernel_driver ::
  "'w loader \<Rightarrow> 'w real_libusb \<Rightarrow> nat option \<Rightarrow> int \<Rightarrow> 'w guard \<Rightarrow> int run \<times> 'w guard" where
  "libusb_detach_kernel_driver ld lib =
     null_guard_interface ld ''libusb_detach_kernel_driver'' (real_libusb_detach_kernel_driver lib)"

definition libusb_set_interface_alt_setting ::
  "'w loader \<Rightarrow> 'w real_libusb \<Rightarrow> nat option \<Rightarrow> int \<Rightarrow> int \<Rightarrow> 'w guard \<Rightarrow> int run \<times> 'w guard" where
  "libusb_set_interface_alt_setting ld lib handle interface_number alternate_setting g =
     (if handle = None then
        (Returned LIBUSB_ERROR_NO_DEVICE, guard_log ''libusb_set_interface_alt_setting'' g)
      else
        and_next (resolve_once ld ''libusb_set_interface_alt_setting'' g) (\<lambda>_ g.
          case call_real (real_libusb_set_interface_alt_setting lib handle interface_number alternate_setting) g of
            (result, g) \<Rightarrow> (Returned result, g)))"

definition libusb_reset_device ::
  "'w loader \<Rightarrow> 'w real_libusb \<Rightarrow> nat option \<Rightarrow> 'w guard \<Rightarrow> int run \<times> 'w guard" where
  "libusb_reset_device ld lib handle g =
     (if handle = None then (Returned LIBUSB_ERROR_NO_DEVICE, guard_log ''libusb_reset_device'' g)
      else
        and_next (resolve_once ld ''libusb_reset_device'' g) (\<lambda>_ g.
          case call_real (real_libusb_reset_device lib handle) g of (result, g) \<Rightarrow> (Returned result, g)))"

definition libusb_close ::
  "'w loader \<Rightarrow> 'w real_libusb \<Rightarrow> nat option \<Rightarrow> 'w guard \<Rightarrow> unit run \<times> 'w guard" where
  "libusb_close ld lib handle g =
     (if handle = None then (Returned (), guard_log ''libusb_close'' g)
      else
        and_next (resolve_once ld ''libusb_close'' g) (\<lambda>_ g.
          case real_libusb_close lib handle (int_cells g, outside g) of (m, w) \<Rightarrow>
            (Returned (), g\<lparr>int_cells := m, outside := w\<rparr>)))"

section \<open>Sequences of calls\<close>

text \<open>The guarded functions as the calls of a client, and the function of libusb that each stands
  for, where \<open>libusb_close\<close>, which has no result, counts as returning 0.\<close>

datatype usb_call =
    Bulk "nat option" u8 "nat option" int "nat option" u32
  | Interrupt "nat option" u8 "nat option" int "nat option" u32
  | Control "nat option" u8 u8 u16 u16 "nat option" u16 u32
  | Claim "nat option" int
  | Release "nat option" int
  | Detach "nat option" int
  | Alt_Setting "nat option" int int
  | Reset "nat option"
  | Close "nat option"

fun call_handle :: "usb_call \<Rightarrow> nat option" where
  "call_handle (Bulk h _ _ _ _ _) = h"
| "call_handle (Interrupt h _ _ _ _ _) = h"
| "call_handle (Control h _ _ _ _ _ _ _) = h"
| "call_handle (Claim h _) = h"
| "call_handle (Release h _) = h"
| "call_handle (Detach h _) = h"
| "call_handle (Alt_Setting h _ _) = h"
| "call_handle (Reset h) = h"
| "call_handle (Close h) = h"

fun call_symbol :: "usb_call \<Rightarrow> string" where
  "call_symbol (Bulk _ _ _ _ _ _) = ''libusb_bulk_transfer''"
| "call_symbol (Interrupt _ _ _ _ _ _) = ''libusb_interrupt_transfer''"
| "call_symbol (Control _ _ _ _ _ _ _ _) = ''libusb_control_transfer''"
| "call_symbol (Claim _ _) = ''libusb_claim_interface''"
| "call_symbol (Release _ _) = ''libusb_release_interface''"
| "call_symbol (Detach _ _) = ''libusb_detach_kernel_driver''"
| "call_symbol (Alt_Setting _ _ _) = ''libusb_set_interface_alt_setting''"
| "call_symbol (Reset _) = ''libusb_reset_device''"
| "call_symbol (Close _) = ''libusb_close''"

fun is_transfer :: "usb_call \<Rightarrow> bool" where
  "is_transfer (Bulk _ _ _ _ _ _) = True"
| "is_transfer (Interrupt _ _ _ _ _ _) = True"
| "is_transfer (Control _ _ _ _ _ _ _ _) = True"
| "is_transfer _ = False"

fun transferred_pointer :: "usb_call \<Rightarrow> nat option" where
  "transferred_pointer (Bulk _ _ _ _ t _) = t"
| "transferred_pointer (Interrupt _ _ _ _ t _) = t"
| "transferred_pointer _ = None"

fun null_result :: "usb_call \<Rightarrow> int" where
  "null_result (Close _) = 0"
| "null_result _ = LIBUSB_ERROR_NO_DEVICE"

fun real_of :: "'w real_libusb \<Rightarrow> usb_call \<Rightarrow> 'w real_call" where
  "real_of lib (Bulk h e d l t n) = real_libusb_bulk_transfer lib h e d l t n"
| "real_of lib (Interrupt h e d l t n) = real_libusb_interrupt_transfer lib h e d l t n"
| "real_of lib (Control h y q v i d l n) = real_libusb_control_transfer lib h y q v i d l n"
| "real_of lib (Claim h n) = real_libusb_claim_interface lib h n"
| "real_of lib (Release h n) = real_libusb_release_interface lib h n"
| "real_of lib (Detach h n) = real_libusb_detach_kernel_driver lib h n"
| "real_of lib (Alt_Setting h n a) = real_libusb_set_interface_alt_setting lib h n a"
| "real_of lib (Reset h) = real_libusb_reset_device lib h"
| "real_of lib (Close h) = (\<lambda>mw. (0, real_libusb_close lib h mw))"

fun guard_call :: "'w loader \<Rightarrow> 'w real_libusb \<Rightarrow> usb_call \<Rightarrow> 'w guard \<Rightarrow> int run \<times> 'w guard" where
  "guard_call ld lib (Bulk h e d l t n) g = libusb_bulk_transfer ld lib h e d l t n g"
| "guard_call ld lib (Interrupt h e d l t n) g = libusb_interrupt_transfer ld lib h e d l t n g"
| "guard_call ld lib (Control h y q v i d l n) g = libusb_control_transfer ld lib h y q v i d l n g"
| "guard_call ld lib (Claim h n) g = libusb_claim_interface ld lib h n g"
| "guard_call ld lib (Release h n) g = libusb_release_interface ld lib h n g"
| "guard_call ld lib (Detach h n) g = libusb_detach_kernel_driver ld lib h n g"
| "guard_call ld lib (Alt_Setting h n a) g = libusb_set_interface_alt_setting ld lib h n a g"
| "guard_call ld lib (Reset h) g = libusb_reset_device ld lib h g"
| "guard_call ld lib (Close h) g = and_next (libusb_close ld lib h g) (\<lambda>_ g. (Returned 0, g))"

fun guard_session ::
  "'w loader \<Rightarrow> 'w real_libusb \<Rightarrow> usb_call list \<Rightarrow> 'w guard \<Rightarrow> int list run \<times> 'w guard" where
  "guard_session ld lib [] g = (Returned [], g)"
| "guard_session ld lib (c # cs) g =
     and_next (guard_call ld lib c g) (\<lambda>r g.
       and_next (guard_session ld lib cs g) (\<lambda>rs g. (Returned (r # rs), g)))"

text \<open>The same calls made on the library without the guard.\<close>

fun direct_session :: "'w real_libusb \<Rightarrow> usb_call list \<Rightarrow> memory \<times> 'w \<Rightarrow> int list \<times> memory \<times> 'w" where
  "direct_session lib [] mw = ([], mw)"
| "direct_session lib (c # cs) mw =
     (case real_of lib c mw of (r, mw) \<Rightarrow>
      case direct_session lib cs mw of (rs, mw) \<Rightarrow> (r # rs, mw))"

section \<open>Lemmas: one call\<close>

lemma guard_call_eq:
  "guard_call ld lib c g =
     (if call_handle c = None then
        let g = guard_log (call_symbol c) (store_zero (transferred_pointer c) g) in
        and_next (if is_transfer c then restart_after_usb_disconnect ld (call_symbol c) LIBUSB_ERROR_NO_DEVICE g
                  else (Returned (), g)) (\<lambda>_ g. (Returned (null_result c), g))
      else
        and_next (resolve_once ld (call_symbol c) g) (\<lambda>_ g.
          case call_real (real_of lib c) g of (result, g) \<Rightarrow>
            and_next (if is_transfer c then restart_after_usb_disconnect ld (call_symbol c) result g
                      else (Returned (), g)) (\<lambda>_ g. (Returned result, g))))"
proof (cases c)
  case (Close h)
  then show ?thesis
    by (cases "resolve_once ld ''libusb_close'' g"; cases "fst (resolve_once ld ''libusb_close'' g)")
      (auto simp: libusb_close_def call_real_def store_zero_def split: prod.split)
qed (simp_all add: libusb_bulk_transfer_def libusb_interrupt_transfer_def libusb_control_transfer_def
    libusb_claim_interface_def libusb_release_interface_def libusb_detach_kernel_driver_def
    null_guard_interface_def libusb_set_interface_alt_setting_def libusb_reset_device_def store_zero_def)

section \<open>Lemmas: messages\<close>

lemma message_whole: "length s \<le> 255 \<Longrightarrow> message_bytes s = s"
  by (simp add: message_bytes_def snprintf_def i32_max_def)

lemma message_cut:
  "255 < length s \<Longrightarrow> length s \<le> i32_max \<Longrightarrow> message_bytes s = take 255 s @ [CHR 0x00]"
  by (auto simp: message_bytes_def snprintf_def Let_def)

lemma length_call_symbol: "length (call_symbol c) \<le> 32"
  by (cases c) simp_all

definition blocked_line :: "usb_call \<Rightarrow> u64 \<Rightarrow> string" where
  "blocked_line c count = ''smiusb-guard: blocked '' @ call_symbol c @ '' with NULL handle ''
     @ ''(returning LIBUSB_ERROR_NO_DEVICE, count='' @ show_u64 count @ '')'' @ newline"

definition restart_line :: "string \<Rightarrow> string" where
  "restart_line reason = ''smiusb-guard: controlled daemon restart: '' @ reason @ newline"

lemma length_show_u64: "length (show_u64 v) \<le> 20"
  using length_show_radix_le [of 10 20 "unat v"] unsigned_less [of v, where ?'a = nat] by (simp add: show_u64_def)

lemma guard_log_eq:
  "guard_log (call_symbol c) g =
     g\<lparr>blocked_calls := blocked_calls g + 1, std_err := std_err g @ blocked_line c (blocked_calls g + 1)\<rparr>"
proof -
  let ?s = "blocked_line c (blocked_calls g + 1)"
  have "length ?s \<le> 255"
    using length_call_symbol [of c] length_show_u64 [of "blocked_calls g + 1"]
    by (simp add: blocked_line_def newline_def)
  then have "message_bytes ?s = ?s" by (rule message_whole)
  then show ?thesis by (simp add: guard_log_def write_stderr_def blocked_line_def Let_def)
qed

lemma controlled_restart_eq:
  "length reason \<le> 32 \<Longrightarrow>
     controlled_restart reason g = (Exited 0, g\<lparr>std_err := std_err g @ restart_line reason\<rparr>)"
  using message_whole [of "restart_line reason"]
  by (simp add: controlled_restart_def write_stderr_def restart_line_def newline_def)

section \<open>Lemmas: the fence\<close>

text \<open>The fence is on, or off, whenever it is asked: it was cached so, or it is not cached and the
  environment variable stays so.\<close>

definition fence_set :: "'w loader \<Rightarrow> 'w guard \<Rightarrow> bool" where
  "fence_set ld g \<longleftrightarrow> restart_on_disconnect g = 2
     \<or> restart_on_disconnect g = 0
       \<and> (\<forall>w. \<exists>v. fence_variable ld w = Some v \<and> v \<noteq> [] \<and> v \<noteq> ''0'')"

definition fence_clear :: "'w loader \<Rightarrow> 'w guard \<Rightarrow> bool" where
  "fence_clear ld g \<longleftrightarrow> restart_on_disconnect g = 1
     \<or> restart_on_disconnect g = 0
       \<and> (\<forall>w. fence_variable ld w \<in> {None, Some [], Some ''0''})"

lemma fence_set_enabled:
  assumes "fence_set ld g"
  shows "restart_fence_enabled ld g = (True, g\<lparr>restart_on_disconnect := 2\<rparr>)"
proof (cases "restart_on_disconnect g = 0")
  case True
  then obtain v where "fence_variable ld (outside g) = Some v" "v \<noteq> []" "v \<noteq> ''0''"
    using assms by (auto simp: fence_set_def)
  then show ?thesis using True by (simp add: restart_fence_enabled_def)
next
  case False
  then show ?thesis using assms by (simp add: restart_fence_enabled_def fence_set_def)
qed

lemma fence_clear_enabled:
  assumes "fence_clear ld g"
  shows "restart_fence_enabled ld g = (False, g\<lparr>restart_on_disconnect := 1\<rparr>)"
proof (cases "restart_on_disconnect g = 0")
  case True
  then have "fence_variable ld (outside g) \<in> {None, Some [], Some ''0''}"
    using assms by (simp add: fence_clear_def)
  then show ?thesis using True by (elim insertE) (simp_all add: restart_fence_enabled_def)
next
  case False
  then show ?thesis using assms by (simp add: restart_fence_enabled_def fence_clear_def)
qed

lemma fence_set_update [simp]:
  "fence_set ld (g\<lparr>restart_on_disconnect := 2\<rparr>)"
  "fence_set ld (g\<lparr>outside := w\<rparr>) = fence_set ld g"
  "fence_set ld (g\<lparr>int_cells := m\<rparr>) = fence_set ld g"
  "fence_set ld (g\<lparr>resolved := f\<rparr>) = fence_set ld g"
  "fence_set ld (g\<lparr>std_err := t\<rparr>) = fence_set ld g"
  "fence_set ld (g\<lparr>blocked_calls := n\<rparr>) = fence_set ld g"
  "fence_set ld (g\<lparr>blocks := b\<rparr>) = fence_set ld g"
  by (simp_all add: fence_set_def)

lemma fence_clear_update [simp]:
  "fence_clear ld (g\<lparr>restart_on_disconnect := 1\<rparr>)"
  "fence_clear ld (g\<lparr>outside := w\<rparr>) = fence_clear ld g"
  "fence_clear ld (g\<lparr>int_cells := m\<rparr>) = fence_clear ld g"
  "fence_clear ld (g\<lparr>resolved := f\<rparr>) = fence_clear ld g"
  by (simp_all add: fence_clear_def)

lemma store_zero_fence [simp]: "fence_set ld (store_zero t g) = fence_set ld g"
  by (simp add: store_zero_def split: option.split)

lemma disconnect_restarts:
  "fence_set ld g \<Longrightarrow> length name \<le> 32 \<Longrightarrow>
     restart_after_usb_disconnect ld name LIBUSB_ERROR_NO_DEVICE g =
       (Exited 0, g\<lparr>restart_on_disconnect := 2, std_err := std_err g @ restart_line name\<rparr>)"
  by (simp add: restart_after_usb_disconnect_def fence_set_enabled controlled_restart_eq)

lemma other_result_passes:
  "r \<noteq> LIBUSB_ERROR_NO_DEVICE \<Longrightarrow> restart_after_usb_disconnect ld name r g = (Returned (), g)"
  by (simp add: restart_after_usb_disconnect_def)

lemma clear_fence_passes:
  "fence_clear ld g \<Longrightarrow> restart_after_usb_disconnect ld name r g =
     (Returned (), if r = LIBUSB_ERROR_NO_DEVICE then g\<lparr>restart_on_disconnect := 1\<rparr> else g)"
  by (simp add: restart_after_usb_disconnect_def fence_clear_enabled)

text \<open>A symbol that the dynamic linker may fail to find.\<close>

definition may_be_missing :: "'w loader \<Rightarrow> string \<Rightarrow> bool" where
  "may_be_missing ld symbol \<longleftrightarrow>
     (\<exists>w. \<not> fst (fst (dlsym_next ld symbol w)) \<or> snd (fst (dlsym_next ld symbol w)) \<noteq> None)"

lemma resolve_once_cases:
  obtains g' where "resolve_once ld symbol g = (Returned (), g')" "fence_set ld g' = fence_set ld g"
  | g' where "resolve_once ld symbol g = (Exited 127, g')"
      "may_be_missing ld symbol"
proof (cases "resolved g symbol")
  case True
  then show ?thesis using that(1) by (simp add: resolve_once_def)
next
  case False
  obtain found error w where d: "dlsym_next ld symbol (outside g) = ((found, error), w)"
    by (metis prod.exhaust)
  show ?thesis
  proof (cases "\<not> found \<or> error \<noteq> None")
    case True
    then have "may_be_missing ld symbol" unfolding may_be_missing_def by (intro exI [of _ "outside g"]) (simp add: d)
    with True show ?thesis using that(2) False d by (simp add: resolve_once_def resolve_or_die_def)
  next
    case ok: False
    then show ?thesis using that(1) False d by (simp add: resolve_once_def resolve_or_die_def)
  qed
qed

lemma guard_call_fence:
  assumes set: "fence_set ld g" and call: "guard_call ld lib c g = (x, g')"
  shows "case x of
      Returned r \<Rightarrow> fence_set ld g' \<and> (is_transfer c \<longrightarrow> call_handle c \<noteq> None \<and> r \<noteq> LIBUSB_ERROR_NO_DEVICE)
    | Exited status \<Rightarrow>
        status = 0 \<and> is_transfer c \<and> (\<exists>before. std_err g' = before @ restart_line (call_symbol c))
        \<or> status = 127 \<and> may_be_missing ld (call_symbol c)
    | Undefined \<Rightarrow> False"
proof (cases "call_handle c")
  case None
  then show ?thesis
    using call set
    by (cases "is_transfer c") (auto simp: guard_call_eq Let_def guard_log_eq disconnect_restarts length_call_symbol)
next
  case (Some h)
  show ?thesis
  proof (cases rule: resolve_once_cases [of ld "call_symbol c" g])
    case (1 g1)
    obtain r m w where real: "real_of lib c (int_cells g1, outside g1) = (r, m, w)" by (metis prod.exhaust)
    show ?thesis
      using call 1 set Some
      by (cases "r = LIBUSB_ERROR_NO_DEVICE")
        (auto simp: guard_call_eq call_real_def real disconnect_restarts length_call_symbol
          other_result_passes split: if_splits)
  next
    case (2 g1)
    then show ?thesis using call Some by (auto simp: guard_call_eq)
  qed
qed

section \<open>Lemmas: hotplug callbacks\<close>

text \<open>What the guard relies on: the vendor's callback, which may call the guard in turn, cannot reach
  the static variables or the blocks of the guard except through its functions.\<close>

definition keeps_fence :: "'w loader \<Rightarrow> 'w vendor \<Rightarrow> bool" where
  "keeps_fence ld vendor \<longleftrightarrow>
     (\<forall>f ctxt d e u g. fence_set ld g \<longrightarrow> fence_set ld (snd (vendor f ctxt d e u g)))"

definition keeps_block :: "nat \<Rightarrow> 'w vendor \<Rightarrow> bool" where
  "keeps_block p vendor \<longleftrightarrow>
     (\<forall>f ctxt d e u g. fst (vendor f ctxt d e u g) \<noteq> Undefined
        \<and> blocks (snd (vendor f ctxt d e u g)) p = blocks g p)"

text \<open>An attached or departing adapter, whenever its descriptor is read.\<close>

definition reads_as_adapter :: "'w real_libusb \<Rightarrow> nat \<Rightarrow> bool" where
  "reads_as_adapter lib d \<longleftrightarrow>
     (\<forall>w. fst (fst (real_descriptor lib d w)) = 0
        \<and> id_vendor (snd (fst (real_descriptor lib d w))) = VENDOR_ID
        \<and> id_product (snd (fst (real_descriptor lib d w))) = SM768_PRODUCT_ID)"

definition agree_but_detach :: "'w real_libusb \<Rightarrow> 'w vendor \<Rightarrow> 'w vendor \<Rightarrow> bool" where
  "agree_but_detach lib vendor vendor' \<longleftrightarrow>
     (\<forall>f ctxt d e u g. e = LIBUSB_HOTPLUG_EVENT_DEVICE_LEFT \<and> reads_as_adapter lib d
        \<or> vendor f ctxt d e u g = vendor' f ctxt d e u g)"

lemma detach_fence_adapter:
  assumes "fence_set ld g" and "reads_as_adapter lib d"
  shows "detach_fence ld lib d LIBUSB_HOTPLUG_EVENT_DEVICE_LEFT g =
    (Exited 0, g\<lparr>restart_on_disconnect := 2, outside := snd (real_descriptor lib d (outside g)),
       std_err := std_err g @ restart_line ''SM768 hotplug detach''\<rparr>)"
proof -
  obtain desc w where d: "real_descriptor lib d (outside g) = ((0, desc), w)"
    "id_vendor desc = 0x090c" "id_product desc = 0x0768"
    using assms(2) unfolding reads_as_adapter_def
    by (metis prod.collapse VENDOR_ID_def SM768_PRODUCT_ID_def)
  then show ?thesis
    by (simp add: detach_fence_def fence_set_enabled [OF assms(1)] controlled_restart_eq LIBUSB_SUCCESS_def)
qed

lemma detach_fence_cases:
  assumes "fence_set ld g"
  obtains g' where "detach_fence ld lib d e g = (Returned (), g')" "fence_set ld g'"
  | g' where "detach_fence ld lib d e g = (Exited 0, g')" "fence_set ld g'"
proof (cases "e = LIBUSB_HOTPLUG_EVENT_DEVICE_LEFT")
  case True
  obtain r desc w where "real_descriptor lib d (outside g) = ((r, desc), w)" by (metis prod.exhaust)
  then show ?thesis
    using that True
    by (cases "r = LIBUSB_SUCCESS \<and> id_vendor desc = 0x090c \<and> id_product desc = 0x0768")
      (simp_all add: detach_fence_def fence_set_enabled [OF assms] controlled_restart_eq)
next
  case False
  then show ?thesis using that assms by (simp add: detach_fence_def)
qed

lemma dispatch_agree:
  assumes "fence_set ld g" and "agree_but_detach lib vendor vendor'"
  shows "guarded_hotplug_dispatch ld lib vendor ctxt d e data g =
         guarded_hotplug_dispatch ld lib vendor' ctxt d e data g"
proof (cases "e = LIBUSB_HOTPLUG_EVENT_DEVICE_LEFT \<and> reads_as_adapter lib d")
  case True
  then show ?thesis by (simp add: guarded_hotplug_dispatch_def detach_fence_adapter [OF assms(1)])
next
  case False
  with assms(2) have "vendor f ctxt d e u g = vendor' f ctxt d e u g" for f u g
    unfolding agree_but_detach_def by blast
  then show ?thesis
    by (cases rule: detach_fence_cases [OF assms(1), of lib d e])
      (simp_all add: guarded_hotplug_dispatch_def split: option.split)
qed

lemma dispatch_keeps_fence:
  assumes "fence_set ld g" and "keeps_fence ld vendor"
  shows "fence_set ld (snd (guarded_hotplug_dispatch ld lib vendor ctxt d e data g))"
proof -
  have "fence_set ld (snd (vendor f ctxt d e u g))" if "fence_set ld g" for f u g
    using assms(2) that unfolding keeps_fence_def by blast
  then show ?thesis
    by (cases rule: detach_fence_cases [OF assms(1), of lib d e])
      (auto simp: guarded_hotplug_dispatch_def split: option.split)
qed

lemma serve_agree:
  assumes "agree_but_detach lib vendor vendor'" and "keeps_fence ld vendor" and "fence_set ld g"
  shows "serve_register (\<lambda>ctxt d e. guarded_hotplug_dispatch ld lib vendor ctxt d e p) run g =
         serve_register (\<lambda>ctxt d e. guarded_hotplug_dispatch ld lib vendor' ctxt d e p) run g"
  using assms(3)
proof (induction run arbitrary: g)
  case (Delivers ctxt d e m w k)
  let ?g = "g\<lparr>int_cells := m, outside := w\<rparr>"
  obtain x g' where call: "guarded_hotplug_dispatch ld lib vendor ctxt d e p ?g = (x, g')"
    by (metis prod.exhaust)
  have g: "fence_set ld ?g" using Delivers.prems by simp
  have same: "guarded_hotplug_dispatch ld lib vendor' ctxt d e p ?g = (x, g')"
    using dispatch_agree [OF g assms(1), of ctxt d e p] call by simp
  have set: "fence_set ld g'" using dispatch_keeps_fence [OF g assms(2), of lib ctxt d e p] unfolding call by simp
  show ?case using call same Delivers.IH [OF rangeI rangeI rangeI set] by (cases x) simp_all
qed simp

text \<open>With the fence cached as off, dispatching is the vendor's callback with its own data.\<close>

definition keeps_fence_off :: "'w vendor \<Rightarrow> bool" where
  "keeps_fence_off vendor \<longleftrightarrow>
     (\<forall>f ctxt d e u g. restart_on_disconnect g = 1 \<longrightarrow>
        restart_on_disconnect (snd (vendor f ctxt d e u g)) = 1)"

lemma dispatch_passes:
  assumes "restart_on_disconnect g = 1" and "blocks g p = Some \<lparr>callback = f, user_data = u\<rparr>"
  shows "guarded_hotplug_dispatch ld lib vendor ctxt d e p g = vendor f ctxt d e u g"
  using assms by (simp add: guarded_hotplug_dispatch_def detach_fence_def restart_fence_enabled_def)

lemma serve_passes:
  assumes keep: "keeps_block p vendor" "keeps_fence_off vendor"
    and "restart_on_disconnect g = 1" "blocks g p = Some \<lparr>callback = f, user_data = u\<rparr>"
  shows "serve_register (\<lambda>ctxt d e. guarded_hotplug_dispatch ld lib vendor ctxt d e p) run g =
         serve_register (\<lambda>ctxt d e. vendor f ctxt d e u) run g
    \<and> fst (serve_register (\<lambda>ctxt d e. vendor f ctxt d e u) run g) \<noteq> Undefined
    \<and> blocks (snd (serve_register (\<lambda>ctxt d e. vendor f ctxt d e u) run g)) p = blocks g p"
  using assms(3,4)
proof (induction run arbitrary: g)
  case (Delivers ctxt d e m w k)
  let ?g = "g\<lparr>int_cells := m, outside := w\<rparr>"
  obtain x g' where call: "vendor f ctxt d e u ?g = (x, g')" by (metis prod.exhaust)
  have "x \<noteq> Undefined" "blocks g' p = blocks ?g p"
    using keep(1) call unfolding keeps_block_def by (metis fst_conv, metis snd_conv)
  moreover have "restart_on_disconnect ?g = 1" using Delivers.prems by simp
  then have "restart_on_disconnect g' = 1" using keep(2) call unfolding keeps_fence_off_def by (metis snd_conv)
  ultimately show ?case
    using call Delivers.prems Delivers.IH [OF rangeI rangeI rangeI, of g'] by (cases x) (simp_all add: dispatch_passes)
qed simp

section \<open>Outsides for the witnesses\<close>

text \<open>A linker that finds every symbol, with and without the fence variable, and two libraries that
  differ on NULL handles only; the world counts the calls of the library.\<close>

definition sample_loader :: "string option \<Rightarrow> nat loader" where
  "sample_loader v = \<lparr>getenv = (\<lambda>name w. v), dlsym_next = (\<lambda>symbol w. ((True, None), w)),
     malloc = (\<lambda>w. (Some 64, w))\<rparr>"

definition sample_real :: "int \<Rightarrow> int \<Rightarrow> nat real_libusb" where
  "sample_real on_null result =
     (let f = (\<lambda>h (m, w). (if h = None then on_null else result, m, w + 1)) in
      \<lparr>real_libusb_bulk_transfer = (\<lambda>h e d l t n. f h), real_libusb_interrupt_transfer = (\<lambda>h e d l t n. f h),
       real_libusb_control_transfer = (\<lambda>h y q v i d l n. f h), real_libusb_claim_interface = (\<lambda>h n. f h),
       real_libusb_release_interface = (\<lambda>h n. f h), real_libusb_detach_kernel_driver = (\<lambda>h n. f h),
       real_libusb_set_interface_alt_setting = (\<lambda>h n a. f h), real_libusb_reset_device = f,
       real_libusb_close = (\<lambda>h (m, w). (m, if h = None then nat on_null else w + 1)),
       real_register_null = (\<lambda>r (m, w). (- 2, m, w)),
       real_libusb_hotplug_register_callback = (\<lambda>r (m, w).
         Delivers (reg_context r) 10 2 m w (\<lambda>answer m w. Registered 0 m (w + 1))),
       real_descriptor = (\<lambda>d w. ((0, view_descriptor (stub_view d)), w))\<rparr>)"

definition sample_guard :: "nat guard" where
  "sample_guard = \<lparr>blocked_calls = 0, restart_on_disconnect = 0, resolved = (\<lambda>symbol. False),
     blocks = Map.empty, std_err = [], int_cells = (\<lambda>p. 7), outside = 0\<rparr>"

section \<open>Properties\<close>

text \<open>Libraries that agree on every call with a valid handle.\<close>

definition same_on_handles :: "'w real_libusb \<Rightarrow> 'w real_libusb \<Rightarrow> bool" where
  "same_on_handles lib lib' \<longleftrightarrow> (\<forall>c. call_handle c \<noteq> None \<longrightarrow> real_of lib c = real_of lib' c)"

lemma guard_call_same: "same_on_handles lib lib' \<Longrightarrow> guard_call ld lib c g = guard_call ld lib' c g"
  by (simp add: guard_call_eq same_on_handles_def)

text \<open>C13: libusb is never entered with a NULL handle. Two libraries that agree on valid handles, and do
  anything at all with NULL, give the same results, outputs and states for every sequence of guarded
  calls.\<close>

theorem guard_hides_null:
  assumes "same_on_handles lib lib'"
  shows "guard_session ld lib cs g = guard_session ld lib' cs g"
  by (induction cs arbitrary: g) (simp_all add: guard_call_same [OF assms])

theorem guard_hides_null_witness:
  "guard_session (sample_loader None) (sample_real 99 0) [Reset None, Close None, Reset (Some 5)] sample_guard
     = guard_session (sample_loader None) (sample_real 55 0) [Reset None, Close None, Reset (Some 5)] sample_guard
   \<and> real_of (sample_real 99 0) (Reset None) \<noteq> real_of (sample_real 55 0) (Reset None)"
proof -
  have "same_on_handles (sample_real 99 0) (sample_real 55 0)"
    unfolding same_on_handles_def
  proof (intro allI impI)
    fix c assume "call_handle c \<noteq> None"
    then show "real_of (sample_real 99 0) c = real_of (sample_real 55 0) c"
      by (cases c) (auto simp: sample_real_def)
  qed
  note guard_hides_null [OF this, of "sample_loader None" "[Reset None, Close None, Reset (Some 5)]" sample_guard]
  moreover have "real_of (sample_real 99 0) (Reset None) \<noteq> real_of (sample_real 55 0) (Reset None)"
    by (simp add: sample_real_def fun_eq_iff)
  ultimately show ?thesis by blast
qed

text \<open>C14: the restart fence. While it is on, the client of the guard never sees a transfer fail with
  \<open>LIBUSB_ERROR_NO_DEVICE\<close>, nor one on a NULL handle return at all: in every sequence of calls either
  all of them return and no transfer reported the loss of the device, or the process ends,
  with status 0 after the restart message of a transfer in the sequence or with status 127 because a
  symbol could not be resolved.\<close>

theorem fence_stops_client:
  assumes "fence_set ld g"
  shows "case guard_session ld lib cs g of
      (Returned rs, g') \<Rightarrow> length rs = length cs
        \<and> (\<forall>i < length cs. is_transfer (cs ! i) \<longrightarrow> call_handle (cs ! i) \<noteq> None \<and> rs ! i \<noteq> LIBUSB_ERROR_NO_DEVICE)
    | (Exited status, g') \<Rightarrow> (\<exists>c \<in> set cs.
        status = 0 \<and> is_transfer c \<and> (\<exists>before. std_err g' = before @ restart_line (call_symbol c))
        \<or> status = 127 \<and> may_be_missing ld (call_symbol c))
    | (Undefined, g') \<Rightarrow> False"
  using assms
proof (induction cs arbitrary: g)
  case (Cons c cs)
  obtain x g1 where call: "guard_call ld lib c g = (x, g1)" by (metis prod.exhaust)
  note one = guard_call_fence [OF Cons.prems call]
  show ?case
  proof (cases x)
    case (Returned r)
    then have "fence_set ld g1" using one by simp
    from Cons.IH [OF this] obtain y g2 where rest: "guard_session ld lib cs g1 = (y, g2)"
      and IH: "case y of Returned rs \<Rightarrow> length rs = length cs
        \<and> (\<forall>i < length cs. is_transfer (cs ! i) \<longrightarrow> call_handle (cs ! i) \<noteq> None \<and> rs ! i \<noteq> LIBUSB_ERROR_NO_DEVICE)
    | Exited status \<Rightarrow> (\<exists>c \<in> set cs.
        status = 0 \<and> is_transfer c \<and> (\<exists>before. std_err g2 = before @ restart_line (call_symbol c))
        \<or> status = 127 \<and> may_be_missing ld (call_symbol c))
    | Undefined \<Rightarrow> False"
      by (cases "guard_session ld lib cs g1") simp
    show ?thesis using one IH by (cases y) (auto simp: call Returned rest nth_Cons' less_Suc_eq_0_disj)
  next
    case (Exited status)
    then show ?thesis using one by (simp add: call) blast
  next
    case Undefined
    then show ?thesis using one by simp
  qed
qed simp

theorem fence_stops_client_witness:
  "\<exists>g'. guard_session (sample_loader (Some ''1'')) (sample_real 0 0) [Claim (Some 5) 0, Bulk None 2 None 8 (Some 3) 10]
      sample_guard = (Exited 0, g')"
proof -
  let ?ld = "sample_loader (Some ''1'')" and ?cs = "[Claim (Some 5) 0, Bulk None 2 None 8 (Some 3) 10]"
  have "fence_set ?ld sample_guard" by (simp add: fence_set_def sample_guard_def fence_variable_def sample_loader_def)
  note fence = fence_stops_client [OF this, where lib = "sample_real 0 0" and cs = ?cs]
  obtain x g' where run: "guard_session ?ld (sample_real 0 0) ?cs sample_guard = (x, g')" by (metis prod.exhaust)
  have "\<not> may_be_missing ?ld symbol" for symbol by (simp add: may_be_missing_def sample_loader_def)
  with fence have "x = Exited 0" unfolding run by (cases x) (auto simp: less_Suc_eq_0_disj all_conj_distrib)
  with run show ?thesis by blast
qed

text \<open>The dynamic linker finds every symbol.\<close>

definition all_linked :: "'w loader \<Rightarrow> bool" where
  "all_linked ld \<longleftrightarrow> (\<forall>symbol w. dlsym_next ld symbol w = ((True, None), w))"

lemma guard_call_transparent:
  assumes "all_linked ld" and "fence_clear ld g" and "call_handle c \<noteq> None"
    and "real_of lib c (int_cells g, outside g) = (r, m, w)"
  obtains f v where "guard_call ld lib c g =
      (Returned r, g\<lparr>int_cells := m, outside := w, resolved := f, restart_on_disconnect := v\<rparr>)"
    and "fence_clear ld (g\<lparr>int_cells := m, outside := w, resolved := f, restart_on_disconnect := v\<rparr>)"
proof -
  obtain f where once: "resolve_once ld (call_symbol c) g = (Returned (), g\<lparr>resolved := f\<rparr>)"
  proof (cases "resolved g (call_symbol c)")
    case True
    then show ?thesis using that [of "resolved g"] by (simp add: resolve_once_def)
  next
    case False
    with assms(1) show ?thesis
      using that [of "(resolved g)(call_symbol c := True)"]
      by (simp add: resolve_once_def resolve_or_die_def all_linked_def)
  qed
  let ?v = "if is_transfer c \<and> r = LIBUSB_ERROR_NO_DEVICE then 1 else restart_on_disconnect g"
  have clear: "fence_clear ld (g\<lparr>resolved := f, int_cells := m, outside := w\<rparr>)" using assms(2) by simp
  have "guard_call ld lib c g =
      (Returned r, g\<lparr>int_cells := m, outside := w, resolved := f, restart_on_disconnect := ?v\<rparr>)"
    using clear_fence_passes [OF clear] assms(3)
    by (auto simp: guard_call_eq once call_real_def assms(4))
  moreover have "fence_clear ld (g\<lparr>int_cells := m, outside := w, resolved := f, restart_on_disconnect := ?v\<rparr>)"
    using assms(2) by (simp add: fence_clear_def)
  ultimately show ?thesis by (rule that)
qed

text \<open>C25: the guard is transparent. With the fence off and every symbol found, a sequence of calls on
  valid handles returns the results and leaves the memory and the outside that the same calls made
  directly on libusb would, whatever they report, and the guard writes nothing and blocks nothing.\<close>

theorem guard_transparent:
  assumes "all_linked ld" and "fence_clear ld g" and "\<forall>c \<in> set cs. call_handle c \<noteq> None"
    and "direct_session lib cs (int_cells g, outside g) = (rs, m, w)"
  shows "\<exists>f v. guard_session ld lib cs g =
    (Returned rs, g\<lparr>int_cells := m, outside := w, resolved := f, restart_on_disconnect := v\<rparr>)"
  using assms(2-)
proof (induction cs arbitrary: g rs m w)
  case Nil
  then show ?case by (intro exI [of _ "resolved g"] exI [of _ "restart_on_disconnect g"]) simp
next
  case (Cons c cs)
  obtain r m1 w1 where real: "real_of lib c (int_cells g, outside g) = (r, m1, w1)" by (metis prod.exhaust)
  obtain rs' where rest: "direct_session lib cs (m1, w1) = (rs', m, w)" and rs: "rs = r # rs'"
    using Cons.prems(3) by (auto simp: real split: prod.splits)
  have "call_handle c \<noteq> None" using Cons.prems(2) by simp
  from guard_call_transparent [OF assms(1) Cons.prems(1) this real] obtain f v where
    call: "guard_call ld lib c g =
      (Returned r, g\<lparr>int_cells := m1, outside := w1, resolved := f, restart_on_disconnect := v\<rparr>)"
    and clear: "fence_clear ld (g\<lparr>int_cells := m1, outside := w1, resolved := f, restart_on_disconnect := v\<rparr>)" .
  from Cons.IH [OF clear, of rs' m w] Cons.prems(2) rest obtain f' v' where
    "guard_session ld lib cs (g\<lparr>int_cells := m1, outside := w1, resolved := f, restart_on_disconnect := v\<rparr>) =
      (Returned rs', g\<lparr>int_cells := m, outside := w, resolved := f', restart_on_disconnect := v'\<rparr>)" by auto
  then show ?case by (intro exI [of _ f'] exI [of _ v']) (simp add: call rs)
qed

theorem guard_transparent_witness:
  "\<exists>f v. guard_session (sample_loader None) (sample_real 0 (- 4)) [Claim (Some 5) 0, Bulk (Some 5) 2 None 8 None 10]
      sample_guard = (Returned [- 4, - 4], sample_guard\<lparr>int_cells := int_cells sample_guard, outside := 2,
        resolved := f, restart_on_disconnect := v\<rparr>)"
  by (rule guard_transparent)
    (simp_all add: all_linked_def sample_loader_def fence_clear_def sample_guard_def fence_variable_def sample_real_def)

text \<open>A blocked call. Without the fence a call on a NULL handle returns \<open>LIBUSB_ERROR_NO_DEVICE\<close>
  (\<open>libusb_close\<close> just returns), sets the caller's transfer count to 0 where there is one, counts the
  call, writes one complete line with that count, and leaves everything else alone.\<close>

lemma null_call_exact:
  assumes "fence_clear ld g \<or> \<not> is_transfer c" and "call_handle c = None"
  shows "\<exists>v. guard_call ld lib c g =
    (Returned (case c of Close h \<Rightarrow> 0 | _ \<Rightarrow> - 4),
     g\<lparr>blocked_calls := blocked_calls g + 1,
       std_err := std_err g @ blocked_line c (blocked_calls g + 1),
       int_cells := (case transferred_pointer c of None \<Rightarrow> int_cells g | Some p \<Rightarrow> (int_cells g)(p := 0)),
       restart_on_disconnect := v\<rparr>)"
proof -
  let ?g = "guard_log (call_symbol c) (store_zero (transferred_pointer c) g)"
  have r: "null_result c = (case c of Close h \<Rightarrow> 0 | _ \<Rightarrow> - 4)"
    by (cases c) (simp_all add: LIBUSB_ERROR_NO_DEVICE_def)
  have g: "?g = g\<lparr>blocked_calls := blocked_calls g + 1,
      std_err := std_err g @ blocked_line c (blocked_calls g + 1),
      int_cells := (case transferred_pointer c of None \<Rightarrow> int_cells g | Some p \<Rightarrow> (int_cells g)(p := 0))\<rparr>"
    by (simp add: guard_log_eq store_zero_def split: option.split)
  have "is_transfer c \<Longrightarrow> fence_clear ld ?g" using assms(1) by (simp add: g fence_clear_def)
  then have "guard_call ld lib c g = (Returned (null_result c),
      if is_transfer c then ?g\<lparr>restart_on_disconnect := 1\<rparr> else ?g)"
    using assms(2) by (simp add: guard_call_eq clear_fence_passes)
  then show ?thesis
    unfolding r g by (intro exI [of _ "if is_transfer c then 1 else restart_on_disconnect g"]) simp
qed

text \<open>C24: with the fence on, the vendor's callback never learns of the departure of an adapter. Two
  callbacks that may differ arbitrarily on such events are told apart neither by a delivered event
  nor by a registration, during which libusb may deliver any number of events.\<close>

theorem detach_never_reaches_vendor:
  assumes "agree_but_detach lib vendor vendor'" and "keeps_fence ld vendor" and "fence_set ld g"
  shows "guarded_hotplug_dispatch ld lib vendor ctxt d e p g = guarded_hotplug_dispatch ld lib vendor' ctxt d e p g
    \<and> libusb_hotplug_register_callback ld lib vendor r g = libusb_hotplug_register_callback ld lib vendor' r g"
proof
  show "guarded_hotplug_dispatch ld lib vendor ctxt d e p g = guarded_hotplug_dispatch ld lib vendor' ctxt d e p g"
    using assms(3,1) by (rule dispatch_agree)
  show "libusb_hotplug_register_callback ld lib vendor r g = libusb_hotplug_register_callback ld lib vendor' r g"
  proof (cases rule: resolve_once_cases [of ld "''libusb_hotplug_register_callback''" g])
    case (1 g')
    with assms(3) have "fence_set ld g'" by simp
    then have "serve_register (\<lambda>ctxt d e. guarded_hotplug_dispatch ld lib vendor ctxt d e p) run (g'\<lparr>outside := w, blocks := b\<rparr>) =
        serve_register (\<lambda>ctxt d e. guarded_hotplug_dispatch ld lib vendor' ctxt d e p) run (g'\<lparr>outside := w, blocks := b\<rparr>)"
      for p run w b by (intro serve_agree [OF assms(1,2)]) simp
    with 1(1) show ?thesis
      by (simp add: libusb_hotplug_register_callback_def Let_def split: option.split prod.split)
  qed (simp add: libusb_hotplug_register_callback_def)
qed

definition sample_registration :: "nat registration" where
  "sample_registration = \<lparr>reg_context = None, reg_events = 3, reg_flags = 1, reg_vendor_id = 2316,
     reg_product_id = 1896, reg_device_class = - 1, reg_callback = Some 5, reg_user_data = 8, reg_handle = None\<rparr>"

theorem detach_never_reaches_vendor_witness:
  "libusb_hotplug_register_callback (sample_loader (Some ''1'')) (sample_real 0 0)
      (\<lambda>f ctxt d e u g. if e = 2 \<and> d = 10 then (Undefined, g) else (Returned 0, g)) sample_registration sample_guard
   = libusb_hotplug_register_callback (sample_loader (Some ''1'')) (sample_real 0 0)
      (\<lambda>f ctxt d e u g. (Returned 0, g)) sample_registration sample_guard"
proof (rule detach_never_reaches_vendor [THEN conjunct2])
  show "agree_but_detach (sample_real 0 0)
      (\<lambda>f ctxt d e u g. if e = 2 \<and> d = 10 then (Undefined, g) else (Returned 0, g))
      (\<lambda>f ctxt d e u g. (Returned 0, g))"
    by (simp add: agree_but_detach_def reads_as_adapter_def sample_real_def LIBUSB_HOTPLUG_EVENT_DEVICE_LEFT_def
        stub_view_def VENDOR_ID_def SM768_PRODUCT_ID_def)
  show "keeps_fence (sample_loader (Some ''1''))
      (\<lambda>f ctxt d e u g. if e = 2 \<and> d = 10 then (Undefined, g) else (Returned 0, g))"
    by (simp add: keeps_fence_def)
  show "fence_set (sample_loader (Some ''1'')) sample_guard"
    by (simp add: fence_set_def sample_guard_def fence_variable_def sample_loader_def)
qed

text \<open>A guarded registration. With the fence off, registering a callback delivers every event that
  libusb reports meanwhile to the vendor's callback with the vendor's own data, and returns the
  result of libusb. The block that later events need is in place after a success and freed after
  an error.\<close>

lemma registration_delivers:
  assumes "resolved g ''libusb_hotplug_register_callback''" and "restart_on_disconnect g = 1"
    and "reg_callback r = Some f" and "malloc ld (outside g) = (Some p, w)"
    and "keeps_block p vendor" and "keeps_fence_off vendor"
    and "serve_register (\<lambda>ctxt d e. vendor f ctxt d e (reg_user_data r))
        (real_libusb_hotplug_register_callback lib (with_callback (Some Guarded_Hotplug_Dispatch) p r) (int_cells g, w))
        (g\<lparr>outside := w, blocks := (blocks g)(p \<mapsto> \<lparr>callback = f, user_data = reg_user_data r\<rparr>)\<rparr>) = (x, g')"
  shows "case x of
      Returned result \<Rightarrow>
        if result = 0
        then libusb_hotplug_register_callback ld lib vendor r g = (Returned 0, g')
           \<and> blocks g' p = Some \<lparr>callback = f, user_data = reg_user_data r\<rparr>
        else libusb_hotplug_register_callback ld lib vendor r g =
               (Returned result, g'\<lparr>blocks := (blocks g')(p := None)\<rparr>)
    | Exited status \<Rightarrow> libusb_hotplug_register_callback ld lib vendor r g = (Exited status, g')
    | Undefined \<Rightarrow> False"
proof -
  let ?g = "g\<lparr>outside := w, blocks := (blocks g)(p \<mapsto> \<lparr>callback = f, user_data = reg_user_data r\<rparr>)\<rparr>"
  have "restart_on_disconnect ?g = 1" "blocks ?g p = Some \<lparr>callback = f, user_data = reg_user_data r\<rparr>"
    using assms(2) by simp_all
  note serve_passes [OF assms(5,6) this, of ld lib
      "real_libusb_hotplug_register_callback lib (with_callback (Some Guarded_Hotplug_Dispatch) p r) (int_cells g, w)"]
  then have "serve_register (\<lambda>ctxt d e. guarded_hotplug_dispatch ld lib vendor ctxt d e p)
        (real_libusb_hotplug_register_callback lib (with_callback (Some Guarded_Hotplug_Dispatch) p r) (int_cells g, w))
        ?g = (x, g')" and "x \<noteq> Undefined" "blocks g' p = Some \<lparr>callback = f, user_data = reg_user_data r\<rparr>"
    using assms(7) by simp_all
  then show ?thesis
    using assms(1,3,4)
    by (cases x) (simp_all add: libusb_hotplug_register_callback_def resolve_once_def LIBUSB_SUCCESS_def)
qed

lemma registration_delivers_sample:
  "\<exists>g'. libusb_hotplug_register_callback (sample_loader None) (sample_real 0 0)
      (\<lambda>f ctxt d e u g. (Returned 0, g\<lparr>int_cells := (int_cells g)(0 := int (f + d + u))\<rparr>))
      sample_registration (sample_guard\<lparr>restart_on_disconnect := 1, resolved := (\<lambda>symbol. True)\<rparr>)
    = (Returned 0, g') \<and> int_cells g' 0 = 23"
proof -
  let ?g = "sample_guard\<lparr>restart_on_disconnect := 1, resolved := (\<lambda>symbol. True)\<rparr>"
  let ?vendor = "\<lambda>f ctxt d e u g. (Returned 0 :: int run, g\<lparr>int_cells := (int_cells g)(0 := int (f + d + u))\<rparr>) :: int run \<times> nat guard"
  let ?block = "\<lparr>callback = 5, user_data = 8\<rparr>"
  let ?g' = "?g\<lparr>blocks := [64 \<mapsto> ?block], int_cells := (\<lambda>p. 7)(0 := 23), outside := 1\<rparr>"
  have vendor: "keeps_block 64 ?vendor" "keeps_fence_off ?vendor"
    by (simp_all add: keeps_block_def keeps_fence_off_def)
  have "serve_register (\<lambda>ctxt d e. ?vendor 5 ctxt d e (reg_user_data sample_registration))
      (real_libusb_hotplug_register_callback (sample_real 0 0)
        (with_callback (Some Guarded_Hotplug_Dispatch) 64 sample_registration) (int_cells ?g, 0))
      (?g\<lparr>outside := 0, blocks := (blocks ?g)(64 \<mapsto> \<lparr>callback = 5, user_data = reg_user_data sample_registration\<rparr>)\<rparr>)
      = (Returned 0, ?g')"
    by (simp add: sample_real_def sample_registration_def sample_guard_def)
  from registration_delivers [OF _ _ _ _ vendor this] show ?thesis
    by (simp add: sample_registration_def sample_loader_def sample_guard_def)
qed

text \<open>A message that does not fit in the buffer: the guard writes its first 255 characters and the
  terminating NUL, without the newline.\<close>

lemma long_linker_error_cut:
  assumes "dlsym_next ld symbol (outside g) = ((False, Some e), w)"
    and "s = ''smiusb-guard: cannot resolve '' @ symbol @ '': '' @ e @ newline"
    and "255 < length s" and "length s \<le> i32_max"
  shows "resolve_or_die ld symbol g =
    (Exited 127, g\<lparr>outside := w, std_err := std_err g @ take 255 s @ [CHR 0x00]\<rparr>)"
  using message_cut [OF assms(3,4)] assms(1,2) by (simp add: resolve_or_die_def write_stderr_def)

end
