(* ===== verification/Guard_Tests.thy ===== *)
theory Guard_Tests
  imports Transfer_Guard
begin

text \<open>
  The two test programs of the guard, \<open>src/tests/null_transfer_test.c\<close> and
  \<open>src/tests/restart_fence_test.c\<close>, run with the guard preloaded as \<open>meson.build\<close> does: their calls of
  libusb are the guarded ones. A local \<open>int\<close> whose address is passed lives in a cell of the guard's memory.
  \<open>libusb_error_text\<close>, \<open>fork\<close>, \<open>setenv\<close> and \<open>waitpid\<close> are parameters. The property: both programs end with
  status 0, so the guard does what its own tests demand, whatever libusb does with a NULL handle.
\<close>

section \<open>Model: calls on a missing device\<close>

definition print_stderr :: "string \<Rightarrow> 'w guard \<Rightarrow> 'w guard" where
  "print_stderr s g = g\<lparr>std_err := std_err g @ s\<rparr>"

definition expect_no_device :: "(int \<Rightarrow> string) \<Rightarrow> string \<Rightarrow> int \<Rightarrow> 'w guard \<Rightarrow> int \<times> 'w guard" where
  "expect_no_device error_text operation result g =
     (if result \<noteq> LIBUSB_ERROR_NO_DEVICE then
        (1, print_stderr (operation @ '' returned '' @ show_int result @ '' ('' @ error_text result
              @ ''), expected LIBUSB_ERROR_NO_DEVICE'' @ newline) g)
      else (0, g))"

text \<open>\<open>failures += expect_no_device(operation, call)\<close>.\<close>

definition expecting ::
  "(int \<Rightarrow> string) \<Rightarrow> string \<Rightarrow> ('w guard \<Rightarrow> int run \<times> 'w guard) \<Rightarrow> int \<Rightarrow> 'w guard \<Rightarrow> int run \<times> 'w guard" where
  "expecting error_text operation call failures g =
     and_next (call g) (\<lambda>result g.
       case expect_no_device error_text operation result g of (n, g) \<Rightarrow> (Returned (failures + n), g))"

text \<open>\<open>main\<close>, with the addresses of \<open>buffer\<close> and \<open>transferred\<close>; it returns the exit status.\<close>

definition null_transfer_test_main ::
  "'w loader \<Rightarrow> 'w real_libusb \<Rightarrow> (int \<Rightarrow> string) \<Rightarrow> nat \<Rightarrow> nat \<Rightarrow> 'w guard \<Rightarrow> int run \<times> 'w guard" where
  "null_transfer_test_main ld lib error_text buffer transferred g =
     (let g = g\<lparr>int_cells := (int_cells g)(transferred := - 1)\<rparr>; failures = 0 in
      and_next (expecting error_text ''bulk''
        (libusb_bulk_transfer ld lib None 0x02 (Some buffer) 8 (Some transferred) 10) failures g) (\<lambda>failures g.
      let (failures, g) =
        (if int_cells g transferred \<noteq> 0
         then (failures + 1, print_stderr (''bulk did not reset transferred to zero'' @ newline) g)
         else (failures, g)) in
      and_next (expecting error_text ''interrupt''
        (libusb_interrupt_transfer ld lib None 0x81 (Some buffer) 8 (Some transferred) 10) failures g) (\<lambda>failures g.
      and_next (expecting error_text ''control''
        (libusb_control_transfer ld lib None 0 0 0 0 (Some buffer) 8 10) failures g) (\<lambda>failures g.
      and_next (expecting error_text ''claim'' (libusb_claim_interface ld lib None 0) failures g) (\<lambda>failures g.
      and_next (expecting error_text ''release'' (libusb_release_interface ld lib None 0) failures g) (\<lambda>failures g.
      and_next (expecting error_text ''reset'' (libusb_reset_device ld lib None) failures g) (\<lambda>failures g.
      and_next (libusb_close ld lib None g) (\<lambda>_ g.
        (Returned (if failures = 0 then 0 else 1), g)))))))))"

section \<open>Model: the restart fence\<close>

text \<open>The system calls: the process id that \<open>fork\<close> gives the parent, the result of \<open>setenv\<close>, and what
  \<open>waitpid\<close> answers when the child ended as given, with the status as the number that \<open>%d\<close> prints; a
  status \<open>Exited n\<close> is one for which \<open>WIFEXITED\<close> holds and \<open>WEXITSTATUS\<close> is \<open>n\<close>. \<open>unix_perror\<close> is the
  text of \<open>perror\<close>. The two processes have separate copies of the guard's state.\<close>

record 'w unix =
  unix_fork :: "'w \<Rightarrow> int"
  unix_setenv :: "string \<Rightarrow> string \<Rightarrow> 'w \<Rightarrow> int \<times> 'w"
  unix_waitpid :: "int \<Rightarrow> int run \<Rightarrow> int \<times> int run \<times> int"
  unix_perror :: "string \<Rightarrow> string"

definition restart_fence_child ::
  "'w loader \<Rightarrow> 'w real_libusb \<Rightarrow> 'w unix \<Rightarrow> nat \<Rightarrow> nat \<Rightarrow> 'w guard \<Rightarrow> int run \<times> 'w guard" where
  "restart_fence_child ld lib sys buffer transferred g =
     (let g = g\<lparr>int_cells := (int_cells g)(transferred := - 1)\<rparr> in
      case unix_setenv sys ''SMIUSB_GUARD_RESTART_ON_DISCONNECT'' ''1'' (outside g) of (result, w) \<Rightarrow>
      let g = g\<lparr>outside := w\<rparr> in
      if result \<noteq> 0 then (Exited 90, g)
      else
        and_next (libusb_bulk_transfer ld lib None 0x02 (Some buffer) 8 (Some transferred) 10 g) (\<lambda>_ g.
          (Exited 91, g)))"

definition restart_fence_test_main ::
  "'w loader \<Rightarrow> 'w real_libusb \<Rightarrow> 'w unix \<Rightarrow> nat \<Rightarrow> nat \<Rightarrow> 'w guard \<Rightarrow> int \<times> 'w guard" where
  "restart_fence_test_main ld lib sys buffer transferred g =
     (let child = unix_fork sys (outside g) in
      if child < 0 then (1, print_stderr (unix_perror sys ''fork'') g)
      else
      case unix_waitpid sys child (fst (restart_fence_child ld lib sys buffer transferred g)) of
        (pid, status, number) \<Rightarrow>
          if pid \<noteq> child then (1, print_stderr (unix_perror sys ''waitpid'') g)
          else if status \<noteq> Exited 0 then
            (1, print_stderr (''restart fence child status='' @ show_int number
                  @ '', expected clean exit 0'' @ newline) g)
          else (0, g))"

section \<open>Lemmas\<close>

lemma guarded_calls:
  "libusb_bulk_transfer ld lib h e d l t n = guard_call ld lib (Bulk h e d l t n)"
  "libusb_interrupt_transfer ld lib h e d l t n = guard_call ld lib (Interrupt h e d l t n)"
  "libusb_control_transfer ld lib h y q v i d m n = guard_call ld lib (Control h y q v i d m n)"
  "libusb_claim_interface ld lib h k = guard_call ld lib (Claim h k)"
  "libusb_release_interface ld lib h k = guard_call ld lib (Release h k)"
  "libusb_reset_device ld lib h = guard_call ld lib (Reset h)"
  by (simp_all add: fun_eq_iff)

text \<open>One expectation on a NULL handle while the fence is off.\<close>

lemma expecting_null:
  assumes "fence_clear ld g" and "call_handle c = None" and "null_result c = LIBUSB_ERROR_NO_DEVICE"
  shows "\<exists>g'. expecting error_text operation (guard_call ld lib c) failures g = (Returned failures, g')
    \<and> fence_clear ld g' \<and> blocked_calls g' = blocked_calls g + 1 \<and> outside g' = outside g
    \<and> std_err g' = std_err g @ blocked_line c (blocked_calls g + 1)
    \<and> (\<forall>p. transferred_pointer c = Some p \<longrightarrow> int_cells g' p = 0)"
proof -
  let ?g = "guard_log (call_symbol c) (store_zero (transferred_pointer c) g)"
  have g: "blocked_calls ?g = blocked_calls g + 1" "outside ?g = outside g" "fence_clear ld ?g"
    "std_err ?g = std_err g @ blocked_line c (blocked_calls g + 1)"
    "restart_on_disconnect ?g = restart_on_disconnect g"
    "\<And>p. transferred_pointer c = Some p \<Longrightarrow> int_cells ?g p = 0"
    using assms(1) by (simp_all add: guard_log_eq store_zero_def fence_clear_def split: option.split)
  have "guard_call ld lib c g = (Returned LIBUSB_ERROR_NO_DEVICE,
      if is_transfer c then ?g\<lparr>restart_on_disconnect := 1\<rparr> else ?g)"
    using assms g(3) by (simp add: guard_call_eq clear_fence_passes)
  then show ?thesis
    using g by (simp add: expecting_def expect_no_device_def fence_clear_def)
qed

lemma null_transfer_test_passes:
  assumes "fence_clear ld g"
  shows "\<exists>g'. null_transfer_test_main ld lib error_text buffer transferred g = (Returned 0, g')
    \<and> blocked_calls g' = blocked_calls g + 7 \<and> outside g' = outside g"
proof -
  let ?g = "g\<lparr>int_cells := (int_cells g)(transferred := - 1)\<rparr>"
  have "fence_clear ld ?g" using assms by (simp add: fence_clear_def)
  from expecting_null [OF this, of "Bulk None 0x02 (Some buffer) 8 (Some transferred) 10"] obtain g1 where
    g1: "expecting error_text ''bulk'' (guard_call ld lib (Bulk None 0x02 (Some buffer) 8 (Some transferred) 10)) 0 ?g
      = (Returned 0, g1)" "fence_clear ld g1" "blocked_calls g1 = blocked_calls g + 1" "outside g1 = outside g"
      "int_cells g1 transferred = 0"
    by fastforce
  from expecting_null [OF g1(2), of "Interrupt None 0x81 (Some buffer) 8 (Some transferred) 10"] obtain g2 where
    g2: "expecting error_text ''interrupt''
        (guard_call ld lib (Interrupt None 0x81 (Some buffer) 8 (Some transferred) 10)) 0 g1 = (Returned 0, g2)"
      "fence_clear ld g2" "blocked_calls g2 = blocked_calls g + 2" "outside g2 = outside g"
    using g1(3,4) by fastforce
  from expecting_null [OF g2(2), of "Control None 0 0 0 0 (Some buffer) 8 10"] obtain g3 where
    g3: "expecting error_text ''control'' (guard_call ld lib (Control None 0 0 0 0 (Some buffer) 8 10)) 0 g2
      = (Returned 0, g3)" "fence_clear ld g3" "blocked_calls g3 = blocked_calls g + 3" "outside g3 = outside g"
    using g2(3,4) by fastforce
  from expecting_null [OF g3(2), of "Claim None 0"] obtain g4 where
    g4: "expecting error_text ''claim'' (guard_call ld lib (Claim None 0)) 0 g3 = (Returned 0, g4)"
      "fence_clear ld g4" "blocked_calls g4 = blocked_calls g + 4" "outside g4 = outside g"
    using g3(3,4) by fastforce
  from expecting_null [OF g4(2), of "Release None 0"] obtain g5 where
    g5: "expecting error_text ''release'' (guard_call ld lib (Release None 0)) 0 g4 = (Returned 0, g5)"
      "fence_clear ld g5" "blocked_calls g5 = blocked_calls g + 5" "outside g5 = outside g"
    using g4(3,4) by fastforce
  from expecting_null [OF g5(2), of "Reset None"] obtain g6 where
    g6: "expecting error_text ''reset'' (guard_call ld lib (Reset None)) 0 g5 = (Returned 0, g6)"
      "blocked_calls g6 = blocked_calls g + 6" "outside g6 = outside g"
    using g5(3,4) by fastforce
  have "blocked_calls (guard_log ''libusb_close'' g6) = blocked_calls g + 7"
    "outside (guard_log ''libusb_close'' g6) = outside g"
    using g6(2,3) guard_log_eq [of "Close None" g6] by simp_all
  then show ?thesis
    unfolding null_transfer_test_main_def guarded_calls
    by (simp add: g1 g2 g3 g4 g5 g6(1) libusb_close_def del: guard_call.simps)
qed

lemma restart_fence_child_exits:
  assumes "restart_on_disconnect g = 0"
    and "unix_setenv sys ''SMIUSB_GUARD_RESTART_ON_DISCONNECT'' ''1'' (outside g) = (0, w)"
    and "getenv ld ''SMIUSB_GUARD_RESTART_ON_DISCONNECT'' w = Some ''1''"
  shows "fst (restart_fence_child ld lib sys buffer transferred g) = Exited 0"
proof -
  have log: "outside (guard_log s g') = outside g'" "restart_on_disconnect (guard_log s g') = restart_on_disconnect g'"
    for s and g' :: "'a guard" by (simp_all add: guard_log_def write_stderr_def Let_def)
  show ?thesis
    using assms
    by (simp add: restart_fence_child_def libusb_bulk_transfer_def restart_after_usb_disconnect_def
        restart_fence_enabled_def fence_variable_def log store_zero_def controlled_restart_def Let_def)
qed

section \<open>Property\<close>

text \<open>C37: the guard passes its own tests. In a process whose environment leaves the fence off, the NULL
  transfer test ends with status 0 after seven blocked calls, and libusb was not entered. In a fresh
  process, when the system serves \<open>fork\<close>, \<open>setenv\<close> and \<open>waitpid\<close>, the child of the restart fence test
  is stopped by the guard with status 0 before it reaches its own exit, and the test ends with status 0.\<close>

theorem guard_tests_pass:
  assumes "fence_clear ld g" and "restart_on_disconnect g' = 0"
    and "unix_fork sys (outside g') = child" and "0 < child"
    and "unix_setenv sys ''SMIUSB_GUARD_RESTART_ON_DISCONNECT'' ''1'' (outside g') = (0, w)"
    and "getenv ld' ''SMIUSB_GUARD_RESTART_ON_DISCONNECT'' w = Some ''1''"
    and "\<And>status. \<exists>number. unix_waitpid sys child status = (child, status, number)"
  shows "(\<exists>g1. null_transfer_test_main ld lib error_text buffer transferred g = (Returned 0, g1)
      \<and> blocked_calls g1 = blocked_calls g + 7 \<and> outside g1 = outside g)
    \<and> restart_fence_test_main ld' lib' sys buffer transferred g' = (0, g')"
proof
  show "\<exists>g1. null_transfer_test_main ld lib error_text buffer transferred g = (Returned 0, g1)
      \<and> blocked_calls g1 = blocked_calls g + 7 \<and> outside g1 = outside g"
    by (rule null_transfer_test_passes [OF assms(1)])
  have "fst (restart_fence_child ld' lib' sys buffer transferred g') = Exited 0"
    by (rule restart_fence_child_exits [OF assms(2,5,6)])
  moreover obtain number where "unix_waitpid sys child (Exited 0) = (child, Exited 0, number)"
    using assms(7) by blast
  ultimately show "restart_fence_test_main ld' lib' sys buffer transferred g' = (0, g')"
    using assms(3,4) by (simp add: restart_fence_test_main_def)
qed

text \<open>A system whose world is the environment variable, and a fresh guard in it.\<close>

definition sample_unix :: "string option unix" where
  "sample_unix = \<lparr>unix_fork = (\<lambda>w. 4711), unix_setenv = (\<lambda>name v w. (0, Some v)),
     unix_waitpid = (\<lambda>pid status. (pid, status, 0)), unix_perror = (\<lambda>s. s)\<rparr>"

definition sample_environment :: "string option loader" where
  "sample_environment = \<lparr>getenv = (\<lambda>name w. w), dlsym_next = (\<lambda>symbol w. ((True, None), w)),
     malloc = (\<lambda>w. (None, w))\<rparr>"

definition fresh_guard :: "string option guard" where
  "fresh_guard = \<lparr>blocked_calls = 0, restart_on_disconnect = 0, resolved = (\<lambda>symbol. False),
     blocks = Map.empty, std_err = [], int_cells = (\<lambda>p. 7), outside = None\<rparr>"

theorem guard_tests_pass_witness:
  "fst (null_transfer_test_main (sample_loader None) (sample_real 5 0) (\<lambda>n. []) 8 16 sample_guard) = Returned 0
   \<and> (\<forall>lib. restart_fence_test_main sample_environment lib sample_unix 8 16 fresh_guard = (0, fresh_guard))"
proof -
  have "fence_clear (sample_loader None) sample_guard"
    by (simp add: fence_clear_def sample_guard_def sample_loader_def fence_variable_def)
  then have "(\<exists>g1. null_transfer_test_main (sample_loader None) (sample_real 5 0) (\<lambda>n. []) 8 16 sample_guard
        = (Returned 0, g1) \<and> blocked_calls g1 = blocked_calls sample_guard + 7 \<and> outside g1 = outside sample_guard)
      \<and> restart_fence_test_main sample_environment lib sample_unix 8 16 fresh_guard = (0, fresh_guard)" for lib
    by (rule guard_tests_pass [where child = 4711 and w = "Some ''1''"])
      (simp_all add: sample_unix_def sample_environment_def fresh_guard_def)
  then show ?thesis by force
qed

end
