(* ===== verification/C_Layout.thy ===== *)
theory C_Layout
  imports Usb_Devices Wire
begin

text \<open>
  The layout of C structures, and what it is used for: the packed structures of
  \<open>src/include/smiusb/protocol.h\<close> with their static assertions, the test
  \<open>src/tests/protocol_layout_test.c\<close>, and the test of \<open>rust/src/usb.rs\<close> that the Rust copy of libusb's
  descriptor has the layout of the C one. A type is described by its fields; size, alignment and
  offsets follow the rules of the C ABI on the supported targets, where an integer is aligned to its
  size. The lemmas show that the fields of a structure never overlap, and that the C header and the
  Rust program describe the same packets.
\<close>

section \<open>Model: sizes, alignments and offsets\<close>

datatype c_type = Uint8 | Uint16 | Uint32 | Array nat c_type | Struct "c_type list" | Packed "c_type list"

text \<open>The padding that brings an offset to a multiple of an alignment.\<close>

definition align_up :: "nat \<Rightarrow> nat \<Rightarrow> nat" where
  "align_up a n = n + (a - n mod a) mod a"

fun alignof :: "c_type \<Rightarrow> nat" where
  "alignof Uint8 = 1"
| "alignof Uint16 = 2"
| "alignof Uint32 = 4"
| "alignof (Array n t) = alignof t"
| "alignof (Struct ts) = foldr (\<lambda>t. max (alignof t)) ts 1"
| "alignof (Packed ts) = 1"

text \<open>The offset behind a sequence of fields of given sizes and alignments.\<close>

fun place :: "nat \<Rightarrow> (nat \<times> nat) list \<Rightarrow> nat" where
  "place n [] = n"
| "place n ((extent, alignment) # fs) = place (align_up alignment n + extent) fs"

fun sizeof :: "c_type \<Rightarrow> nat" where
  "sizeof Uint8 = 1"
| "sizeof Uint16 = 2"
| "sizeof Uint32 = 4"
| "sizeof (Array n t) = n * sizeof t"
| "sizeof (Struct ts) = align_up (alignof (Struct ts)) (place 0 (map (\<lambda>t. (sizeof t, alignof t)) ts))"
| "sizeof (Packed ts) = sum_list (map sizeof ts)"

text \<open>The offsets of the fields, from the offset where the first may start.\<close>

fun offsets :: "nat \<Rightarrow> c_type list \<Rightarrow> nat list" where
  "offsets n [] = []"
| "offsets n (t # ts) = (let at = align_up (alignof t) n in at # offsets (at + sizeof t) ts)"

section \<open>Model: the protocol header\<close>

definition SMIUSB_VENDOR_ID :: u16 where "SMIUSB_VENDOR_ID = 0x090c"
definition SMIUSB_SM768_PRODUCT_ID :: u16 where "SMIUSB_SM768_PRODUCT_ID = 0x0768"
definition SMIUSB_WIRE_MAGIC_SIZE :: nat where "SMIUSB_WIRE_MAGIC_SIZE = 12"
definition SMIUSB_SM768_HEADER_SIZE :: nat where "SMIUSB_SM768_HEADER_SIZE = 48"
definition SMIUSB_SM768_JPEG_DECODER_HEADER_SIZE :: nat where "SMIUSB_SM768_JPEG_DECODER_HEADER_SIZE = 0x5000"
definition SMIUSB_SM768_CAPABILITIES_RESPONSE :: u8 where "SMIUSB_SM768_CAPABILITIES_RESPONSE = 0x65"
definition SMIUSB_SM768_OBSERVED_BULK_OUT_ENDPOINT :: u8 where
  "SMIUSB_SM768_OBSERVED_BULK_OUT_ENDPOINT = 0x02"
definition SMIUSB_SM768_OBSERVED_INTERRUPT_IN_ENDPOINT :: u8 where
  "SMIUSB_SM768_OBSERVED_INTERRUPT_IN_ENDPOINT = 0x81"
definition SMIUSB_SM768_OBSERVED_HEARTBEAT_SIZE :: nat where "SMIUSB_SM768_OBSERVED_HEARTBEAT_SIZE = 44"
definition SMIUSB_SM768_OBSERVED_INTERRUPT_READ_SIZE :: nat where
  "SMIUSB_SM768_OBSERVED_INTERRUPT_READ_SIZE = 1024"
definition SMIUSB_WIRE_MAGIC :: bytes where "SMIUSB_WIRE_MAGIC = ascii ''smifalconsta''"

record smiusb_wire_prefix =
  magic :: bytes
  packet_word_le :: u32

record smiusb_sm768_header =
  prefix :: smiusb_wire_prefix
  packet_specific :: bytes

definition smiusb_wire_prefix_type :: c_type where
  "smiusb_wire_prefix_type = Packed [Array SMIUSB_WIRE_MAGIC_SIZE Uint8, Uint32]"

definition smiusb_sm768_header_type :: c_type where
  "smiusb_sm768_header_type =
     Packed [smiusb_wire_prefix_type,
             Array (SMIUSB_SM768_HEADER_SIZE - sizeof smiusb_wire_prefix_type) Uint8]"

definition static_assertions :: bool where
  "static_assertions \<longleftrightarrow>
     sizeof smiusb_wire_prefix_type = 16 \<and> sizeof smiusb_sm768_header_type = SMIUSB_SM768_HEADER_SIZE"

text \<open>The objects in memory, on a little-endian machine; a header has arrays of the declared lengths.\<close>

definition prefix_bytes :: "smiusb_wire_prefix \<Rightarrow> bytes" where
  "prefix_bytes p = magic p @ to_le_bytes 4 (packet_word_le p)"

definition header_bytes :: "smiusb_sm768_header \<Rightarrow> bytes" where
  "header_bytes h = prefix_bytes (prefix h) @ packet_specific h"

definition wf_header :: "smiusb_sm768_header \<Rightarrow> bool" where
  "wf_header h \<longleftrightarrow>
     length (magic (prefix h)) = SMIUSB_WIRE_MAGIC_SIZE
     \<and> length (packet_specific h) = SMIUSB_SM768_HEADER_SIZE - sizeof smiusb_wire_prefix_type"

section \<open>Model: the layout tests\<close>

text \<open>\<open>main\<close> of the layout test: its exit status. \<open>memcpy\<close> overwrites the start of the array.\<close>

definition zero_header :: smiusb_sm768_header where
  "zero_header = \<lparr>prefix = \<lparr>magic = replicate SMIUSB_WIRE_MAGIC_SIZE 0, packet_word_le = 0\<rparr>,
     packet_specific = replicate (SMIUSB_SM768_HEADER_SIZE - sizeof smiusb_wire_prefix_type) 0\<rparr>"

definition protocol_layout_test_main :: int where
  "protocol_layout_test_main =
     (let header = zero_header;
          filled = take SMIUSB_WIRE_MAGIC_SIZE SMIUSB_WIRE_MAGIC
                   @ drop SMIUSB_WIRE_MAGIC_SIZE (magic (prefix header));
          header = header\<lparr>prefix := (prefix header)\<lparr>magic := filled\<rparr>\<rparr> in
      if take SMIUSB_WIRE_MAGIC_SIZE (magic (prefix header)) \<noteq> take SMIUSB_WIRE_MAGIC_SIZE (ascii ''smifalconsta'')
      then 1
      else if sizeof smiusb_sm768_header_type \<noteq> SMIUSB_SM768_HEADER_SIZE then 1
      else 0)"

text \<open>The fields of \<open>LibusbDeviceDescriptor\<close>, declared \<open>repr(C)\<close>.\<close>

definition LibusbDeviceDescriptor_type :: c_type where
  "LibusbDeviceDescriptor_type =
     Struct [Uint8, Uint8, Uint16, Uint8, Uint8, Uint8, Uint8, Uint16, Uint16, Uint16, Uint8, Uint8, Uint8, Uint8]"

definition descriptor_matches_libusb_abi :: bool where
  "descriptor_matches_libusb_abi \<longleftrightarrow>
     sizeof LibusbDeviceDescriptor_type = 18 \<and> alignof LibusbDeviceDescriptor_type = 2"

section \<open>Lemmas: layouts\<close>

lemma align_up_ge: "n \<le> align_up a n"
  by (simp add: align_up_def)

lemma align_up_dvd:
  assumes "0 < a"
  shows "a dvd align_up a n"
proof (cases "n mod a = 0")
  case True
  then show ?thesis by (simp add: align_up_def mod_eq_0_iff_dvd)
next
  case False
  then have "(a - n mod a) mod a = a - n mod a" using assms by simp
  moreover have "n + (a - n mod a) = a * (n div a) + a"
    using mod_less_divisor [OF assms, of n] mult_div_mod_eq [of a n] by linarith
  ultimately show ?thesis by (simp add: align_up_def)
qed

lemma align_up_less: "0 < a \<Longrightarrow> align_up a n < n + a"
  by (simp add: align_up_def)

lemma alignof_pos: "0 < alignof t"
proof (induction t)
  case (Struct ts)
  show ?case by (induction ts) auto
qed auto

text \<open>The fields of a structure are aligned, follow each other without overlap, and end where the
  next may start.\<close>

fun fields_disjoint :: "nat \<Rightarrow> nat list \<Rightarrow> c_type list \<Rightarrow> nat \<Rightarrow> bool" where
  "fields_disjoint n [] [] end \<longleftrightarrow> n \<le> end"
| "fields_disjoint n (at # ats) (t # ts) end \<longleftrightarrow>
     n \<le> at \<and> alignof t dvd at \<and> fields_disjoint (at + sizeof t) ats ts end"
| "fields_disjoint n _ _ end \<longleftrightarrow> False"

lemma offsets_disjoint:
  "fields_disjoint n (offsets n ts) ts (place n (map (\<lambda>t. (sizeof t, alignof t)) ts))"
  by (induction n ts rule: offsets.induct) (auto simp: Let_def align_up_ge align_up_dvd alignof_pos)

lemma fields_disjoint_mono: "fields_disjoint n ats ts e \<Longrightarrow> e \<le> e' \<Longrightarrow> fields_disjoint n ats ts e'"
  by (induction n ats ts e rule: fields_disjoint.induct) auto

lemma struct_layout:
  "fields_disjoint 0 (offsets 0 ts) ts (sizeof (Struct ts)) \<and> alignof (Struct ts) dvd sizeof (Struct ts)"
proof
  show "fields_disjoint 0 (offsets 0 ts) ts (sizeof (Struct ts))"
    by (rule fields_disjoint_mono [OF offsets_disjoint]) (simp add: align_up_ge)
  show "alignof (Struct ts) dvd sizeof (Struct ts)"
    unfolding sizeof.simps by (rule align_up_dvd [OF alignof_pos])
qed

lemma layout_tests_pass:
  "descriptor_matches_libusb_abi" "static_assertions" "protocol_layout_test_main = 0"
proof -
  show "descriptor_matches_libusb_abi"
    by code_simp
  have "sizeof smiusb_wire_prefix_type = 16" "sizeof smiusb_sm768_header_type = 48"
    by (simp_all add: smiusb_wire_prefix_type_def smiusb_sm768_header_type_def SMIUSB_WIRE_MAGIC_SIZE_def
        SMIUSB_SM768_HEADER_SIZE_def)
  then show "static_assertions" "protocol_layout_test_main = 0"
    by (simp_all add: static_assertions_def protocol_layout_test_main_def SMIUSB_SM768_HEADER_SIZE_def
        SMIUSB_WIRE_MAGIC_def zero_header_def SMIUSB_WIRE_MAGIC_SIZE_def ascii_def)
qed

text \<open>The descriptor's fields stand at the offsets of libusb's structure, with no padding at all.\<close>

lemma descriptor_offsets:
  "offsets 0 [Uint8, Uint8, Uint16, Uint8, Uint8, Uint8, Uint8, Uint16, Uint16, Uint16, Uint8, Uint8, Uint8, Uint8]
     = [0, 1, 2, 4, 5, 6, 7, 8, 10, 12, 14, 15, 16, 17]"
  by code_simp

section \<open>Lemmas: the header and the packets\<close>

lemma length_header_bytes: "wf_header h \<Longrightarrow> length (header_bytes h) = 48"
  by (simp add: wf_header_def header_bytes_def prefix_bytes_def smiusb_wire_prefix_type_def
      SMIUSB_WIRE_MAGIC_SIZE_def SMIUSB_SM768_HEADER_SIZE_def)

section \<open>Property\<close>

text \<open>C36: the C header and the Rust program describe the same packets. The constants of the two agree,
  the packed structures have the asserted sizes, and for the memory of any \<open>smiusb_sm768_header\<close> at the
  start of a packet the Rust header parser succeeds exactly when its magic is the one of the header
  file, and then reads the word behind the magic as \<open>packet_word_le\<close> and the others from
  \<open>packet_specific\<close>.\<close>

theorem c_header_agrees:
  assumes "wf_header h"
  shows "static_assertions
    \<and> SMIUSB_VENDOR_ID = VENDOR_ID \<and> SMIUSB_SM768_PRODUCT_ID = SM768_PRODUCT_ID
    \<and> SMIUSB_WIRE_MAGIC = WIRE_MAGIC \<and> SMIUSB_SM768_HEADER_SIZE = HEADER_SIZE
    \<and> SMIUSB_SM768_JPEG_DECODER_HEADER_SIZE = JPEG_DECODER_METADATA_SIZE
    \<and> SMIUSB_SM768_CAPABILITIES_RESPONSE = CAPABILITIES_OPCODE
    \<and> SMIUSB_SM768_OBSERVED_BULK_OUT_ENDPOINT = BULK_OUT_ENDPOINT
    \<and> SMIUSB_SM768_OBSERVED_INTERRUPT_IN_ENDPOINT = INTERRUPT_IN_ENDPOINT
    \<and> SMIUSB_SM768_OBSERVED_HEARTBEAT_SIZE = HEARTBEAT_SIZE
    \<and> SMIUSB_SM768_OBSERVED_INTERRUPT_READ_SIZE = FRAME_ACK_SIZE
    \<and> length (header_bytes h) = sizeof smiusb_sm768_header_type
    \<and> parse_header (header_bytes h @ payload) =
        (if magic (prefix h) = SMIUSB_WIRE_MAGIC
         then Ok \<lparr>word12 = packet_word_le (prefix h), word16 = from_le_bytes (take 4 (packet_specific h)),
                  byte20 = packet_specific h ! 4\<rparr>
         else Err BadMagic)"
proof (intro conjI)
  show "static_assertions" by (rule layout_tests_pass)
  show "length (header_bytes h) = sizeof smiusb_sm768_header_type"
    using assms layout_tests_pass(2)
    by (simp add: length_header_bytes static_assertions_def SMIUSB_SM768_HEADER_SIZE_def)
  have len: "length (magic (prefix h)) = 12" "length (packet_specific h) = 32"
    using assms by (simp_all add: wf_header_def smiusb_wire_prefix_type_def SMIUSB_WIRE_MAGIC_SIZE_def
        SMIUSB_SM768_HEADER_SIZE_def)
  then show "parse_header (header_bytes h @ payload) =
      (if magic (prefix h) = SMIUSB_WIRE_MAGIC
       then Ok \<lparr>word12 = packet_word_le (prefix h), word16 = from_le_bytes (take 4 (packet_specific h)),
                byte20 = packet_specific h ! 4\<rparr>
       else Err BadMagic)"
    using assms
    by (simp add: parse_header_eq length_header_bytes)
      (simp add: header_bytes_def prefix_bytes_def u32_le.dec_enc nth_append SMIUSB_WIRE_MAGIC_def WIRE_MAGIC_def)
qed (simp_all add: SMIUSB_VENDOR_ID_def SMIUSB_SM768_PRODUCT_ID_def SMIUSB_WIRE_MAGIC_def WIRE_MAGIC_def const_simps SMIUSB_SM768_HEADER_SIZE_def
    SMIUSB_SM768_JPEG_DECODER_HEADER_SIZE_def SMIUSB_SM768_CAPABILITIES_RESPONSE_def
    SMIUSB_SM768_OBSERVED_BULK_OUT_ENDPOINT_def SMIUSB_SM768_OBSERVED_INTERRUPT_IN_ENDPOINT_def
    SMIUSB_SM768_OBSERVED_HEARTBEAT_SIZE_def SMIUSB_SM768_OBSERVED_INTERRUPT_READ_SIZE_def)

theorem c_header_agrees_witness: "parse_header (header_bytes zero_header @ []) = Err BadMagic"
proof -
  have "wf_header zero_header" by (simp add: wf_header_def zero_header_def)
  moreover have "magic (prefix zero_header) \<noteq> SMIUSB_WIRE_MAGIC" by code_simp
  ultimately show ?thesis using c_header_agrees [of zero_header "[]"] by simp
qed

end
