(* ===== verification/Session_Manager.thy ===== *)
theory Session_Manager
  imports C_Runtime C_Layout "HOL-Library.Multiset"
begin

text \<open>
  The session manager of the C++ daemon, \<open>src/src/daemon/smiusbd.cpp\<close>: hotplug callbacks put events in
  a queue, a worker thread takes them out, opens and closes devices, and ends after \<open>stop\<close>. The
  operations are functions on the members of the class; what libusb answers to the worker is an
  argument. The threads are a step relation over the mutex, the condition variable, the program
  counters of the worker and of any number of client threads.

  Every call of libusb is recorded in order, so that the reference counts of devices and the
  lifetime of handles can be read off the record.
\<close>

section \<open>Model: the members and their operations\<close>

record UsbEvent =
  event_device :: nat
  event_kind :: int

record DeviceSession =
  session_device :: nat
  session_handle :: "nat option"
  session_generation :: u64

datatype lib_call =
    Ref_Device nat
  | Unref_Device nat
  | Get_Descriptor nat
  | Get_Bus_Number nat
  | Get_Device_Address nat
  | Open_Device nat int "nat option"
  | Close_Handle nat

record answers =
  answer_descriptor :: "int \<times> LibusbDeviceDescriptor"
  answer_open :: "int \<times> nat option"
  answer_bus :: u8
  answer_address :: u8
  answer_error :: string

record SessionManager =
  m_queue :: "UsbEvent list"
  m_sessions :: "(nat, DeviceSession) btree"
  m_stopping :: bool
  m_generation :: u64
  m_calls :: "lib_call list"
  m_lines :: "string list"

definition new_manager :: SessionManager where
  "new_manager = \<lparr>m_queue = [], m_sessions = [], m_stopping = False, m_generation = 0,
     m_calls = [], m_lines = []\<rparr>"

definition record_calls :: "lib_call list \<Rightarrow> SessionManager \<Rightarrow> SessionManager" where
  "record_calls cs m = m\<lparr>m_calls := m_calls m @ cs\<rparr>"

definition print_line :: "string \<Rightarrow> SessionManager \<Rightarrow> SessionManager" where
  "print_line s m = m\<lparr>m_lines := m_lines m @ [s]\<rparr>"

text \<open>The destructor of a session.\<close>

definition destroy_session :: "DeviceSession \<Rightarrow> SessionManager \<Rightarrow> SessionManager" where
  "destroy_session s m =
     record_calls [Unref_Device (session_device s)]
       (case session_handle s of None \<Rightarrow> m | Some h \<Rightarrow> record_calls [Close_Handle h] m)"

text \<open>The critical section of \<open>enqueue\<close>, and whether it goes on to notify the worker.\<close>

definition enqueue_locked :: "nat \<Rightarrow> int \<Rightarrow> SessionManager \<Rightarrow> bool \<times> SessionManager" where
  "enqueue_locked device event m =
     (if m_stopping m then (False, record_calls [Unref_Device device] m)
      else (True, m\<lparr>m_queue := m_queue m @ [\<lparr>event_device = device, event_kind = event\<rparr>]\<rparr>))"

text \<open>The critical section of \<open>stop\<close>, and whether it goes on.\<close>

definition stop_locked :: "SessionManager \<Rightarrow> bool \<times> SessionManager" where
  "stop_locked m = (if m_stopping m then (False, m) else (True, m\<lparr>m_stopping := True\<rparr>))"

definition is_target_device :: "answers \<Rightarrow> bool" where
  "is_target_device ans \<longleftrightarrow>
     fst (answer_descriptor ans) = LIBUSB_SUCCESS
     \<and> id_vendor (snd (answer_descriptor ans)) = SMIUSB_VENDOR_ID
     \<and> id_product (snd (answer_descriptor ans)) = SMIUSB_SM768_PRODUCT_ID"

definition map_emplace :: "nat \<Rightarrow> 'v \<Rightarrow> (nat, 'v) btree \<Rightarrow> (nat, 'v) btree" where
  "map_emplace k v m = (if contains_key m k then m else btree_insert k v m)"

definition map_erase :: "nat \<Rightarrow> (nat, 'v) btree \<Rightarrow> (nat, 'v) btree" where
  "map_erase k m = filter (\<lambda>(k', v). k' \<noteq> k) m"

definition handle_arrival :: "answers \<Rightarrow> nat \<Rightarrow> SessionManager \<Rightarrow> SessionManager" where
  "handle_arrival ans device m =
     (let m = record_calls [Get_Descriptor device] m in
      if \<not> is_target_device ans \<or> contains_key (m_sessions m) device then m
      else case answer_open ans of (result, handle) \<Rightarrow>
        let m = record_calls [Open_Device device result handle] m in
        if result \<noteq> LIBUSB_SUCCESS then
          print_line (''smiusbd: open failed for bus='' @ show_u8 (answer_bus ans) @ '' address=''
              @ show_u8 (answer_address ans) @ '': '' @ answer_error ans)
            (record_calls [Get_Bus_Number device, Get_Device_Address device] m)
        else
          let m = record_calls [Ref_Device device] m;
              generation = m_generation m + 1;
              session = \<lparr>session_device = device, session_handle = handle, session_generation = generation\<rparr>;
              m = print_line (''smiusbd: generation='' @ show_u64 generation @ '' arrived bus=''
                    @ show_u8 (answer_bus ans) @ '' address='' @ show_u8 (answer_address ans)
                    @ '' (observe-only; no interface claimed)'')
                  (record_calls [Get_Bus_Number device, Get_Device_Address device]
                    (m\<lparr>m_generation := generation\<rparr>))
          in m\<lparr>m_sessions := map_emplace device session (m_sessions m)\<rparr>)"

definition handle_departure :: "nat \<Rightarrow> SessionManager \<Rightarrow> SessionManager" where
  "handle_departure device m =
     (case map_of (m_sessions m) device of
        None \<Rightarrow> m
      | Some session \<Rightarrow>
          destroy_session session
            (print_line (''smiusbd: generation='' @ show_u64 (session_generation session)
                @ '' departed; closing on worker thread'')
              (m\<lparr>m_sessions := map_erase device (m_sessions m)\<rparr>)))"

definition handle_event :: "answers \<Rightarrow> UsbEvent \<Rightarrow> SessionManager \<Rightarrow> SessionManager" where
  "handle_event ans e m =
     (if event_kind e = LIBUSB_HOTPLUG_EVENT_DEVICE_ARRIVED then handle_arrival ans (event_device e) m
      else handle_departure (event_device e) m)"

text \<open>What the worker does after its loop: drop the queue, then \<open>sessions_.clear()\<close>.\<close>

definition worker_cleanup :: "SessionManager \<Rightarrow> SessionManager" where
  "worker_cleanup m =
     (let m = record_calls (map (\<lambda>e. Unref_Device (event_device e)) (m_queue m)) m;
          m = m\<lparr>m_queue := []\<rparr>
      in (fold (\<lambda>(k, s). destroy_session s) (m_sessions m) m)\<lparr>m_sessions := []\<rparr>)"

section \<open>Model: the threads\<close>

datatype manager_call = Enqueue nat int | Stop

text \<open>Where a client is: between calls, waiting for the mutex in \<open>enqueue\<close> or \<open>stop\<close>, in the critical
  section, about to notify, or joining the worker.\<close>

datatype client_pc =
    Ready
  | Enqueue_Locking nat int
  | Enqueue_Locked nat int
  | Enqueue_Notifying
  | Stop_Locking
  | Stop_Locked
  | Stop_Notifying
  | Joining

record client =
  at_pc :: client_pc
  todo :: "manager_call list"

text \<open>Where the worker is: acquiring the mutex, deciding under it, asleep on the condition variable,
  handling an event, about to drop the event's reference, past its loop, or finished.\<close>

datatype worker_pc =
    Acquiring
  | Deciding
  | Sleeping
  | Handling UsbEvent
  | Dropping UsbEvent
  | Cleaning
  | Finished

datatype actor = Worker | Client nat | Spurious_Wakeup

text \<open>\<open>accepted\<close> and \<open>handled\<close> record the events put in the queue and those the worker handled.\<close>

record daemon =
  manager :: SessionManager
  mutex :: "actor option"
  worker :: worker_pc
  clients :: "nat \<Rightarrow> client"
  accepted :: "UsbEvent list"
  handled :: "UsbEvent list"

definition initial_daemon :: "(nat \<Rightarrow> manager_call list) \<Rightarrow> daemon" where
  "initial_daemon programs = \<lparr>manager = new_manager, mutex = None, worker = Acquiring,
     clients = (\<lambda>i. \<lparr>at_pc = Ready, todo = programs i\<rparr>), accepted = [], handled = []\<rparr>"

definition move :: "nat \<Rightarrow> client_pc \<Rightarrow> daemon \<Rightarrow> daemon" where
  "move i pc c = c\<lparr>clients := (clients c)(i := (clients c i)\<lparr>at_pc := pc\<rparr>)\<rparr>"

text \<open>\<open>notify_one\<close>: the worker is the only thread that waits.\<close>

definition notify_one :: "daemon \<Rightarrow> daemon" where
  "notify_one c = (if worker c = Sleeping then c\<lparr>worker := Acquiring\<rparr> else c)"

inductive daemon_step :: "nat \<Rightarrow> actor \<Rightarrow> daemon \<Rightarrow> daemon \<Rightarrow> bool" for n where
  call_enqueue: "i < n \<Longrightarrow> clients c i = \<lparr>at_pc = Ready, todo = Enqueue d e # rest\<rparr> \<Longrightarrow>
    daemon_step n (Client i) c
      (c\<lparr>manager := record_calls [Ref_Device d] (manager c),
         clients := (clients c)(i := \<lparr>at_pc = Enqueue_Locking d e, todo = rest\<rparr>)\<rparr>)"
| call_stop: "i < n \<Longrightarrow> clients c i = \<lparr>at_pc = Ready, todo = Stop # rest\<rparr> \<Longrightarrow>
    daemon_step n (Client i) c (c\<lparr>clients := (clients c)(i := \<lparr>at_pc = Stop_Locking, todo = rest\<rparr>)\<rparr>)"
| enqueue_lock: "i < n \<Longrightarrow> at_pc (clients c i) = Enqueue_Locking d e \<Longrightarrow> mutex c = None \<Longrightarrow>
    daemon_step n (Client i) c (move i (Enqueue_Locked d e) (c\<lparr>mutex := Some (Client i)\<rparr>))"
| enqueue_accept: "i < n \<Longrightarrow> at_pc (clients c i) = Enqueue_Locked d e \<Longrightarrow>
    enqueue_locked d e (manager c) = (True, m) \<Longrightarrow>
    daemon_step n (Client i) c (move i Enqueue_Notifying
      (c\<lparr>manager := m, mutex := None, accepted := accepted c @ [\<lparr>event_device = d, event_kind = e\<rparr>]\<rparr>))"
| enqueue_refuse: "i < n \<Longrightarrow> at_pc (clients c i) = Enqueue_Locked d e \<Longrightarrow>
    enqueue_locked d e (manager c) = (False, m) \<Longrightarrow>
    daemon_step n (Client i) c (move i Ready (c\<lparr>manager := m, mutex := None\<rparr>))"
| enqueue_notify: "i < n \<Longrightarrow> at_pc (clients c i) = Enqueue_Notifying \<Longrightarrow>
    daemon_step n (Client i) c (move i Ready (notify_one c))"
| stop_lock: "i < n \<Longrightarrow> at_pc (clients c i) = Stop_Locking \<Longrightarrow> mutex c = None \<Longrightarrow>
    daemon_step n (Client i) c (move i Stop_Locked (c\<lparr>mutex := Some (Client i)\<rparr>))"
| stop_first: "i < n \<Longrightarrow> at_pc (clients c i) = Stop_Locked \<Longrightarrow> stop_locked (manager c) = (True, m) \<Longrightarrow>
    daemon_step n (Client i) c (move i Stop_Notifying (c\<lparr>manager := m, mutex := None\<rparr>))"
| stop_again: "i < n \<Longrightarrow> at_pc (clients c i) = Stop_Locked \<Longrightarrow> stop_locked (manager c) = (False, m) \<Longrightarrow>
    daemon_step n (Client i) c (move i Ready (c\<lparr>manager := m, mutex := None\<rparr>))"
| stop_notify: "i < n \<Longrightarrow> at_pc (clients c i) = Stop_Notifying \<Longrightarrow>
    daemon_step n (Client i) c (move i Joining (notify_one c))"
| stop_join: "i < n \<Longrightarrow> at_pc (clients c i) = Joining \<Longrightarrow> worker c = Finished \<Longrightarrow>
    daemon_step n (Client i) c (move i Ready c)"
| worker_lock: "worker c = Acquiring \<Longrightarrow> mutex c = None \<Longrightarrow>
    daemon_step n Worker c (c\<lparr>worker := Deciding, mutex := Some Worker\<rparr>)"
| worker_wait: "worker c = Deciding \<Longrightarrow> m_queue (manager c) = [] \<Longrightarrow> \<not> m_stopping (manager c) \<Longrightarrow>
    daemon_step n Worker c (c\<lparr>worker := Sleeping, mutex := None\<rparr>)"
| worker_wakes: "worker c = Sleeping \<Longrightarrow> daemon_step n Spurious_Wakeup c (c\<lparr>worker := Acquiring\<rparr>)"
| worker_break: "worker c = Deciding \<Longrightarrow> m_queue (manager c) = [] \<Longrightarrow> m_stopping (manager c) \<Longrightarrow>
    daemon_step n Worker c (c\<lparr>worker := Cleaning, mutex := None\<rparr>)"
| worker_take: "worker c = Deciding \<Longrightarrow> m_queue (manager c) = e # q \<Longrightarrow>
    daemon_step n Worker c
      (c\<lparr>worker := Handling e, mutex := None, manager := (manager c)\<lparr>m_queue := q\<rparr>\<rparr>)"
| worker_handle: "worker c = Handling e \<Longrightarrow>
    daemon_step n Worker c
      (c\<lparr>worker := Dropping e, manager := handle_event ans e (manager c), handled := handled c @ [e]\<rparr>)"
| worker_drop: "worker c = Dropping e \<Longrightarrow>
    daemon_step n Worker c
      (c\<lparr>worker := Acquiring, manager := record_calls [Unref_Device (event_device e)] (manager c)\<rparr>)"
| worker_clean: "worker c = Cleaning \<Longrightarrow>
    daemon_step n Worker c (c\<lparr>worker := Finished, manager := worker_cleanup (manager c)\<rparr>)"

inductive daemon_reachable :: "nat \<Rightarrow> (nat \<Rightarrow> manager_call list) \<Rightarrow> daemon \<Rightarrow> bool" for n programs where
  daemon_start: "daemon_reachable n programs (initial_daemon programs)"
| daemon_further: "daemon_reachable n programs c \<Longrightarrow> daemon_step n a c c' \<Longrightarrow> daemon_reachable n programs c'"

inductive_cases daemon_step_cases: "daemon_step n a c c'"

section \<open>Lemmas: references and handles\<close>

text \<open>What a record of libusb calls leaves: the references to devices and the open handles. A call on a
  device that no reference keeps alive, and the closing of a handle that is not open, are
  misuses and have no result.\<close>

type_synonym usage = "nat multiset \<times> nat multiset"

definition handle_mset :: "nat option \<Rightarrow> nat multiset" where
  "handle_mset h = (case h of None \<Rightarrow> {#} | Some h \<Rightarrow> {#h#})"

fun use_call :: "lib_call \<Rightarrow> usage \<Rightarrow> usage option" where
  "use_call (Ref_Device d) (R, H) = Some (add_mset d R, H)"
| "use_call (Unref_Device d) (R, H) = (if d \<in># R then Some (R - {#d#}, H) else None)"
| "use_call (Get_Descriptor d) (R, H) = (if d \<in># R then Some (R, H) else None)"
| "use_call (Get_Bus_Number d) (R, H) = (if d \<in># R then Some (R, H) else None)"
| "use_call (Get_Device_Address d) (R, H) = (if d \<in># R then Some (R, H) else None)"
| "use_call (Open_Device d result handle) (R, H) =
     (if d \<in># R then Some (R, if result = 0 then H + handle_mset handle else H) else None)"
| "use_call (Close_Handle h) (R, H) = (if h \<in># H then Some (R, H - {#h#}) else None)"

fun use_calls :: "lib_call list \<Rightarrow> usage \<Rightarrow> usage option" where
  "use_calls [] u = Some u"
| "use_calls (c # cs) u = Option.bind (use_call c u) (use_calls cs)"

lemma use_calls_append: "use_calls (xs @ ys) u = Option.bind (use_calls xs u) (use_calls ys)"
  by (induction xs arbitrary: u) (auto split: Option.bind_split)

lemma record_calls_simps [simp]:
  "m_queue (record_calls cs m) = m_queue m" "m_sessions (record_calls cs m) = m_sessions m"
  "m_stopping (record_calls cs m) = m_stopping m" "m_generation (record_calls cs m) = m_generation m"
  "m_calls (record_calls cs m) = m_calls m @ cs"
  by (simp_all add: record_calls_def)

lemma print_line_simps [simp]:
  "m_queue (print_line s m) = m_queue m" "m_sessions (print_line s m) = m_sessions m"
  "m_stopping (print_line s m) = m_stopping m" "m_generation (print_line s m) = m_generation m"
  "m_calls (print_line s m) = m_calls m"
  by (simp_all add: print_line_def)

lemma destroy_session_simps [simp]:
  "m_queue (destroy_session s m) = m_queue m" "m_sessions (destroy_session s m) = m_sessions m"
  "m_stopping (destroy_session s m) = m_stopping m" "m_generation (destroy_session s m) = m_generation m"
  by (simp_all add: destroy_session_def split: option.split)

text \<open>The references and handles that the sessions own, and the agreement of the record with them
  when \<open>X\<close> are the references held elsewhere.\<close>

definition owned_refs :: "(nat, DeviceSession) btree \<Rightarrow> nat multiset" where
  "owned_refs ss = mset (map fst ss)"

definition owned_handles :: "(nat, DeviceSession) btree \<Rightarrow> nat multiset" where
  "owned_handles ss = sum_list (map (\<lambda>(k, s). handle_mset (session_handle s)) ss)"

definition sessions_ok :: "(nat, DeviceSession) btree \<Rightarrow> bool" where
  "sessions_ok ss \<longleftrightarrow> btree_invar ss \<and> (\<forall>(k, s) \<in> set ss. session_device s = k)"

definition balanced :: "SessionManager \<Rightarrow> nat multiset \<Rightarrow> bool" where
  "balanced m X \<longleftrightarrow> sessions_ok (m_sessions m)
     \<and> use_calls (m_calls m) ({#}, {#}) = Some (X + owned_refs (m_sessions m), owned_handles (m_sessions m))"

lemma balanced_cong:
  "m_sessions m' = m_sessions m \<Longrightarrow> m_calls m' = m_calls m \<Longrightarrow> balanced m' X = balanced m X"
  by (simp add: balanced_def)

lemma balanced_ref: "balanced m X \<Longrightarrow> balanced (record_calls [Ref_Device d] m) (add_mset d X)"
  by (simp add: balanced_def use_calls_append)

lemma balanced_unref: "balanced m (add_mset d X) \<Longrightarrow> balanced (record_calls [Unref_Device d] m) X"
  by (simp add: balanced_def use_calls_append)

lemma balanced_unrefs: "balanced m (mset ds + X) \<Longrightarrow> balanced (record_calls (map Unref_Device ds) m) X"
proof (induction ds arbitrary: m)
  case (Cons d ds)
  then have "balanced (record_calls [Unref_Device d] m) (mset ds + X)" by (intro balanced_unref) simp
  from Cons.IH [OF this] show ?case by (simp add: balanced_def)
qed (simp add: balanced_def)

lemma mset_btree_insert:
  "\<not> contains_key m k \<Longrightarrow> mset (btree_insert k v m) = add_mset (k, v) (mset m)"
  by (induction m) (auto simp: contains_key_def)

lemma owned_insert:
  assumes "\<not> contains_key ss k"
  shows "owned_refs (btree_insert k s ss) = add_mset k (owned_refs ss)"
    and "owned_handles (btree_insert k s ss) = handle_mset (session_handle s) + owned_handles ss"
  using mset_btree_insert [OF assms, of s]
  by (simp_all add: owned_refs_def owned_handles_def flip: sum_mset_sum_list)

lemma mset_map_erase:
  assumes "btree_invar ss" and "map_of ss k = Some s"
  shows "mset ss = add_mset (k, s) (mset (map_erase k ss))"
  using assms
proof (induction ss)
  case (Cons p ss)
  obtain k' s' where p: "p = (k', s')" by (cases p)
  show ?case
  proof (cases "k' = k")
    case True
    then have "\<forall>q \<in> set ss. fst q \<noteq> k" using Cons.prems(1) by (auto simp: p btree_invar_def)
    then have "map_erase k ss = ss" by (simp add: map_erase_def filter_id_conv case_prod_beta)
    then show ?thesis using True Cons.prems(2) by (simp add: p map_erase_def)
  next
    case False
    then show ?thesis using Cons by (simp add: p map_erase_def btree_invar_def)
  qed
qed simp

lemma owned_erase:
  assumes "btree_invar ss" and "map_of ss k = Some s"
  shows "owned_refs ss = add_mset k (owned_refs (map_erase k ss))"
    and "owned_handles ss = handle_mset (session_handle s) + owned_handles (map_erase k ss)"
  using mset_map_erase [OF assms]
  by (simp_all add: owned_refs_def owned_handles_def flip: sum_mset_sum_list)

lemma sessions_ok_erase: "sessions_ok ss \<Longrightarrow> sessions_ok (map_erase k ss)"
  by (auto simp: sessions_ok_def btree_invar_def map_erase_def sorted_wrt_map sorted_wrt_filter)

lemma use_destroy:
  assumes "session_device s = d"
    and "use_calls (m_calls m) ({#}, {#}) = Some (add_mset d R, handle_mset (session_handle s) + H)"
  shows "use_calls (m_calls (destroy_session s m)) ({#}, {#}) = Some (R, H)"
  using assms
  by (auto simp: destroy_session_def use_calls_append handle_mset_def split: option.split)

lemma balanced_departure:
  assumes "balanced m X"
  shows "balanced (handle_departure d m) X"
proof (cases "map_of (m_sessions m) d")
  case None
  then show ?thesis using assms by (simp add: handle_departure_def)
next
  case (Some s)
  have ok: "sessions_ok (m_sessions m)" using assms by (simp add: balanced_def)
  then have tree: "btree_invar (m_sessions m)" and dev: "session_device s = d"
    using map_of_SomeD [OF Some] by (auto simp: sessions_ok_def)
  have "use_calls (m_calls (print_line l (m\<lparr>m_sessions := map_erase d (m_sessions m)\<rparr>))) ({#}, {#}) = Some (add_mset d (X + owned_refs (map_erase d (m_sessions m))),
      handle_mset (session_handle s) + owned_handles (map_erase d (m_sessions m)))" for l
    using assms owned_erase [OF tree Some] by (simp add: balanced_def)
  from use_destroy [OF dev this] show ?thesis
    using sessions_ok_erase [OF ok, of d] by (simp add: handle_departure_def Some balanced_def)
qed

lemma balanced_arrival:
  assumes "balanced m X" and "d \<in># X"
  shows "balanced (handle_arrival ans d m) X"
proof -
  obtain r h where answer: "answer_open ans = (r, h)" by (cases "answer_open ans")
  show ?thesis
  proof (cases "\<not> is_target_device ans \<or> contains_key (m_sessions m) d \<or> r \<noteq> LIBUSB_SUCCESS")
    case True
    then show ?thesis using assms
      by (auto simp: handle_arrival_def Let_def answer balanced_def use_calls_append LIBUSB_SUCCESS_def)
  next
    case False
    let ?s = "\<lparr>session_device = d, session_handle = h, session_generation = m_generation m + 1\<rparr>"
    have new: "\<not> contains_key (m_sessions m) d" using False by simp
    have "sessions_ok (btree_insert d ?s (m_sessions m))"
      using assms(1) mset_btree_insert [OF new, of ?s, THEN arg_cong [where f = set_mset]]
      by (auto simp: balanced_def sessions_ok_def btree_invar_insert)
    then show ?thesis using False assms
      by (simp add: handle_arrival_def Let_def answer balanced_def use_calls_append map_emplace_def
          owned_insert LIBUSB_SUCCESS_def add.commute)
  qed
qed

lemma balanced_event: "balanced m X \<Longrightarrow> event_device e \<in># X \<Longrightarrow> balanced (handle_event ans e m) X"
  by (simp add: handle_event_def balanced_departure balanced_arrival)

lemma use_destroy_all:
  assumes "\<forall>(k, s) \<in> set ss. session_device s = k"
    and "use_calls (m_calls m) ({#}, {#}) = Some (X + owned_refs ss, owned_handles ss)"
  shows "use_calls (m_calls (fold (\<lambda>(k, s). destroy_session s) ss m)) ({#}, {#}) = Some (X, {#})"
  using assms
proof (induction ss arbitrary: m)
  case (Cons p ss)
  obtain k s where p: "p = (k, s)" by (cases p)
  have "use_calls (m_calls (destroy_session s m)) ({#}, {#}) = Some (X + owned_refs ss, owned_handles ss)"
    using Cons.prems by (intro use_destroy [of s k]) (simp_all add: p owned_refs_def owned_handles_def)
  with Cons show ?case by (simp add: p)
qed (simp add: owned_refs_def owned_handles_def)

lemma balanced_cleanup:
  assumes "balanced m (mset (map event_device (m_queue m)) + X)"
  shows "balanced (worker_cleanup m) X"
proof -
  let ?m = "(record_calls (map (\<lambda>e. Unref_Device (event_device e)) (m_queue m)) m)\<lparr>m_queue := []\<rparr>"
  have "balanced ?m X"
    using balanced_unrefs [OF assms] by (simp add: balanced_def comp_def)
  from use_destroy_all [of "m_sessions ?m" ?m X] this
  have "use_calls (m_calls (fold (\<lambda>(k, s). destroy_session s) (m_sessions ?m) ?m)) ({#}, {#}) = Some (X, {#})"
    by (simp add: balanced_def sessions_ok_def)
  then show ?thesis
    by (simp add: worker_cleanup_def Let_def balanced_def sessions_ok_def btree_invar_def owned_refs_def owned_handles_def)
qed

lemma handle_event_simps [simp]:
  "m_queue (handle_event ans e m) = m_queue m" "m_stopping (handle_event ans e m) = m_stopping m"
  by (simp_all add: handle_event_def handle_arrival_def handle_departure_def Let_def split: prod.split option.split)

lemma fold_destroy_simps:
  "m_queue (fold (\<lambda>(k, s). destroy_session s) ss m) = m_queue m"
  "m_stopping (fold (\<lambda>(k, s). destroy_session s) ss m) = m_stopping m"
  by (induction ss arbitrary: m) (simp_all add: case_prod_beta)

lemma worker_cleanup_simps [simp]:
  "m_queue (worker_cleanup m) = []" "m_stopping (worker_cleanup m) = m_stopping m"
  "m_sessions (worker_cleanup m) = []"
  by (simp_all add: worker_cleanup_def Let_def fold_destroy_simps)

section \<open>Lemmas: the threads\<close>

lemma move_simps [simp]:
  "manager (move i pc c) = manager c" "mutex (move i pc c) = mutex c" "worker (move i pc c) = worker c"
  "accepted (move i pc c) = accepted c" "handled (move i pc c) = handled c"
  "clients (move i pc c) = (clients c)(i := (clients c i)\<lparr>at_pc := pc\<rparr>)"
  by (simp_all add: move_def)

lemma notify_one_simps [simp]:
  "manager (notify_one c) = manager c" "mutex (notify_one c) = mutex c" "clients (notify_one c) = clients c"
  "accepted (notify_one c) = accepted c" "handled (notify_one c) = handled c"
  "worker (notify_one c) = (if worker c = Sleeping then Acquiring else worker c)"
  by (simp_all add: notify_one_def)

text \<open>The holder of the mutex is the thread in a critical section.\<close>

fun in_section :: "client_pc \<Rightarrow> bool" where
  "in_section (Enqueue_Locked d e) \<longleftrightarrow> True"
| "in_section Stop_Locked \<longleftrightarrow> True"
| "in_section _ \<longleftrightarrow> False"

definition mutex_ok :: "nat \<Rightarrow> daemon \<Rightarrow> bool" where
  "mutex_ok n c \<longleftrightarrow> (worker c = Deciding \<longleftrightarrow> mutex c = Some Worker) \<and> mutex c \<noteq> Some Spurious_Wakeup
     \<and> (\<forall>i. mutex c = Some (Client i) \<longleftrightarrow> in_section (at_pc (clients c i)))
     \<and> (\<forall>i. in_section (at_pc (clients c i)) \<longrightarrow> i < n)"

lemma mutex_ok_section: "mutex_ok n c \<Longrightarrow> in_section (at_pc (clients c i)) \<Longrightarrow> mutex c = Some (Client i)"
  by (simp add: mutex_ok_def)

lemma mutex_ok_step:
  assumes "daemon_step n a c c'" and "mutex_ok n c"
  shows "mutex_ok n c'"
  using assms(1)
proof cases
  case (enqueue_accept i d e m)
  with mutex_ok_section [OF assms(2), of i] show ?thesis using assms(2) by (auto simp: mutex_ok_def)
next
  case (enqueue_refuse i d e m)
  with mutex_ok_section [OF assms(2), of i] show ?thesis using assms(2) by (auto simp: mutex_ok_def)
next
  case (stop_first i m)
  with mutex_ok_section [OF assms(2), of i] show ?thesis using assms(2) by (auto simp: mutex_ok_def)
next
  case (stop_again i m)
  with mutex_ok_section [OF assms(2), of i] show ?thesis using assms(2) by (auto simp: mutex_ok_def)
qed (use assms(2) in \<open>auto simp: mutex_ok_def split: if_splits\<close>)

lemma mutex_ok_reachable: "daemon_reachable n programs c \<Longrightarrow> mutex_ok n c"
proof (induction rule: daemon_reachable.induct)
  case daemon_start
  then show ?case by (simp add: mutex_ok_def initial_daemon_def)
qed (rule mutex_ok_step)

text \<open>The references held by the queue, the worker and the clients.\<close>

fun pc_refs :: "client_pc \<Rightarrow> nat multiset" where
  "pc_refs (Enqueue_Locking d e) = {#d#}"
| "pc_refs (Enqueue_Locked d e) = {#d#}"
| "pc_refs _ = {#}"

fun worker_refs :: "worker_pc \<Rightarrow> nat multiset" where
  "worker_refs (Handling e) = {#event_device e#}"
| "worker_refs (Dropping e) = {#event_device e#}"
| "worker_refs _ = {#}"

definition client_refs :: "nat \<Rightarrow> (nat \<Rightarrow> client) \<Rightarrow> nat multiset" where
  "client_refs n cl = (\<Sum>i<n. pc_refs (at_pc (cl i)))"

definition held :: "nat \<Rightarrow> daemon \<Rightarrow> nat multiset" where
  "held n c = mset (map event_device (m_queue (manager c))) + worker_refs (worker c) + client_refs n (clients c)"

lemma client_refs_update:
  assumes "i < n"
  shows "client_refs n (cl(i := x)) + pc_refs (at_pc (cl i)) = client_refs n cl + pc_refs (at_pc x)"
proof -
  have "(\<Sum>j\<in>{..<n} - {i}. pc_refs (at_pc ((cl(i := x)) j))) = (\<Sum>j\<in>{..<n} - {i}. pc_refs (at_pc (cl j)))"
    by (rule sum.cong) auto
  then show ?thesis using assms by (simp add: client_refs_def sum.remove [of _ i])
qed

lemma client_refs_gain:
  "i < n \<Longrightarrow> pc_refs (at_pc (cl i)) = {#} \<Longrightarrow> client_refs n (cl(i := x)) = pc_refs (at_pc x) + client_refs n cl"
  using client_refs_update [of i n cl x] by (simp add: add.commute)

lemma client_refs_keep:
  "i < n \<Longrightarrow> pc_refs (at_pc (cl i)) = pc_refs (at_pc x) \<Longrightarrow> client_refs n (cl(i := x)) = client_refs n cl"
  using client_refs_update [of i n cl x] by simp

lemma client_refs_lose:
  "i < n \<Longrightarrow> pc_refs (at_pc x) = {#} \<Longrightarrow> client_refs n cl = pc_refs (at_pc (cl i)) + client_refs n (cl(i := x))"
  using client_refs_update [of i n cl x] by (simp add: add.commute)

lemma refs_step:
  assumes "daemon_step n a c c'" and "balanced (manager c) (held n c)"
  shows "balanced (manager c') (held n c')"
  using assms(1)
proof cases
  case (call_enqueue i d e rest)
  then show ?thesis
    using balanced_ref [OF assms(2), of d] by (simp add: held_def client_refs_gain)
next
  case (call_stop i rest)
  then show ?thesis using assms(2) by (simp add: held_def client_refs_keep)
next
  case (enqueue_lock i d e)
  then show ?thesis using assms(2) by (simp add: held_def move_def client_refs_keep)
next
  case (enqueue_accept i d e m)
  then have "held n c' = held n c"
    using client_refs_lose [of i n "(clients c i)\<lparr>at_pc := Enqueue_Notifying\<rparr>" "clients c"]
    by (auto simp: held_def move_def enqueue_locked_def split: if_splits)
  with enqueue_accept assms(2) show ?thesis
    by (auto simp: enqueue_locked_def balanced_def split: if_splits)
next
  case (enqueue_refuse i d e m)
  then have "held n c = add_mset d (held n c')"
    using client_refs_lose [of i n "(clients c i)\<lparr>at_pc := Ready\<rparr>" "clients c"]
    by (auto simp: held_def move_def enqueue_locked_def split: if_splits)
  with enqueue_refuse assms(2) balanced_unref show ?thesis
    by (auto simp: enqueue_locked_def split: if_splits)
next
  case (enqueue_notify i)
  then show ?thesis
    using assms(2) by (cases "worker c = Sleeping") (simp_all add: held_def move_def client_refs_keep)
next
  case (stop_lock i)
  then show ?thesis using assms(2) by (simp add: held_def move_def client_refs_keep)
next
  case (stop_first i m)
  then show ?thesis
    using assms(2) by (auto simp: held_def move_def client_refs_keep stop_locked_def balanced_def split: if_splits)
next
  case (stop_again i m)
  then show ?thesis
    using assms(2) by (auto simp: held_def move_def client_refs_keep stop_locked_def split: if_splits)
next
  case (stop_notify i)
  then show ?thesis
    using assms(2) by (cases "worker c = Sleeping") (simp_all add: held_def move_def client_refs_keep)
next
  case (stop_join i)
  then show ?thesis using assms(2) by (simp add: held_def move_def client_refs_keep)
next
  case (worker_take e q)
  then show ?thesis using assms(2) by (simp add: held_def balanced_def)
next
  case (worker_handle e ans)
  then show ?thesis using assms(2) by (simp add: held_def balanced_event)
next
  case (worker_drop e)
  then show ?thesis using assms(2) by (simp add: held_def balanced_unref)
next
  case worker_clean
  then show ?thesis using assms(2) by (simp add: held_def balanced_cleanup)
qed (use assms(2) in \<open>simp_all add: held_def\<close>)

lemma refs_reachable: "daemon_reachable n programs c \<Longrightarrow> balanced (manager c) (held n c)"
proof (induction rule: daemon_reachable.induct)
  case daemon_start
  then show ?case
    by (simp add: initial_daemon_def new_manager_def balanced_def held_def client_refs_def
        sessions_ok_def btree_invar_def owned_refs_def owned_handles_def)
qed (rule refs_step)

section \<open>Lemmas: waking, stopping and order\<close>

fun notifying :: "client_pc \<Rightarrow> bool" where
  "notifying Enqueue_Notifying \<longleftrightarrow> True"
| "notifying Stop_Notifying \<longleftrightarrow> True"
| "notifying _ \<longleftrightarrow> False"

fun ending :: "client_pc \<Rightarrow> bool" where
  "ending Stop_Notifying \<longleftrightarrow> True"
| "ending Joining \<longleftrightarrow> True"
| "ending _ \<longleftrightarrow> False"

fun in_hand :: "worker_pc \<Rightarrow> UsbEvent list" where
  "in_hand (Handling e) = [e]"
| "in_hand _ = []"

definition some_client :: "nat \<Rightarrow> (client_pc \<Rightarrow> bool) \<Rightarrow> (nat \<Rightarrow> client) \<Rightarrow> bool" where
  "some_client n P cl \<longleftrightarrow> (\<exists>i < n. P (at_pc (cl i)))"

lemma some_client_keep [simp]:
  "P (at_pc (cl i)) = P (at_pc x) \<Longrightarrow> some_client n P (cl(i := x)) = some_client n P cl"
  unfolding some_client_def by (metis fun_upd_apply)

lemma some_client_gain [simp]: "i < n \<Longrightarrow> P (at_pc x) \<Longrightarrow> some_client n P (cl(i := x))"
  unfolding some_client_def by (metis fun_upd_same)

text \<open>No wakeup is lost; whoever asked for the stop is still waiting until the worker has finished; the
  worker leaves its loop only with an empty queue; events are handled in the order of their
  acceptance.\<close>

definition wake_ok :: "nat \<Rightarrow> daemon \<Rightarrow> bool" where
  "wake_ok n c \<longleftrightarrow> (worker c = Sleeping \<longrightarrow> m_queue (manager c) = [] \<and> \<not> m_stopping (manager c)
     \<or> some_client n notifying (clients c))"

definition stop_ok :: "nat \<Rightarrow> daemon \<Rightarrow> bool" where
  "stop_ok n c \<longleftrightarrow>
     (m_stopping (manager c) \<longrightarrow> worker c = Finished \<or> some_client n ending (clients c))
     \<and> (worker c \<in> {Cleaning, Finished} \<longrightarrow> m_stopping (manager c) \<and> m_queue (manager c) = [])
     \<and> (worker c = Finished \<longrightarrow> m_sessions (manager c) = [])"

definition order_ok :: "daemon \<Rightarrow> bool" where
  "order_ok c \<longleftrightarrow> accepted c = handled c @ in_hand (worker c) @ m_queue (manager c)"

lemma wake_step: "daemon_step n a c c' \<Longrightarrow> wake_ok n c \<Longrightarrow> wake_ok n c'"
  by (elim daemon_step_cases) (auto simp: wake_ok_def enqueue_locked_def stop_locked_def split: if_splits)

lemma stop_step: "daemon_step n a c c' \<Longrightarrow> stop_ok n c \<Longrightarrow> stop_ok n c'"
  by (elim daemon_step_cases) (auto simp: stop_ok_def enqueue_locked_def stop_locked_def split: if_splits)

lemma order_step: "daemon_step n a c c' \<Longrightarrow> stop_ok n c \<Longrightarrow> order_ok c \<Longrightarrow> order_ok c'"
  by (elim daemon_step_cases) (auto simp: order_ok_def stop_ok_def enqueue_locked_def stop_locked_def split: if_splits)

lemma threads_reachable:
  assumes "daemon_reachable n programs c"
  shows "wake_ok n c \<and> stop_ok n c \<and> order_ok c"
  using assms
proof (induction rule: daemon_reachable.induct)
  case daemon_start
  then show ?case by (simp add: wake_ok_def stop_ok_def order_ok_def initial_daemon_def new_manager_def)
qed (blast intro: wake_step stop_step order_step)

section \<open>Lemmas: the end of the worker\<close>

text \<open>How many steps the worker still needs once it has been asked to stop.\<close>

fun worker_rank :: "worker_pc \<Rightarrow> nat" where
  "worker_rank Finished = 0"
| "worker_rank Cleaning = 2"
| "worker_rank Deciding = 3"
| "worker_rank Acquiring = 4"
| "worker_rank Sleeping = 5"
| "worker_rank (Dropping e) = 5"
| "worker_rank (Handling e) = 6"

definition work :: "daemon \<Rightarrow> nat" where
  "work c = 4 * length (m_queue (manager c)) + worker_rank (worker c)"

lemma stopping_kept: "daemon_step n a c c' \<Longrightarrow> m_stopping (manager c) \<Longrightarrow> m_stopping (manager c')"
  by (elim daemon_step_cases) (auto simp: enqueue_locked_def stop_locked_def split: if_splits)

lemma work_step:
  "daemon_step n a c c' \<Longrightarrow> m_stopping (manager c) \<Longrightarrow>
     (if a = Worker then work c' < work c else work c' \<le> work c)"
  by (elim daemon_step_cases) (auto simp: work_def enqueue_locked_def stop_locked_def split: if_splits)

lemma worker_enabled:
  assumes "worker c \<notin> {Finished, Sleeping}" and "worker c = Acquiring \<longrightarrow> mutex c = None"
  shows "\<exists>c'. daemon_step n Worker c c'"
proof (cases "worker c")
  case Deciding
  then show ?thesis
    by (cases "m_queue (manager c)"; cases "m_stopping (manager c)")
      (blast intro: worker_wait worker_break worker_take)+
qed (use assms in \<open>auto intro: worker_lock worker_handle worker_drop worker_clean\<close>)

lemma section_enabled:
  assumes "i < n" and "in_section (at_pc (clients c i))"
  shows "\<exists>c'. daemon_step n (Client i) c c' \<and> mutex c' = None"
proof (cases "at_pc (clients c i)")
  case (Enqueue_Locked d e)
  obtain b m where "enqueue_locked d e (manager c) = (b, m)" by (metis prod.exhaust)
  then show ?thesis
    using enqueue_accept [OF assms(1) Enqueue_Locked, of m] enqueue_refuse [OF assms(1) Enqueue_Locked, of m]
    by (cases b) (auto intro!: exI)
next
  case Stop_Locked
  obtain b m where "stop_locked (manager c) = (b, m)" by (metis prod.exhaust)
  then show ?thesis
    using stop_first [OF assms(1) Stop_Locked, of m] stop_again [OF assms(1) Stop_Locked, of m]
    by (cases b) (auto intro!: exI)
qed (use assms(2) in auto)

lemma notifier_enabled:
  assumes "i < n" and "notifying (at_pc (clients c i))" and "worker c = Sleeping"
  shows "\<exists>c'. daemon_step n (Client i) c c' \<and> worker c' = Acquiring"
proof (cases "at_pc (clients c i)")
  case Enqueue_Notifying
  then show ?thesis using enqueue_notify [OF assms(1)] assms(3) by fastforce
next
  case Stop_Notifying
  then show ?thesis using stop_notify [OF assms(1)] assms(3) by fastforce
qed (use assms(2) in auto)

lemma progress:
  assumes "daemon_reachable n programs c" and "worker c \<noteq> Finished"
    and "m_queue (manager c) \<noteq> [] \<or> m_stopping (manager c) \<or> worker c \<noteq> Sleeping"
  shows "(\<exists>c'. daemon_step n Worker c c')
    \<or> (\<exists>i < n. \<exists>c'. daemon_step n (Client i) c c' \<and> mutex c \<noteq> None \<and> mutex c' = None)
    \<or> (\<exists>i < n. \<exists>c'. daemon_step n (Client i) c c' \<and> worker c = Sleeping \<and> worker c' = Acquiring)"
proof (cases "worker c = Sleeping")
  case True
  then obtain i where "i < n" "notifying (at_pc (clients c i))"
    using threads_reachable [OF assms(1)] assms(3) by (auto simp: wake_ok_def some_client_def)
  with notifier_enabled [OF this True] True show ?thesis by blast
next
  case awake: False
  have mutex: "mutex_ok n c" using assms(1) by (rule mutex_ok_reachable)
  show ?thesis
  proof (cases "worker c = Acquiring \<longrightarrow> mutex c = None")
    case True
    with worker_enabled [of c n] awake assms(2) show ?thesis by blast
  next
    case False
    then obtain i where "mutex c = Some (Client i)"
      using mutex unfolding mutex_ok_def by (metis actor.exhaust not_None_eq worker_pc.distinct(1))
    moreover from this have "in_section (at_pc (clients c i))" "i < n"
      using mutex unfolding mutex_ok_def by blast+
    ultimately show ?thesis using section_enabled [of i n c] by blast
  qed
qed

text \<open>Nothing is left behind. Once the worker has finished and no client is inside \<open>enqueue\<close>, every
  reference taken has been released and every handle opened has been closed, exactly once, and every
  accepted event was handled, in the order of acceptance, also those that arrived just before the
  stop. In particular the worker drops no queued event after its loop.\<close>

lemma finished_clean:
  assumes "daemon_reachable n programs c" and "worker c = Finished"
    and "\<forall>i < n. pc_refs (at_pc (clients c i)) = {#}"
  shows "use_calls (m_calls (manager c)) ({#}, {#}) = Some ({#}, {#})
    \<and> m_sessions (manager c) = [] \<and> handled c = accepted c"
proof -
  have "stop_ok n c" "order_ok c" using threads_reachable [OF assms(1)] by simp_all
  then have "m_queue (manager c) = []" "m_sessions (manager c) = []" "handled c = accepted c"
    using assms(2) by (simp_all add: stop_ok_def order_ok_def)
  moreover have "client_refs n (clients c) = {#}" using assms(3) by (simp add: client_refs_def)
  ultimately show ?thesis using refs_reachable [OF assms(1)] assms(2)
    by (simp add: balanced_def held_def owned_refs_def owned_handles_def)
qed

section \<open>Lemmas: generations\<close>

definition opened :: "SessionManager \<Rightarrow> nat" where
  "opened m = length (filter (\<lambda>call. case call of Open_Device d result h \<Rightarrow> result = 0 | _ \<Rightarrow> False) (m_calls m))"

text \<open>The generation counts the successful opens, and each session carries the number of its own.\<close>

definition generations_ok :: "SessionManager \<Rightarrow> bool" where
  "generations_ok m \<longleftrightarrow> m_generation m = of_nat (opened m)
     \<and> (\<exists>g. inj_on g (fst ` set (m_sessions m))
          \<and> (\<forall>(k, s) \<in> set (m_sessions m). session_generation s = of_nat (g k) \<and> 0 < g k \<and> g k \<le> opened m))"

lemma generations_cong:
  assumes "generations_ok m" and "set (m_sessions m') \<subseteq> set (m_sessions m)"
    and "m_generation m' = m_generation m" and "opened m' = opened m"
  shows "generations_ok m'"
proof -
  obtain g where g: "inj_on g (fst ` set (m_sessions m))"
    "\<forall>(k, s) \<in> set (m_sessions m). session_generation s = of_nat (g k) \<and> 0 < g k \<and> g k \<le> opened m"
    using assms(1) by (auto simp: generations_ok_def)
  have "inj_on g (fst ` set (m_sessions m'))" using g(1) assms(2) by (blast intro: inj_on_subset)
  moreover have "\<forall>(k, s) \<in> set (m_sessions m'). session_generation s = of_nat (g k) \<and> 0 < g k \<and> g k \<le> opened m'"
    using g(2) assms(2,4) by auto
  ultimately show ?thesis using assms(1,3,4) unfolding generations_ok_def by auto
qed

lemma opened_simps [simp]:
  "opened (record_calls cs m) = opened m
     + length (filter (\<lambda>call. case call of Open_Device d result h \<Rightarrow> result = 0 | _ \<Rightarrow> False) cs)"
  "opened (print_line l m) = opened m"
  "opened (m\<lparr>m_queue := q\<rparr>) = opened m" "opened (m\<lparr>m_stopping := b\<rparr>) = opened m"
  "opened (m\<lparr>m_sessions := ss\<rparr>) = opened m" "opened (m\<lparr>m_generation := g\<rparr>) = opened m"
  by (simp_all add: opened_def)

lemma opened_destroy [simp]: "opened (destroy_session s m) = opened m"
  by (simp add: destroy_session_def split: option.split)

lemma generations_departure: "generations_ok m \<Longrightarrow> generations_ok (handle_departure d m)"
  by (cases "map_of (m_sessions m) d")
    (auto simp: handle_departure_def map_erase_def elim!: generations_cong)

lemma generations_new:
  assumes ok: "generations_ok m" and new: "\<not> contains_key (m_sessions m) d"
    and m': "m_sessions m' = btree_insert d s (m_sessions m)" "opened m' = Suc (opened m)"
      "m_generation m' = m_generation m + 1" "session_generation s = m_generation m + 1"
  shows "generations_ok m'"
proof -
  obtain g where g: "inj_on g (fst ` set (m_sessions m))"
    "\<forall>(k, s) \<in> set (m_sessions m). session_generation s = of_nat (g k) \<and> 0 < g k \<and> g k \<le> opened m"
    using ok by (auto simp: generations_ok_def)
  have set: "set (m_sessions m') = insert (d, s) (set (m_sessions m))"
    using mset_btree_insert [OF new, of s, THEN arg_cong [where f = set_mset]] by (simp add: m')
  have fresh: "d \<notin> fst ` set (m_sessions m)" using new by (simp add: contains_key_def)
  let ?g = "g(d := Suc (opened m))"
  have "Suc (opened m) \<notin> g ` fst ` set (m_sessions m)" using g(2) by fastforce
  then have "inj_on ?g (fst ` set (m_sessions m'))"
    using g(1) fresh by (auto simp: set inj_on_fun_updI)
  moreover have "\<forall>(k, s) \<in> set (m_sessions m'). session_generation s = of_nat (?g k) \<and> 0 < ?g k \<and> ?g k \<le> opened m'"
  proof (unfold set, intro ballI, clarify)
    fix k t assume "(k, t) \<in> insert (d, s) (set (m_sessions m))"
    then consider "k = d" "t = s" | "(k, t) \<in> set (m_sessions m)" "k \<noteq> d"
      using fresh by (cases "k = d") (auto simp: image_iff)
    then show "session_generation t = of_nat (?g k) \<and> 0 < ?g k \<and> ?g k \<le> opened m'"
      by cases (use g(2) ok m' in \<open>auto simp: generations_ok_def\<close>)
  qed
  moreover have "m_generation m' = of_nat (opened m')" using ok m' by (simp add: generations_ok_def)
  ultimately show ?thesis unfolding generations_ok_def by blast
qed

lemma generations_arrival:
  assumes "generations_ok m"
  shows "generations_ok (handle_arrival ans d m)"
proof -
  obtain r h where answer: "answer_open ans = (r, h)" by (cases "answer_open ans")
  show ?thesis
  proof (cases "\<not> is_target_device ans \<or> contains_key (m_sessions m) d \<or> r \<noteq> LIBUSB_SUCCESS")
    case True
    then show ?thesis
      by (intro generations_cong [OF assms]) (auto simp: handle_arrival_def Let_def answer LIBUSB_SUCCESS_def)
  next
    case False
    then show ?thesis
      by (intro generations_new [OF assms, of d])
        (auto simp: handle_arrival_def Let_def answer LIBUSB_SUCCESS_def map_emplace_def)
  qed
qed

lemma opened_fold [simp]: "opened (fold (\<lambda>(k, s). destroy_session s) ss m) = opened m"
  by (induction ss arbitrary: m) (simp_all add: case_prod_beta)

lemma opened_unrefs [simp]: "opened (record_calls (map (\<lambda>e. Unref_Device (f e)) es) m) = opened m"
  by (simp add: filter_map comp_def)

lemma generation_fold [simp]: "m_generation (fold (\<lambda>(k, s). destroy_session s) ss m) = m_generation m"
  by (induction ss arbitrary: m) (simp_all add: case_prod_beta)

lemma generations_step:
  assumes "daemon_step n a c c'" and "generations_ok (manager c)"
  shows "generations_ok (manager c')"
  using assms(1)
proof cases
  case (worker_handle e ans)
  then show ?thesis using assms(2) by (simp add: handle_event_def generations_arrival generations_departure)
next
  case worker_clean
  then show ?thesis
    by (auto simp: worker_cleanup_def Let_def intro!: generations_cong [OF assms(2)])
qed (auto simp: enqueue_locked_def stop_locked_def split: if_splits intro!: generations_cong [OF assms(2)])

lemma generations_reachable: "daemon_reachable n programs c \<Longrightarrow> generations_ok (manager c)"
proof (induction rule: daemon_reachable.induct)
  case daemon_start
  then show ?case by (simp add: initial_daemon_def new_manager_def generations_ok_def opened_def)
qed (rule generations_step)

section \<open>Running a schedule\<close>

text \<open>The step of a given thread, as a function: the step relation is its graph.\<close>

fun client_step :: "nat \<Rightarrow> client_pc \<Rightarrow> manager_call list \<Rightarrow> daemon \<Rightarrow> daemon option" where
  "client_step i Ready [] c = None"
| "client_step i Ready (Enqueue d e # rest) c =
     Some (c\<lparr>manager := record_calls [Ref_Device d] (manager c),
             clients := (clients c)(i := \<lparr>at_pc = Enqueue_Locking d e, todo = rest\<rparr>)\<rparr>)"
| "client_step i Ready (Stop # rest) c =
     Some (c\<lparr>clients := (clients c)(i := \<lparr>at_pc = Stop_Locking, todo = rest\<rparr>)\<rparr>)"
| "client_step i (Enqueue_Locking d e) cs c =
     (if mutex c = None then Some (move i (Enqueue_Locked d e) (c\<lparr>mutex := Some (Client i)\<rparr>)) else None)"
| "client_step i (Enqueue_Locked d e) cs c =
     (case enqueue_locked d e (manager c) of
        (True, m) \<Rightarrow> Some (move i Enqueue_Notifying (c\<lparr>manager := m, mutex := None,
                       accepted := accepted c @ [\<lparr>event_device = d, event_kind = e\<rparr>]\<rparr>))
      | (False, m) \<Rightarrow> Some (move i Ready (c\<lparr>manager := m, mutex := None\<rparr>)))"
| "client_step i Enqueue_Notifying cs c = Some (move i Ready (notify_one c))"
| "client_step i Stop_Locking cs c =
     (if mutex c = None then Some (move i Stop_Locked (c\<lparr>mutex := Some (Client i)\<rparr>)) else None)"
| "client_step i Stop_Locked cs c =
     (case stop_locked (manager c) of
        (True, m) \<Rightarrow> Some (move i Stop_Notifying (c\<lparr>manager := m, mutex := None\<rparr>))
      | (False, m) \<Rightarrow> Some (move i Ready (c\<lparr>manager := m, mutex := None\<rparr>)))"
| "client_step i Stop_Notifying cs c = Some (move i Joining (notify_one c))"
| "client_step i Joining cs c = (if worker c = Finished then Some (move i Ready c) else None)"

fun worker_step :: "answers \<Rightarrow> worker_pc \<Rightarrow> daemon \<Rightarrow> daemon option" where
  "worker_step ans Acquiring c =
     (if mutex c = None then Some (c\<lparr>worker := Deciding, mutex := Some Worker\<rparr>) else None)"
| "worker_step ans Deciding c =
     (case m_queue (manager c) of
        [] \<Rightarrow> Some (c\<lparr>worker := (if m_stopping (manager c) then Cleaning else Sleeping), mutex := None\<rparr>)
      | e # q \<Rightarrow> Some (c\<lparr>worker := Handling e, mutex := None, manager := (manager c)\<lparr>m_queue := q\<rparr>\<rparr>))"
| "worker_step ans Sleeping c = None"
| "worker_step ans (Handling e) c =
     Some (c\<lparr>worker := Dropping e, manager := handle_event ans e (manager c), handled := handled c @ [e]\<rparr>)"
| "worker_step ans (Dropping e) c =
     Some (c\<lparr>worker := Acquiring, manager := record_calls [Unref_Device (event_device e)] (manager c)\<rparr>)"
| "worker_step ans Cleaning c = Some (c\<lparr>worker := Finished, manager := worker_cleanup (manager c)\<rparr>)"
| "worker_step ans Finished c = None"

fun actor_step :: "nat \<Rightarrow> answers \<Rightarrow> actor \<Rightarrow> daemon \<Rightarrow> daemon option" where
  "actor_step n ans (Client i) c =
     (if i < n then client_step i (at_pc (clients c i)) (todo (clients c i)) c else None)"
| "actor_step n ans Worker c = worker_step ans (worker c) c"
| "actor_step n ans Spurious_Wakeup c = (if worker c = Sleeping then Some (c\<lparr>worker := Acquiring\<rparr>) else None)"

lemma client_record: "clients c i = \<lparr>at_pc = at_pc (clients c i), todo = todo (clients c i)\<rparr>"
  by simp

lemma client_step_sound:
  assumes "i < n" and "client_step i (at_pc (clients c i)) (todo (clients c i)) c = Some c'"
  shows "daemon_step n (Client i) c c'"
proof (cases "at_pc (clients c i)")
  case Ready
  then show ?thesis
  proof (cases "todo (clients c i)")
    case (Cons call rest)
    have "clients c i = \<lparr>at_pc = Ready, todo = call # rest\<rparr>" by (simp add: Ready flip: Cons)
    then show ?thesis
      using assms by (cases call) (auto simp: Ready Cons intro: call_enqueue call_stop)
  qed (use assms in simp)
next
  case (Enqueue_Locked d e)
  then show ?thesis
    using assms by (auto split: prod.splits bool.splits intro: enqueue_accept enqueue_refuse)
next
  case Stop_Locked
  then show ?thesis using assms by (auto split: prod.splits bool.splits intro: stop_first stop_again)
qed (use assms in \<open>auto split: if_splits intro: enqueue_lock enqueue_notify stop_lock stop_notify stop_join\<close>)

lemma worker_step_sound: "worker_step ans (worker c) c = Some c' \<Longrightarrow> daemon_step n Worker c c'"
  by (cases "worker c")
    (auto split: if_splits list.splits
      intro: worker_lock worker_wait worker_break worker_take worker_handle worker_drop worker_clean)

lemma actor_step_sound: "actor_step n ans a c = Some c' \<Longrightarrow> daemon_step n a c c'"
  by (cases a) (auto split: if_splits intro: client_step_sound worker_step_sound worker_wakes)

lemma actor_step_complete: "daemon_step n a c c' \<Longrightarrow> \<exists>ans. actor_step n ans a c = Some c'"
  by (elim daemon_step_cases) auto

fun run_schedule :: "nat \<Rightarrow> answers \<Rightarrow> actor list \<Rightarrow> daemon \<Rightarrow> daemon option" where
  "run_schedule n ans [] c = Some c"
| "run_schedule n ans (a # as) c = Option.bind (actor_step n ans a c) (run_schedule n ans as)"

lemma schedule_reachable:
  "daemon_reachable n programs c \<Longrightarrow> run_schedule n ans as c = Some c' \<Longrightarrow> daemon_reachable n programs c'"
proof (induction as arbitrary: c)
  case (Cons a as)
  then obtain c1 where "actor_step n ans a c = Some c1" "run_schedule n ans as c1 = Some c'"
    by (auto simp: bind_eq_Some_conv)
  with Cons show ?case by (blast intro: daemon_further actor_step_sound)
qed simp

definition sample_answers :: answers where
  "sample_answers = \<lparr>answer_descriptor = (0, view_descriptor (stub_view 10)), answer_open = (0, Some 77),
     answer_bus = 1, answer_address = 4, answer_error = ''LIBUSB_ERROR_ACCESS''\<rparr>"

definition sample_programs :: "nat \<Rightarrow> manager_call list" where
  "sample_programs i = [Enqueue 10 1, Stop, Stop]"

text \<open>The client announces a device and stops twice; the worker opens it, then cleans up. The prefix stops
  while the device is open.\<close>

definition opening_schedule :: "actor list" where
  "opening_schedule = [Worker, Worker] @ replicate 4 (Client 0) @ replicate 4 Worker"

definition sample_open :: daemon where
  "sample_open = the (run_schedule 1 sample_answers opening_schedule (initial_daemon sample_programs))"

definition ending_schedule :: "actor list" where
  "ending_schedule = opening_schedule @ replicate 4 (Client 0) @ replicate 3 Worker @ [Client 0]"

definition sample_end :: daemon where
  "sample_end = the (run_schedule 1 sample_answers ending_schedule (initial_daemon sample_programs))"

lemmas schedule_eval = initial_daemon_def sample_programs_def new_manager_def
  enqueue_locked_def stop_locked_def handle_event_def handle_arrival_def is_target_device_def map_emplace_def
  contains_key_def record_calls_def print_line_def move_def notify_one_def worker_cleanup_def destroy_session_def
  Let_def numeral_eq_Suc sample_answers_def stub_view_def const_simps SMIUSB_VENDOR_ID_def SMIUSB_SM768_PRODUCT_ID_def

lemma sample_open_run: "run_schedule 1 sample_answers opening_schedule (initial_daemon sample_programs) = Some sample_open"
  unfolding sample_open_def opening_schedule_def by (simp add: schedule_eval)

lemma sample_open_state:
  "worker sample_open = Acquiring" "mutex sample_open = None" "m_queue (manager sample_open) = []"
  "at_pc (clients sample_open 0) = Ready" "m_stopping (manager sample_open) = False"
  "m_sessions (manager sample_open) =
     [(10, \<lparr>session_device = 10, session_handle = Some 77, session_generation = 1\<rparr>)]"
  unfolding sample_open_def opening_schedule_def by (simp_all add: schedule_eval)

lemma sample_end_run: "run_schedule 1 sample_answers ending_schedule (initial_daemon sample_programs) = Some sample_end"
  unfolding sample_end_def ending_schedule_def opening_schedule_def by (simp add: schedule_eval)

lemma sample_end_state:
  "worker sample_end = Finished" "at_pc (clients sample_end 0) = Ready" "todo (clients sample_end 0) = [Stop]"
  unfolding sample_end_def ending_schedule_def opening_schedule_def by (simp_all add: schedule_eval)

lemmas sample_reachable =
  schedule_reachable [OF daemon_start sample_open_run] schedule_reachable [OF daemon_start sample_end_run]

section \<open>Properties\<close>

text \<open>C11: the reference counts are exact. In every interleaving of the worker with any number of client
  threads, whatever libusb answers, each call on a device is made while a reference keeps it alive, no
  reference is released and no handle closed that is not held; the references are those of the
  queued events, of the event the worker has in hand, of the clients inside \<open>enqueue\<close> and
  of the sessions, and the open handles are those of the sessions.\<close>

theorem references_exact:
  assumes "daemon_reachable n programs c"
  shows "use_calls (m_calls (manager c)) ({#}, {#}) =
    Some (mset (map event_device (m_queue (manager c))) + worker_refs (worker c)
            + (\<Sum>i<n. pc_refs (at_pc (clients c i))) + mset (map fst (m_sessions (manager c))),
          sum_list (map (\<lambda>(k, s). handle_mset (session_handle s)) (m_sessions (manager c))))"
  using refs_reachable [OF assms]
  by (simp add: balanced_def held_def client_refs_def owned_refs_def owned_handles_def)

theorem references_exact_witness:
  "use_calls (m_calls (manager sample_open)) ({#}, {#}) = Some ({#10#}, {#77#})"
  using references_exact [OF sample_reachable(1)]
  by (simp add: sample_open_state handle_mset_def)

text \<open>C23: the worker cannot be stuck. No wakeup is lost: while there is work or a stop request, and the
  worker has not finished, the worker can move, or a client that holds the mutex can release it, or
  a client can wake the sleeping worker. Once a stop was requested it stays so, no step adds work and
  every step of the worker reduces it, so that the worker ends after at most \<open>work c\<close> of its own steps.\<close>

theorem worker_progress:
  assumes "daemon_reachable n programs c" and "worker c \<noteq> Finished"
  shows "(m_queue (manager c) \<noteq> [] \<or> m_stopping (manager c) \<or> worker c \<noteq> Sleeping \<longrightarrow>
      (\<exists>c'. daemon_step n Worker c c')
      \<or> (\<exists>i < n. \<exists>c'. daemon_step n (Client i) c c' \<and> mutex c \<noteq> None \<and> mutex c' = None)
      \<or> (\<exists>i < n. \<exists>c'. daemon_step n (Client i) c c' \<and> worker c = Sleeping \<and> worker c' = Acquiring))
    \<and> (m_stopping (manager c) \<longrightarrow> (\<forall>a c'. daemon_step n a c c' \<longrightarrow>
        m_stopping (manager c') \<and> (if a = Worker then work c' < work c else work c' \<le> work c)))"
  using progress [OF assms] stopping_kept work_step by blast

theorem worker_progress_witness: "\<exists>a c'. daemon_step 1 a sample_open c'"
  using worker_progress [OF sample_reachable(1)] sample_open_state by (metis worker_pc.distinct)

text \<open>Generations identify sessions. As long as fewer than \<open>2 ^ 64\<close> devices were opened, the
  generation is the number of devices opened so far, and the sessions carry distinct generations
  between 1 and it.\<close>

lemma session_generations:
  assumes "daemon_reachable n programs c" and "opened (manager c) < 2 ^ 64"
  shows "unat (m_generation (manager c)) = opened (manager c)
    \<and> distinct (map (\<lambda>(k, s). session_generation s) (m_sessions (manager c)))
    \<and> (\<forall>(k, s) \<in> set (m_sessions (manager c)).
         0 < session_generation s \<and> session_generation s \<le> m_generation (manager c))"
proof -
  let ?ss = "m_sessions (manager c)" and ?n = "opened (manager c)"
  obtain g where gen: "m_generation (manager c) = of_nat ?n" and inj: "inj_on g (fst ` set ?ss)"
    and g: "\<forall>(k, s) \<in> set ?ss. session_generation s = of_nat (g k) \<and> 0 < g k \<and> g k \<le> ?n"
    using generations_reachable [OF assms(1)] by (auto simp: generations_ok_def)
  have small: "unat (of_nat k :: u64) = k" if "k \<le> ?n" for k
    using that assms(2) by (simp add: unsigned_of_nat take_bit_nat_eq_self)
  have key: "unat (session_generation (snd p)) = g (fst p)" if "p \<in> set ?ss" for p
    using g small that by fastforce
  have "distinct (map fst ?ss)"
    using refs_reachable [OF assms(1)] by (auto simp: balanced_def sessions_ok_def btree_invar_def strict_sorted_iff)
  then have "distinct (map (\<lambda>p. g (fst p)) ?ss)" using inj
    by (simp add: distinct_map comp_inj_on [of fst _ g, unfolded comp_def])
  then have "distinct (map (\<lambda>p. unat (session_generation (snd p))) ?ss)"
    using key by (simp cong: map_cong)
  then have "distinct (map (\<lambda>p. session_generation (snd p)) ?ss)"
    by (auto simp: distinct_map inj_on_def)
  moreover have "0 < session_generation (snd p) \<and> session_generation (snd p) \<le> m_generation (manager c)"
    if "p \<in> set ?ss" for p
    using g that key [OF that] small [of ?n] gen by (fastforce simp: word_le_nat_alt word_less_nat_alt)
  ultimately show ?thesis using gen small [of ?n] by (auto simp: case_prod_unfold)
qed

end
