(* ===== verification/Daemon_Main.thy ===== *)
theory Daemon_Main
  imports Session_Manager
begin

text \<open>
  The main thread of the C++ daemon, \<open>src/src/daemon/smiusbd.cpp\<close>: its options, its event loop, and the
  calls it makes on the session manager, which the threads of \<open>Session_Manager\<close> then interleave with
  the worker. libusb, the clock and the stop flag are parameters. The event loop may run forever, so
  that \<open>main\<close> is a partial function whose value is \<open>None\<close> when it does.
\<close>

section \<open>Model\<close>

text \<open>\<open>parse_options\<close>: the duration in seconds, 0 for none, or \<open>None\<close> for a usage error.\<close>

definition parse_options :: "string list \<Rightarrow> u32 option" where
  "parse_options argv =
     (if length argv < 2 \<or> argv ! 1 \<noteq> ''--observe'' then None
      else if length argv = 2 then Some 0
      else if length argv = 4 \<and> argv ! 2 = ''--duration'' then
        (case strtoul (argv ! 3) of (duration, rest) \<Rightarrow>
         if rest \<noteq> argv ! 3 \<and> rest = [] \<and> 0 < duration \<and> duration \<le> 0xffffffff
         then Some (ucast duration) else None)
      else None)"

text \<open>The events that libusb delivers in a call are listed with its result; the callback always
  returns 0.\<close>

record 'w daemon_host =
  daemon_init :: "'w \<Rightarrow> int \<times> 'w"
  daemon_signal :: "int \<Rightarrow> 'w \<Rightarrow> 'w"
  daemon_register :: "'w \<Rightarrow> (int \<times> (nat \<times> int) list) \<times> 'w"
  daemon_stop_flag :: "'w \<Rightarrow> bool \<times> 'w"
  daemon_now :: "'w \<Rightarrow> int \<times> 'w"
  daemon_handle_events :: "int \<Rightarrow> 'w \<Rightarrow> (int \<times> (nat \<times> int) list) \<times> 'w"
  daemon_deregister :: "'w \<Rightarrow> 'w"
  daemon_exit :: "'w \<Rightarrow> 'w"
  daemon_error_name :: "int \<Rightarrow> string"

definition hotplug_callback :: "nat \<times> int \<Rightarrow> manager_call" where
  "hotplug_callback = (\<lambda>(device, event). Enqueue device event)"

type_synonym 'w loop_result = "manager_call list \<times> string list \<times> int \<times> 'w"

text \<open>One turn of the loop: it leaves the loop, or goes on with a new result.\<close>

definition loop_turn ::
  "'w daemon_host \<Rightarrow> int \<Rightarrow> int \<Rightarrow> 'w \<Rightarrow> 'w loop_result + ((nat \<times> int) list \<times> int \<times> 'w)" where
  "loop_turn host deadline result w =
     (case daemon_stop_flag host w of (stop, w) \<Rightarrow>
      if stop then Inl ([], [], result, w)
      else case daemon_now host w of (now, w) \<Rightarrow>
        if \<not> now < deadline then Inl ([], [], result, w)
        else case daemon_handle_events host 250000 w of ((result, events), w) \<Rightarrow>
          if result \<noteq> LIBUSB_SUCCESS \<and> result \<noteq> LIBUSB_ERROR_INTERRUPTED
          then Inl (map hotplug_callback events, [''smiusbd: event loop: '' @ daemon_error_name host result], result, w)
          else Inr (events, result, w))"

partial_function (option) event_loop ::
  "'w daemon_host \<Rightarrow> int \<Rightarrow> int \<Rightarrow> 'w \<Rightarrow> 'w loop_result option" where
  "event_loop host deadline result w =
     (case loop_turn host deadline result w of
        Inl left \<Rightarrow> Some left
      | Inr (events, result, w) \<Rightarrow>
          Option.bind (event_loop host deadline result w) (\<lambda>(calls, ls, result, w).
            Some (map hotplug_callback events @ calls, ls, result, w)))"

text \<open>What a run of \<open>main\<close> did: its status, what it printed, and, when it constructed the session manager,
  the calls it made on it before \<open>libusb_exit\<close>. After that only the destructor calls \<open>stop\<close> again.\<close>

record 'w daemon_run =
  run_status :: int
  run_lines :: "string list"
  run_calls :: "manager_call list option"
  run_world :: 'w

definition usage_lines :: "string \<Rightarrow> string list" where
  "usage_lines program =
     [''usage: '' @ program @ '' --observe [--duration SECONDS]'',
      ''observe mode opens the SM768 but never claims an interface or sends data'']"

definition compute_deadline :: "'w daemon_host \<Rightarrow> u32 \<Rightarrow> 'w \<Rightarrow> int \<times> 'w" where
  "compute_deadline host duration w =
     (if duration = 0 then (2 ^ 63 - 1, w)
      else case daemon_now host w of (now, w) \<Rightarrow> (now + uint duration * 1000000000, w))"

definition observe_devices :: "'w daemon_host \<Rightarrow> u32 \<Rightarrow> 'w \<Rightarrow> 'w daemon_run option" where
  "observe_devices host duration w =
     (let w = daemon_signal host 15 (daemon_signal host 2 w) in
      case daemon_register host w of ((result, events), w) \<Rightarrow>
      if result \<noteq> LIBUSB_SUCCESS then
        Some \<lparr>run_status = 1, run_lines = [''smiusbd: hotplug registration: '' @ daemon_error_name host result],
              run_calls = Some (map hotplug_callback events @ [Stop]), run_world = daemon_exit host w\<rparr>
      else case compute_deadline host duration w of (deadline, w) \<Rightarrow>
        Option.bind (event_loop host deadline result w) (\<lambda>(calls, ls, result, w).
          Some \<lparr>run_status = (if result = LIBUSB_SUCCESS \<or> result = LIBUSB_ERROR_INTERRUPTED then 0 else 1),
                run_lines = ls, run_calls = Some (map hotplug_callback events @ calls @ [Stop]),
                run_world = daemon_exit host (daemon_deregister host w)\<rparr>))"

definition daemon_main :: "'w daemon_host \<Rightarrow> string list \<Rightarrow> 'w \<Rightarrow> 'w daemon_run option" where
  "daemon_main host argv w =
     (case parse_options argv of
        None \<Rightarrow> Some \<lparr>run_status = 2, run_lines = usage_lines (case argv of [] \<Rightarrow> ''(null)'' | p # _ \<Rightarrow> p), run_calls = None, run_world = w\<rparr>
      | Some duration \<Rightarrow>
          (case daemon_init host w of (result, w) \<Rightarrow>
           if result \<noteq> LIBUSB_SUCCESS then
             Some \<lparr>run_status = 1, run_lines = [''smiusbd: libusb_init: '' @ daemon_error_name host result],
                   run_calls = None, run_world = w\<rparr>
           else observe_devices host duration w))"

section \<open>Lemmas: the main thread\<close>

abbreviation enqueues :: "(nat \<times> int) list \<Rightarrow> manager_call list" where
  "enqueues es \<equiv> map hotplug_callback es"

lemma loop_turn_left: "loop_turn host deadline result w = Inl y \<Longrightarrow> \<exists>es. fst y = enqueues es"
  by (fastforce simp: loop_turn_def intro: exI [of _ "[]"] split: prod.splits if_splits)

lemma event_loop_calls:
  assumes "event_loop host deadline result w = Some y"
  shows "\<exists>es. fst y = enqueues es"
  using assms
proof (rule event_loop.raw_induct [where P = "\<lambda>host deadline result w y. \<exists>es. fst y = enqueues es", rotated], goal_cases)
  case (1 loop host deadline result w y)
  show ?case
  proof (cases "loop_turn host deadline result w")
    case (Inl left)
    with 1(2) loop_turn_left show ?thesis by fastforce
  next
    case (Inr next_turn)
    obtain events r w' where next_turn: "next_turn = (events, r, w')" by (metis prod.exhaust)
    with Inr 1(2) obtain z where z: "loop host deadline r w' = Some z" "fst y = enqueues events @ fst z"
      by (auto simp: bind_eq_Some_conv split: prod.splits)
    from 1(1) [OF z(1)] obtain es where "fst z = enqueues es" by blast
    with z(2) have "fst y = enqueues (events @ es)" by simp
    then show ?thesis by blast
  qed
qed

lemma observe_calls:
  assumes "observe_devices host duration w = Some run"
  shows "\<exists>es. run_calls run = Some (enqueues es @ [Stop])"
proof -
  let ?w = "daemon_signal host 15 (daemon_signal host 2 w)"
  obtain result events w1 where reg: "daemon_register host ?w = ((result, events), w1)" by (metis prod.exhaust)
  obtain deadline w2 where dl: "compute_deadline host duration w1 = (deadline, w2)" by (metis prod.exhaust)
  show ?thesis
  proof (cases "result = LIBUSB_SUCCESS")
    case True
    then obtain y where y: "event_loop host deadline result w2 = Some y"
      "run_calls run = Some (enqueues events @ fst y @ [Stop])"
      using assms by (auto simp: observe_devices_def reg dl bind_eq_Some_conv split: prod.splits)
    from event_loop_calls [OF y(1)] obtain es where "fst y = enqueues es" by blast
    with y(2) have "run_calls run = Some (enqueues (events @ es) @ [Stop])" by simp
    then show ?thesis by blast
  next
    case False
    then show ?thesis using assms by (auto simp: observe_devices_def reg)
  qed
qed

lemma main_calls:
  assumes "daemon_main host argv w = Some run" and "run_calls run = Some calls"
  shows "\<exists>es. calls = enqueues es @ [Stop]"
proof -
  obtain duration result w1 where "parse_options argv = Some duration" "daemon_init host w = (result, w1)"
    "observe_devices host duration w1 = Some run"
    using assms by (auto simp: daemon_main_def split: option.splits prod.splits if_splits)
  from observe_calls [OF this(3)] assms(2) show ?thesis by auto
qed

section \<open>Lemmas: the main thread among the threads\<close>

definition event_pair :: "UsbEvent \<Rightarrow> nat \<times> int" where
  "event_pair e = (event_device e, event_kind e)"

fun pc_event :: "client_pc \<Rightarrow> (nat \<times> int) list" where
  "pc_event (Enqueue_Locking d e) = [(d, e)]"
| "pc_event (Enqueue_Locked d e) = [(d, e)]"
| "pc_event _ = []"

fun enqueuing :: "client_pc \<Rightarrow> bool" where
  "enqueuing (Enqueue_Locking d e) = True"
| "enqueuing (Enqueue_Locked d e) = True"
| "enqueuing Enqueue_Notifying = True"
| "enqueuing Ready = True"
| "enqueuing _ = False"

text \<open>How far the main thread is: still announcing the events \<open>es\<close>, in the \<open>stop\<close> before \<open>libusb_exit\<close>, or
  past it.\<close>

definition announcing :: "(nat \<times> int) list \<Rightarrow> daemon \<Rightarrow> bool" where
  "announcing es c \<longleftrightarrow> \<not> m_stopping (manager c) \<and> enqueuing (at_pc (clients c 0))
     \<and> (\<exists>rest. todo (clients c 0) = enqueues rest @ [Stop, Stop]
          \<and> map event_pair (accepted c) @ pc_event (at_pc (clients c 0)) @ rest = es)"

definition stopping_main :: "(nat \<times> int) list \<Rightarrow> daemon \<Rightarrow> bool" where
  "stopping_main es c \<longleftrightarrow> todo (clients c 0) = [Stop] \<and> map event_pair (accepted c) = es
     \<and> at_pc (clients c 0) \<in> (if m_stopping (manager c) then {Stop_Notifying, Joining, Ready} else {Stop_Locking, Stop_Locked})"

definition leaving_main :: "(nat \<times> int) list \<Rightarrow> daemon \<Rightarrow> bool" where
  "leaving_main es c \<longleftrightarrow> todo (clients c 0) = [] \<and> map event_pair (accepted c) = es
     \<and> m_stopping (manager c) \<and> at_pc (clients c 0) \<in> {Stop_Locking, Stop_Locked, Ready}"

lemma next_enqueue:
  "Enqueue d e # r = enqueues rest @ [Stop, Stop] \<longleftrightarrow>
     (\<exists>rest'. rest = (d, e) # rest' \<and> r = enqueues rest' @ [Stop, Stop])"
  by (cases rest) (auto simp: hotplug_callback_def)

lemma next_stop: "Stop # r = enqueues rest @ [Stop, Stop] \<longleftrightarrow> rest = [] \<and> r = [Stop]"
  by (cases rest) (auto simp: hotplug_callback_def)

lemma announcing_step:
  "daemon_step 1 a c c' \<Longrightarrow> announcing es c \<Longrightarrow> announcing es c' \<or> stopping_main es c'"
  by (elim daemon_step_cases)
    (auto simp: announcing_def stopping_main_def next_enqueue next_stop event_pair_def
      enqueue_locked_def stop_locked_def split: if_splits)

lemma stopping_main_step:
  "daemon_step 1 a c c' \<Longrightarrow> stopping_main es c \<Longrightarrow> stopping_main es c' \<or> leaving_main es c'"
  by (elim daemon_step_cases)
    (auto simp: stopping_main_def leaving_main_def enqueue_locked_def stop_locked_def split: if_splits)

lemma leaving_main_step: "daemon_step 1 a c c' \<Longrightarrow> leaving_main es c \<Longrightarrow> leaving_main es c'"
  by (elim daemon_step_cases)
    (auto simp: leaving_main_def enqueue_locked_def stop_locked_def split: if_splits)

lemma main_phases:
  assumes "daemon_reachable 1 (\<lambda>_. enqueues es @ [Stop, Stop]) c"
  shows "announcing es c \<or> stopping_main es c \<or> leaving_main es c"
  using assms
proof (induction rule: daemon_reachable.induct)
  case daemon_start
  then show ?case by (auto simp: announcing_def initial_daemon_def new_manager_def)
next
  case (daemon_further c a c')
  with announcing_step [of a c c' es] stopping_main_step [of a c c' es] leaving_main_step [of a c c' es]
  show ?case by blast
qed

lemma main_ready:
  assumes "daemon_reachable 1 (\<lambda>_. enqueues es @ [Stop, Stop]) c"
    and "at_pc (clients c 0) = Ready" and "todo (clients c 0) \<in> {[Stop], []}"
  shows "worker c = Finished" and "map event_pair (accepted c) = es" and "m_stopping (manager c)"
proof -
  have "\<not> announcing es c"
  proof
    assume "announcing es c"
    then obtain rest where "todo (clients c 0) = enqueues rest @ [Stop, Stop]" by (auto simp: announcing_def)
    with assms(3) show False by (cases rest) auto
  qed
  with main_phases [OF assms(1)] have "m_stopping (manager c)" "map event_pair (accepted c) = es"
    using assms(2) by (auto simp: stopping_main_def leaving_main_def split: if_splits)
  with threads_reachable [OF assms(1)] assms(2)
  show "worker c = Finished" "map event_pair (accepted c) = es" "m_stopping (manager c)"
    by (auto simp: stop_ok_def some_client_def)
qed

text \<open>After the \<open>stop\<close> before \<open>libusb_exit\<close> only the \<open>stop\<close> of the destructor is left, which finds the flag set.\<close>

definition at_exit :: "daemon \<Rightarrow> bool" where
  "at_exit c \<longleftrightarrow> worker c = Finished \<and> m_stopping (manager c)
     \<and> (todo (clients c 0) = [Stop] \<and> at_pc (clients c 0) = Ready
        \<or> todo (clients c 0) = [] \<and> at_pc (clients c 0) \<in> {Stop_Locking, Stop_Locked, Ready})"

lemma at_exit_step:
  "daemon_step 1 a c c' \<Longrightarrow> at_exit c \<Longrightarrow> at_exit c' \<and> m_calls (manager c') = m_calls (manager c)"
  by (elim daemon_step_cases) (auto simp: at_exit_def stop_locked_def split: if_splits)

lemma at_exit_forever:
  "(\<lambda>c c'. \<exists>a. daemon_step 1 a c c')\<^sup>*\<^sup>* c c' \<Longrightarrow> at_exit c \<Longrightarrow> at_exit c' \<and> m_calls (manager c') = m_calls (manager c)"
proof (induction rule: rtranclp_induct)
  case (step c1 c2)
  then show ?case using at_exit_step [of _ c1 c2] by metis
qed blast

section \<open>Lemmas: the event loop\<close>

text \<open>The steady clock reads the nanoseconds that have elapsed, and waiting for events passes time.\<close>

definition daemon_clock :: "'w daemon_host \<Rightarrow> ('w \<Rightarrow> nat) \<Rightarrow> ('w \<Rightarrow> nat) \<Rightarrow> bool" where
  "daemon_clock host elapsed pending \<longleftrightarrow>
     (\<forall>w. fst (daemon_now host w) = int (elapsed w) \<and> time_kept elapsed pending w (snd (daemon_now host w)))
     \<and> (\<forall>w. time_kept elapsed pending w (snd (daemon_stop_flag host w)))
     \<and> (\<forall>t w. time_passed elapsed pending w (snd (daemon_handle_events host t w)))"

definition good_result :: "int \<Rightarrow> bool" where
  "good_result r \<longleftrightarrow> r = LIBUSB_SUCCESS \<or> r = LIBUSB_ERROR_INTERRUPTED"

lemma loop_turn_cases:
  assumes "daemon_clock host elapsed pending" and "good_result result"
  obtains calls ls r w' where "loop_turn host deadline result w = Inl (calls, ls, r, w')"
      "good_result r \<and> ls = [] \<or> \<not> good_result r \<and> length ls = 1"
  | events r w' where "loop_turn host deadline result w = Inr (events, r, w')" "good_result r"
      "time_passed elapsed pending w w'" "int (elapsed w) < deadline"
proof -
  obtain stop w1 where stop: "daemon_stop_flag host w = (stop, w1)" by (metis prod.exhaust)
  obtain now w2 where now: "daemon_now host w1 = (now, w2)" by (metis prod.exhaust)
  obtain r es w3 where ev: "daemon_handle_events host 250000 w2 = ((r, es), w3)" by (metis prod.exhaust)
  have t: "time_kept elapsed pending w w1" "now = int (elapsed w1)" "time_kept elapsed pending w1 w2"
    "time_passed elapsed pending w2 w3"
    using assms(1) stop now ev unfolding daemon_clock_def by (metis snd_conv, metis fst_conv, metis snd_conv, metis snd_conv)
  have "time_passed elapsed pending w w3"
    by (rule time_passed_around [OF time_kept_preorder(2) [OF t(1,3)] t(4) time_kept_preorder(1)])
  moreover have "elapsed w \<le> elapsed w1" by (rule time_kept_elapsed [OF t(1)])
  ultimately show ?thesis
    using that assms(2) t(2) by (cases stop; cases "now < deadline"; cases "good_result r")
      (auto simp: loop_turn_def stop now ev good_result_def)
qed

lemma event_loop_returns:
  assumes "daemon_clock host elapsed pending" and "good_result result"
  shows "\<exists>calls ls r w'. event_loop host deadline result w = Some (calls, ls, r, w')
    \<and> (good_result r \<and> ls = [] \<or> \<not> good_result r \<and> length ls = 1)"
  using assms(2)
proof (induction w arbitrary: result rule: wf_induct_rule [OF wf_time_passed [of elapsed pending deadline]])
  case (1 w)
  show ?case
  proof (cases rule: loop_turn_cases [OF assms(1) "1.prems", of deadline w])
    case (1 calls ls r w')
    then show ?thesis by (simp add: event_loop.simps)
  next
    case (2 events r w')
    then have "(w', w) \<in> {(w', w). time_passed elapsed pending w w' \<and> int (elapsed w) < deadline}" by simp
    from "1.IH" [OF this 2(2)] 2(1) show ?thesis by (auto simp: event_loop.simps)
  qed
qed

section \<open>Properties\<close>

text \<open>C12: the daemon leaves libusb clean. Whatever events the main thread passed on and however its calls
  interleave with the worker, when its \<open>stop\<close> has returned and it goes on to \<open>libusb_exit\<close> the
  worker has ended, every reference has been released and every handle closed, all the
  events were handled in order, and no thread makes a call of libusb in any continuation.\<close>

theorem daemon_exits_clean:
  assumes "daemon_main host argv w = Some run" and "run_calls run = Some calls"
    and "daemon_reachable 1 (\<lambda>_. calls @ [Stop]) c"
    and "at_pc (clients c 0) = Ready" and "todo (clients c 0) \<in> {[Stop], []}"
  shows "worker c = Finished \<and> use_calls (m_calls (manager c)) ({#}, {#}) = Some ({#}, {#})
    \<and> map (\<lambda>e. Enqueue (event_device e) (event_kind e)) (handled c) @ [Stop] = calls
    \<and> (\<forall>c'. (\<lambda>c c'. \<exists>a. daemon_step 1 a c c')\<^sup>*\<^sup>* c c' \<longrightarrow> m_calls (manager c') = m_calls (manager c))"
proof -
  from main_calls [OF assms(1,2)] obtain es where es: "calls = enqueues es @ [Stop]" by blast
  with assms(3) have reach: "daemon_reachable 1 (\<lambda>_. enqueues es @ [Stop, Stop]) c" by simp
  note ready = main_ready [OF reach assms(4,5)]
  have clean: "use_calls (m_calls (manager c)) ({#}, {#}) = Some ({#}, {#}) \<and> m_sessions (manager c) = []
      \<and> handled c = accepted c"
    using reach ready(1) by (rule finished_clean) (simp add: assms(4))
  have "map (\<lambda>e. Enqueue (event_device e) (event_kind e)) (accepted c) = enqueues es"
    unfolding ready(2) [symmetric] by (simp add: hotplug_callback_def event_pair_def)
  then have handled: "map (\<lambda>e. Enqueue (event_device e) (event_kind e)) (handled c) @ [Stop] = calls"
    using clean es by simp
  have "at_exit c" using ready(1,3) assms(4,5) by (auto simp: at_exit_def)
  then have "\<forall>c'. (\<lambda>c c'. \<exists>a. daemon_step 1 a c c')\<^sup>*\<^sup>* c c' \<longrightarrow> m_calls (manager c') = m_calls (manager c)"
    using at_exit_forever by blast
  with ready(1) clean handled show ?thesis by blast
qed

definition sample_host :: "int \<Rightarrow> nat daemon_host" where
  "sample_host registration =
     \<lparr>daemon_init = (\<lambda>w. (0, w)), daemon_signal = (\<lambda>s w. w),
      daemon_register = (\<lambda>w. ((registration, [(10, 1)]), w)), daemon_stop_flag = (\<lambda>w. (False, w)),
      daemon_now = (\<lambda>w. (int w, w)), daemon_handle_events = (\<lambda>t w. ((0, []), w + Suc (1000 * nat t))),
      daemon_deregister = (\<lambda>w. w), daemon_exit = (\<lambda>w. w), daemon_error_name = show_int\<rparr>"

theorem daemon_exits_clean_witness:
  "\<exists>run. daemon_main (sample_host (- 1)) [''smiusbd'', ''--observe''] 0 = Some run
    \<and> use_calls (m_calls (manager sample_end)) ({#}, {#}) = Some ({#}, {#})
    \<and> Some (map (\<lambda>e. Enqueue (event_device e) (event_kind e)) (handled sample_end) @ [Stop]) = run_calls run"
proof -
  let ?run = "\<lparr>run_status = 1, run_lines = [''smiusbd: hotplug registration: '' @ show_int (- 1)],
      run_calls = Some [Enqueue 10 1, Stop], run_world = 0\<rparr>"
  have run: "daemon_main (sample_host (- 1)) [''smiusbd'', ''--observe''] 0 = Some ?run"
    by (simp add: daemon_main_def parse_options_def sample_host_def observe_devices_def LIBUSB_SUCCESS_def
        hotplug_callback_def)
  have calls: "run_calls ?run = Some [Enqueue 10 1, Stop]" by simp
  have reach: "daemon_reachable 1 (\<lambda>_. [Enqueue 10 1, Stop] @ [Stop]) sample_end"
    using sample_reachable(2) by (simp add: sample_programs_def [abs_def])
  have ready: "at_pc (clients sample_end 0) = Ready" "todo (clients sample_end 0) \<in> {[Stop], []}"
    by (simp_all add: sample_end_state)
  note clean = daemon_exits_clean [OF run calls reach ready]
  have "use_calls (m_calls (manager sample_end)) ({#}, {#}) = Some ({#}, {#})"
    by (rule clean [THEN conjunct2, THEN conjunct1])
  moreover have "Some (map (\<lambda>e. Enqueue (event_device e) (event_kind e)) (handled sample_end) @ [Stop]) = run_calls ?run"
    by (subst clean [THEN conjunct2, THEN conjunct2, THEN conjunct1]) simp
  ultimately show ?thesis using run by blast
qed

text \<open>With a duration the daemon ends, whatever libusb answers. It ends with status 0 without a message, or
  with status 1 and exactly one.\<close>

lemma daemon_returns:
  assumes "daemon_clock host elapsed pending" and "parse_options argv = Some duration" and "duration \<noteq> 0"
  shows "\<exists>run. daemon_main host argv w = Some run
    \<and> (run_status run = 0 \<and> run_lines run = [] \<or> run_status run = 1 \<and> length (run_lines run) = 1)"
proof -
  obtain r w1 where init: "daemon_init host w = (r, w1)" by (metis prod.exhaust)
  let ?w = "daemon_signal host 15 (daemon_signal host 2 w1)"
  obtain reg es w2 where register: "daemon_register host ?w = ((reg, es), w2)" by (metis prod.exhaust)
  obtain deadline w3 where deadline: "compute_deadline host duration w2 = (deadline, w3)" by (metis prod.exhaust)
  show ?thesis
  proof (cases "r = LIBUSB_SUCCESS \<and> reg = LIBUSB_SUCCESS")
    case True
    then have "good_result reg" by (simp add: good_result_def)
    from event_loop_returns [OF assms(1) this, of deadline w3] True show ?thesis
      by (auto simp: daemon_main_def assms(2) init observe_devices_def register deadline good_result_def)
  next
    case False
    then show ?thesis
      by (auto simp: daemon_main_def assms(2) init observe_devices_def register)
  qed
qed

lemma parse_duration: "parse_options [p, ''--observe'', ''--duration'', ''1''] = Some 1"
  by (simp add: parse_options_def strtoul_def scan_number_def isspace_def is_ascii_digit_def decimal_value_def
      u64_max_def Let_def)

lemma daemon_returns_sample:
  "\<exists>run. daemon_main (sample_host 0) [''smiusbd'', ''--observe'', ''--duration'', ''1''] 0 = Some run"
proof -
  have "daemon_clock (sample_host 0) (\<lambda>w. w) (\<lambda>w. 0)"
    by (simp add: daemon_clock_def sample_host_def time_passed_def)
  from daemon_returns [OF this parse_duration] show ?thesis by fastforce
qed

text \<open>The duration is read as \<open>strtoul\<close> reads it: a decimal number in range is itself, but so is a
  negative number whose value modulo \<open>2 ^ 64\<close> is in range.\<close>

lemma duration_decimal:
  "parse_options [p, ''--observe'', ''--duration'', show_nat n] = 
     (if 0 < n \<and> n \<le> 4294967295 then Some (of_nat n) else None)"
proof (cases "n \<le> unat u64_max")
  case True
  then have n: "unat (of_nat n :: u64) = n"
    by (simp add: u64_max_def unsigned_of_nat take_bit_nat_eq_self)
  have "0 < (of_nat n :: u64) \<longleftrightarrow> 0 < n" "(of_nat n :: u64) \<le> 0xffffffff \<longleftrightarrow> n \<le> 4294967295"
    by (simp_all add: word_less_nat_alt word_le_nat_alt n)
  moreover have "(ucast (of_nat n :: u64) :: u32) = of_nat n"
    by (rule word_unat_eq_iff [THEN iffD2]) (simp add: unsigned_ucast_eq n unsigned_of_nat)
  ultimately show ?thesis by (simp add: parse_options_def strtoul_show [OF True] eq_commute [of "[]"])
next
  case False
  then have "strtoul (show_nat n) = (u64_max, [])"
    by (simp add: strtoul_def scan_number_show decimal_value_show)
  then show ?thesis using False by (simp add: parse_options_def u64_max_def eq_commute [of "[]"])
qed

lemma duration_negative:
  "parse_options [p, ''--observe'', ''--duration'', ''-18446744073709551615''] = Some 1"
proof -
  have one: "- 18446744073709551615 = (1 :: u64)" by code_simp
  show ?thesis
    by (simp add: one parse_options_def strtoul_def scan_number_def isspace_def is_ascii_digit_def decimal_value_def
        u64_max_def Let_def)
qed

end
