(* ===== verification/Probe_Tool.thy ===== *)
theory Probe_Tool
  imports C_Runtime
begin

text \<open>
  The diagnostic tool of \<open>src/src/probe/smiusb_probe.c\<close>: it prints the descriptors of every adapter, once
  or, with \<open>--watch\<close>, also on hotplug events for a time. libusb and the clock are parameters; reading an
  array of a descriptor past its end is undefined behaviour. What the tool acquires from libusb
  (context, device list, configuration descriptors, hotplug registration) is recorded in
  order.
\<close>

section \<open>Model: descriptors and their lines\<close>

record endpoint_descriptor =
  b_endpoint_address :: u8
  bm_attributes :: u8
  w_max_packet_size :: u16
  b_interval :: u8

record interface_descriptor =
  b_interface_number :: u8
  b_alternate_setting :: u8
  b_interface_class :: u8
  b_interface_sub_class :: u8
  b_interface_protocol :: u8
  b_num_endpoints :: u8
  endpoint_array :: "endpoint_descriptor list"

record usb_interface =
  num_altsetting :: int
  altsetting_array :: "interface_descriptor list"

record config_descriptor =
  b_configuration_value :: u8
  b_num_interfaces :: u8
  config_attributes :: u8
  max_power :: u8
  interface_array :: "usb_interface list"

definition direction_name :: "u8 \<Rightarrow> string" where
  "direction_name addr = (if addr AND 0x80 \<noteq> 0 then ''IN'' else ''OUT'')"

definition transfer_type_name :: "u8 \<Rightarrow> string" where
  "transfer_type_name attributes =
     (let kind = attributes AND 3 in
      if kind = 0 then ''control''
      else if kind = 1 then ''isochronous''
      else if kind = 2 then ''bulk''
      else if kind = 3 then ''interrupt''
      else ''unknown'')"

definition print_endpoint :: "endpoint_descriptor \<Rightarrow> string" where
  "print_endpoint e =
     ''      endpoint=0x'' @ show_hex_pad 2 (unat (b_endpoint_address e))
     @ '' direction='' @ direction_name (b_endpoint_address e)
     @ '' type='' @ transfer_type_name (bm_attributes e)
     @ '' max_packet='' @ show_nat (unat (w_max_packet_size e))
     @ '' interval='' @ show_u8 (b_interval e)"

text \<open>\<open>for (i = 0; i < n; ++i)\<close> over an array: \<open>None\<close> when an element past its end is read.\<close>

definition each :: "nat \<Rightarrow> 'a list \<Rightarrow> ('a \<Rightarrow> string list option) \<Rightarrow> string list option" where
  "each n xs f =
     map_option concat (those (map (\<lambda>i. if i < length xs then f (xs ! i) else None) [0..<n]))"

definition alternate_lines :: "interface_descriptor \<Rightarrow> string list option" where
  "alternate_lines a =
     map_option (Cons (''    interface='' @ show_u8 (b_interface_number a) @ '' alt='' @ show_u8 (b_alternate_setting a)
         @ '' class='' @ show_hex_pad 2 (unat (b_interface_class a))
         @ ''/'' @ show_hex_pad 2 (unat (b_interface_sub_class a))
         @ ''/'' @ show_hex_pad 2 (unat (b_interface_protocol a))
         @ '' endpoints='' @ show_u8 (b_num_endpoints a)))
       (each (unat (b_num_endpoints a)) (endpoint_array a) (\<lambda>e. Some [print_endpoint e]))"

definition config_lines :: "nat \<Rightarrow> config_descriptor \<Rightarrow> string list option" where
  "config_lines index c =
     map_option (Cons (''  config='' @ show_nat index @ '' value='' @ show_u8 (b_configuration_value c)
         @ '' interfaces='' @ show_u8 (b_num_interfaces c)
         @ '' attributes=0x'' @ show_hex_pad 2 (unat (config_attributes c))
         @ '' power='' @ show_nat (unat (max_power c) * 2) @ ''mA''))
       (each (unat (b_num_interfaces c)) (interface_array c) (\<lambda>i.
          each (nat (num_altsetting i)) (altsetting_array i) alternate_lines))"

section \<open>Model: the tool\<close>

datatype resource = Context_Res | List_Res nat | Config_Res nat | Hotplug_Res

datatype resource_call = Acquire resource | Release resource

record 'w probe =
  out_lines :: "string list"
  err_lines :: "string list"
  resource_log :: "resource_call list"
  probe_world :: 'w

record 'w probe_libusb = "'w libusb" +
  libusb_get_config_descriptor :: "nat \<Rightarrow> u8 \<Rightarrow> 'w \<Rightarrow> (int \<times> nat \<times> config_descriptor) \<times> 'w"
  libusb_free_config_descriptor :: "nat \<Rightarrow> 'w \<Rightarrow> 'w"
  probe_signal :: "int \<Rightarrow> 'w \<Rightarrow> 'w"
  probe_register :: "nat \<Rightarrow> 'w \<Rightarrow> int \<times> 'w"
  probe_deregister :: "nat \<Rightarrow> 'w \<Rightarrow> 'w"
  probe_stop_flag :: "'w \<Rightarrow> bool \<times> 'w"
  probe_time :: "'w \<Rightarrow> int \<times> 'w"
  probe_handle_events :: "nat \<Rightarrow> int \<Rightarrow> 'w \<Rightarrow> (int \<times> (nat \<times> int) list) \<times> 'w"

definition print_out :: "string list \<Rightarrow> 'w probe \<Rightarrow> 'w probe" where
  "print_out ls p = p\<lparr>out_lines := out_lines p @ ls\<rparr>"

definition print_err :: "string \<Rightarrow> 'w probe \<Rightarrow> 'w probe" where
  "print_err l p = p\<lparr>err_lines := err_lines p @ [l]\<rparr>"

definition log_resource :: "resource_call \<Rightarrow> 'w probe \<Rightarrow> 'w probe" where
  "log_resource r p = p\<lparr>resource_log := resource_log p @ [r]\<rparr>"

text \<open>\<open>printf\<close> of the name that libusb gives an error.\<close>

definition c_error_name :: "'w probe_libusb \<Rightarrow> int \<Rightarrow> 'w \<Rightarrow> string \<times> 'w" where
  "c_error_name lib code w =
     (case libusb_error_name lib code w of
        (None, w) \<Rightarrow> (''(null)'', w)
      | (Some s, w) \<Rightarrow> (map (\<lambda>b. char_of (unat b)) s, w))"

definition print_failure :: "'w probe_libusb \<Rightarrow> string \<Rightarrow> int \<Rightarrow> 'w probe \<Rightarrow> 'w probe" where
  "print_failure lib s code p =
     (case c_error_name lib code (probe_world p) of (name, w) \<Rightarrow> print_err (s @ name) (p\<lparr>probe_world := w\<rparr>))"

definition print_config :: "'w probe_libusb \<Rightarrow> nat \<Rightarrow> nat \<Rightarrow> 'w probe \<Rightarrow> unit run \<times> 'w probe" where
  "print_config lib device index p =
     (case libusb_get_config_descriptor lib device (of_nat index) (probe_world p) of ((result, ptr, config), w) \<Rightarrow>
      let p = p\<lparr>probe_world := w\<rparr> in
      if result \<noteq> LIBUSB_SUCCESS then
        (Returned (), print_failure lib (''configuration '' @ show_nat index @ '' read failed: '') result p)
      else
        let p = log_resource (Acquire (Config_Res ptr)) p in
        (case config_lines index config of
           None \<Rightarrow> (Undefined, p)
         | Some ls \<Rightarrow>
             let p = print_out ls p in
             (Returned (), log_resource (Release (Config_Res ptr))
                (p\<lparr>probe_world := libusb_free_config_descriptor lib ptr (probe_world p)\<rparr>))))"

fun print_configs :: "'w probe_libusb \<Rightarrow> nat \<Rightarrow> nat list \<Rightarrow> 'w probe \<Rightarrow> unit run \<times> 'w probe" where
  "print_configs lib device [] p = (Returned (), p)"
| "print_configs lib device (i # is) p =
     and_next (print_config lib device i p) (\<lambda>_ p. print_configs lib device is p)"

definition device_line :: "string \<Rightarrow> u8 \<Rightarrow> u8 \<Rightarrow> LibusbDeviceDescriptor \<Rightarrow> string" where
  "device_line event bus_number device_address d =
     event @ '' bus='' @ show_u8 bus_number @ '' address='' @ show_u8 device_address
     @ '' vid:pid='' @ show_hex_pad 4 (unat (id_vendor d)) @ '':'' @ show_hex_pad 4 (unat (id_product d))
     @ '' usb='' @ format_bcd (bcd_usb d) @ '' device='' @ format_bcd (bcd_device d)
     @ '' configurations='' @ show_u8 (b_num_configurations d)"

definition print_device :: "'w probe_libusb \<Rightarrow> nat \<Rightarrow> string \<Rightarrow> 'w probe \<Rightarrow> unit run \<times> 'w probe" where
  "print_device lib device event p =
     (case libusb_get_device_descriptor lib device (probe_world p) of ((result, d), w) \<Rightarrow>
      let p = p\<lparr>probe_world := w\<rparr> in
      if result \<noteq> LIBUSB_SUCCESS then (Returned (), print_failure lib ''descriptor read failed: '' result p)
      else if id_vendor d \<noteq> 0x090c \<or> id_product d \<noteq> 0x0768 then (Returned (), p)
      else
        (case libusb_get_bus_number lib device (probe_world p) of (bus_number, w) \<Rightarrow>
         case libusb_get_device_address lib device w of (device_address, w) \<Rightarrow>
           print_configs lib device [0..<unat (b_num_configurations d)]
             (print_out [device_line event bus_number device_address d] (p\<lparr>probe_world := w\<rparr>))))"

definition probe_callback :: "'w probe_libusb \<Rightarrow> nat \<times> int \<Rightarrow> 'w probe \<Rightarrow> unit run \<times> 'w probe" where
  "probe_callback lib = (\<lambda>(device, event) p.
     print_device lib device (if event = LIBUSB_HOTPLUG_EVENT_DEVICE_ARRIVED then ''arrived'' else ''left'') p)"

text \<open>The loop over the device list; an entry past its end, or a NULL entry, is undefined, as are a
  list or a context that is missing although libusb reported success.\<close>

fun print_list :: "'w probe_libusb \<Rightarrow> nat option list \<Rightarrow> nat list \<Rightarrow> 'w probe \<Rightarrow> unit run \<times> 'w probe" where
  "print_list lib entries [] p = (Returned (), p)"
| "print_list lib entries (i # is) p =
     (case get_at entries i of
        Some (Some device) \<Rightarrow>
          and_next (print_device lib device ''present'' p) (\<lambda>_ p. print_list lib entries is p)
      | _ \<Rightarrow> (Undefined, p))"

definition enumerate_devices :: "'w probe_libusb \<Rightarrow> nat \<Rightarrow> 'w probe \<Rightarrow> int run \<times> 'w probe" where
  "enumerate_devices lib ctxt p =
     (case libusb_get_device_list lib ctxt (probe_world p) of ((count, raw), w) \<Rightarrow>
      let p = p\<lparr>probe_world := w\<rparr> in
      if count < 0 then (Returned 1, print_failure lib ''USB enumeration failed: '' (as_c_int count) p)
      else (case raw of
          None \<Rightarrow> (Undefined, p)
        | Some (list, entries) \<Rightarrow>
            and_next (print_list lib entries [0..<nat count] (log_resource (Acquire (List_Res list)) p)) (\<lambda>_ p.
              (Returned 0, log_resource (Release (List_Res list))
                 (p\<lparr>probe_world := libusb_free_device_list lib list 1 (probe_world p)\<rparr>)))))"

fun deliver_events :: "'w probe_libusb \<Rightarrow> (nat \<times> int) list \<Rightarrow> 'w probe \<Rightarrow> unit run \<times> 'w probe" where
  "deliver_events lib [] p = (Returned (), p)"
| "deliver_events lib (e # es) p = and_next (probe_callback lib e p) (\<lambda>_ p. deliver_events lib es p)"

text \<open>One turn of the watching loop: it leaves with a result, goes on with one, or ends undefined.\<close>

datatype 'w watch_turn = Watch_Leave int "'w probe" | Watch_Next int "'w probe" | Watch_Undefined "'w probe"

definition watch_turn :: "'w probe_libusb \<Rightarrow> nat \<Rightarrow> int \<Rightarrow> int \<Rightarrow> 'w probe \<Rightarrow> 'w watch_turn" where
  "watch_turn lib ctxt deadline result p =
     (case probe_stop_flag lib (probe_world p) of (stop, w) \<Rightarrow>
      let p = p\<lparr>probe_world := w\<rparr> in
      if stop then Watch_Leave result p
      else case probe_time lib (probe_world p) of (now, w) \<Rightarrow>
        let p = p\<lparr>probe_world := w\<rparr> in
        if \<not> now < deadline then Watch_Leave result p
        else case probe_handle_events lib ctxt 250000 (probe_world p) of ((result, events), w) \<Rightarrow>
          (case deliver_events lib events (p\<lparr>probe_world := w\<rparr>) of
            (Returned _, p) \<Rightarrow>
              if result \<noteq> LIBUSB_SUCCESS \<and> result \<noteq> LIBUSB_ERROR_INTERRUPTED
              then Watch_Leave result (print_failure lib ''event loop failed: '' result p)
              else Watch_Next result p
          | (_, p) \<Rightarrow> Watch_Undefined p))"

partial_function (option) watch_loop ::
  "'w probe_libusb \<Rightarrow> nat \<Rightarrow> int \<Rightarrow> int \<Rightarrow> 'w probe \<Rightarrow> (int run \<times> 'w probe) option" where
  "watch_loop lib ctxt deadline result p =
     (case watch_turn lib ctxt deadline result p of
        Watch_Leave result p \<Rightarrow> Some (Returned result, p)
      | Watch_Next result p \<Rightarrow> watch_loop lib ctxt deadline result p
      | Watch_Undefined p \<Rightarrow> Some (Undefined, p))"

definition watch_devices :: "'w probe_libusb \<Rightarrow> nat \<Rightarrow> int \<Rightarrow> 'w probe \<Rightarrow> (int run \<times> 'w probe) option" where
  "watch_devices lib ctxt seconds p =
     (let p = p\<lparr>probe_world := probe_signal lib 15 (probe_signal lib 2 (probe_world p))\<rparr> in
      case probe_register lib ctxt (probe_world p) of (result, w) \<Rightarrow>
      let p = p\<lparr>probe_world := w\<rparr> in
      if result \<noteq> LIBUSB_SUCCESS then
        Some (Returned 1, print_failure lib ''hotplug registration failed: '' result p)
      else
        let p = log_resource (Acquire Hotplug_Res) p in
        case probe_time lib (probe_world p) of (now, w) \<Rightarrow>
        Option.bind (watch_loop lib ctxt (now + seconds) result (p\<lparr>probe_world := w\<rparr>)) (\<lambda>r.
          Some (and_next r (\<lambda>result p.
            (Returned (if result = LIBUSB_SUCCESS \<or> result = LIBUSB_ERROR_INTERRUPTED then 0 else 1),
             log_resource (Release Hotplug_Res)
               (p\<lparr>probe_world := probe_deregister lib ctxt (probe_world p)\<rparr>))))))"

text \<open>The arguments: the seconds to watch, 0 for none, or the message of a usage error.\<close>

definition probe_options :: "string list \<Rightarrow> string + int" where
  "probe_options argv =
     (if length argv = 3 \<and> argv ! 1 = ''--watch'' then
        let seconds = atoi (argv ! 2) in
        if seconds < 1 then Inl ''--watch requires a positive number of seconds'' else Inr seconds
      else if length argv \<noteq> 1 then
        Inl (''usage: '' @ (case argv of [] \<Rightarrow> ''(null)'' | name # _ \<Rightarrow> name) @ '' [--watch SECONDS]'')
      else Inr 0)"

definition close_context :: "'w probe_libusb \<Rightarrow> nat \<Rightarrow> int run \<times> 'w probe \<Rightarrow> int run \<times> 'w probe" where
  "close_context lib ctxt r =
     and_next r (\<lambda>status p. (Returned status,
       log_resource (Release Context_Res) (p\<lparr>probe_world := libusb_exit lib ctxt (probe_world p)\<rparr>)))"

definition probe_main :: "'w probe_libusb \<Rightarrow> string list \<Rightarrow> 'w probe \<Rightarrow> (int run \<times> 'w probe) option" where
  "probe_main lib argv p =
     (case probe_options argv of
        Inl message \<Rightarrow> Some (Returned 2, print_err message p)
      | Inr seconds \<Rightarrow>
          (case libusb_init lib (probe_world p) of ((result, ctxt), w) \<Rightarrow>
           let p = p\<lparr>probe_world := w\<rparr> in
           if result \<noteq> LIBUSB_SUCCESS then Some (Returned 1, print_failure lib ''libusb_init failed: '' result p)
           else (case ctxt of
             None \<Rightarrow> Some (Undefined, p)
           | Some ctxt \<Rightarrow>
             (case enumerate_devices lib ctxt (log_resource (Acquire Context_Res) p) of (r, p) \<Rightarrow>
              if r \<noteq> Returned 0 \<or> seconds = 0 then Some (close_context lib ctxt (r, p))
              else map_option (close_context lib ctxt) (watch_devices lib ctxt seconds p)))))"

section \<open>Lemmas: what libusb promises\<close>

definition wf_alternate :: "interface_descriptor \<Rightarrow> bool" where
  "wf_alternate a \<longleftrightarrow> unat (b_num_endpoints a) \<le> length (endpoint_array a)"

definition wf_config :: "config_descriptor \<Rightarrow> bool" where
  "wf_config c \<longleftrightarrow> unat (b_num_interfaces c) \<le> length (interface_array c)
     \<and> (\<forall>i \<in> set (interface_array c). nat (num_altsetting i) \<le> length (altsetting_array i)
          \<and> (\<forall>a \<in> set (altsetting_array i). wf_alternate a))"

text \<open>A successful call delivers what it promises: a context, a list of as many devices as it counts,
  a descriptor whose counts are those of its arrays.\<close>

definition probe_contract :: "'w probe_libusb \<Rightarrow> bool" where
  "probe_contract lib \<longleftrightarrow>
     (\<forall>w. fst (fst (libusb_init lib w)) = 0 \<longrightarrow> snd (fst (libusb_init lib w)) \<noteq> None)
     \<and> (\<forall>ctxt w. 0 \<le> fst (fst (libusb_get_device_list lib ctxt w)) \<longrightarrow>
          (\<exists>l devices. snd (fst (libusb_get_device_list lib ctxt w)) = Some (l, map Some devices)
             \<and> fst (fst (libusb_get_device_list lib ctxt w)) \<le> int (length devices)))
     \<and> (\<forall>d i w. fst (fst (libusb_get_config_descriptor lib d i w)) = 0 \<longrightarrow>
          wf_config (snd (snd (fst (libusb_get_config_descriptor lib d i w)))))"

text \<open>The calls of the tool other than waiting for events keep an order of worlds.\<close>

definition calls_keep :: "'w probe_libusb \<Rightarrow> ('w \<Rightarrow> 'w \<Rightarrow> bool) \<Rightarrow> bool" where
  "calls_keep lib le \<longleftrightarrow>
     (\<forall>w. le w (snd (probe_time lib w)))
     \<and> (\<forall>w. le w (snd (probe_stop_flag lib w)))
     \<and> (\<forall>d w. le w (snd (libusb_get_device_descriptor lib d w)))
     \<and> (\<forall>d w. le w (snd (libusb_get_bus_number lib d w)))
     \<and> (\<forall>d w. le w (snd (libusb_get_device_address lib d w)))
     \<and> (\<forall>e w. le w (snd (libusb_error_name lib e w)))
     \<and> (\<forall>d i w. le w (snd (libusb_get_config_descriptor lib d i w)))
     \<and> (\<forall>q w. le w (libusb_free_config_descriptor lib q w))"

text \<open>
  Time passes for the tool: \<open>elapsed\<close> are the microseconds of real time, which no call takes back and
  which pass while the tool waits for events. \<open>time(NULL)\<close> counts whole seconds of the system clock. That
  clock may be set at any moment, forth or back, but it lags behind the elapsed time by at most
  \<open>slack\<close> microseconds.
\<close>

definition probe_clock :: "'w probe_libusb \<Rightarrow> ('w \<Rightarrow> nat) \<Rightarrow> ('w \<Rightarrow> nat) \<Rightarrow> int \<Rightarrow> bool" where
  "probe_clock lib elapsed pending slack \<longleftrightarrow>
     calls_keep lib (time_kept elapsed pending)
     \<and> (\<forall>w. int (elapsed w) \<le> 1000000 * fst (probe_time lib w) + slack)
     \<and> (\<forall>ctxt t w. time_passed elapsed pending w (snd (probe_handle_events lib ctxt t w)))"

lemma calls_keep_trivial [simp]: "calls_keep lib (\<lambda>_ _. True)"
  by (simp add: calls_keep_def)

section \<open>Lemmas: resources are released\<close>

fun nested :: "resource_call list \<Rightarrow> resource list \<Rightarrow> resource list option" where
  "nested [] st = Some st"
| "nested (Acquire r # cs) st = nested cs (r # st)"
| "nested (Release r # cs) st = (case st of [] \<Rightarrow> None | r' # st \<Rightarrow> if r = r' then nested cs st else None)"

lemma nested_append: "nested (xs @ ys) st = Option.bind (nested xs st) (nested ys)"
  by (induction xs st rule: nested.induct) (auto split: list.split)

text \<open>Between two states every resource acquired was released, in the reverse order.\<close>

definition releases :: "'w probe \<Rightarrow> 'w probe \<Rightarrow> bool" where
  "releases p p' \<longleftrightarrow> (\<exists>l. resource_log p' = resource_log p @ l \<and> (\<forall>st. nested l st = Some st))"

lemma releases_same: "resource_log p' = resource_log p \<Longrightarrow> releases p p'"
  by (simp add: releases_def)

lemma releases_refl [simp]: "releases p p" by (simp add: releases_same)

lemma releases_trans [trans]: "releases p q \<Longrightarrow> releases q r \<Longrightarrow> releases p r"
  by (auto simp: releases_def nested_append)

lemma releases_world [simp]:
  "releases p (q\<lparr>probe_world := w\<rparr>) = releases p q" "releases (p\<lparr>probe_world := w\<rparr>) q = releases p q"
  "releases p (print_out ls q) = releases p q" "releases p (print_err l q) = releases p q"
  by (simp_all add: releases_def print_out_def print_err_def)

lemma releases_bracket:
  assumes "releases (log_resource (Acquire r) p) p'"
  shows "releases p (log_resource (Release r) p')"
proof -
  obtain l where "resource_log p' = resource_log p @ [Acquire r] @ l" "\<forall>st. nested l st = Some st"
    using assms by (auto simp: releases_def log_resource_def)
  then have "resource_log (log_resource (Release r) p') = resource_log p @ ([Acquire r] @ l @ [Release r])"
    "nested ([Acquire r] @ l @ [Release r]) st = Some st" for st
    by (simp_all add: log_resource_def nested_append)
  then show ?thesis unfolding releases_def by blast
qed

text \<open>At the same time the worlds are in order.\<close>

definition settles :: "('w \<Rightarrow> 'w \<Rightarrow> bool) \<Rightarrow> 'w probe \<Rightarrow> 'w probe \<Rightarrow> bool" where
  "settles le p p' \<longleftrightarrow> le\<^sup>*\<^sup>* (probe_world p) (probe_world p') \<and> releases p p'"

definition returns_settled :: "('w \<Rightarrow> 'w \<Rightarrow> bool) \<Rightarrow> 'w probe \<Rightarrow> 'a run \<times> 'w probe \<Rightarrow> bool" where
  "returns_settled le p c \<longleftrightarrow> (\<exists>x p'. c = (Returned x, p') \<and> settles le p p')"

lemma settles_releases: "settles le p p' \<Longrightarrow> releases p p'"
  by (simp add: settles_def)

lemma settles_refl [simp]: "settles le p p"
  by (simp add: settles_def)

lemma settles_trans [trans]: "settles le p q \<Longrightarrow> settles le q r \<Longrightarrow> settles le p r"
  by (auto simp: settles_def intro: releases_trans)

lemma settles_world:
  "le\<^sup>*\<^sup>* (probe_world p) (probe_world p') \<Longrightarrow> resource_log p' = resource_log p \<Longrightarrow> settles le p p'"
  by (simp add: settles_def releases_same)

lemma settles_print [simp]:
  "settles le p (print_out ls q) = settles le p q" "settles le p (print_err l q) = settles le p q"
  by (simp_all add: settles_def) (simp_all add: print_out_def print_err_def)

lemma settles_bracket: "settles le (log_resource (Acquire r) p) p' \<Longrightarrow> settles le p (log_resource (Release r) p')"
  by (simp add: settles_def releases_bracket) (simp add: log_resource_def)

lemma returns_settled_next:
  assumes "returns_settled le p c" and "\<And>x p'. settles le p p' \<Longrightarrow> returns_settled le p' (k x p')"
  shows "returns_settled le p (and_next c k)"
  using assms unfolding returns_settled_def by (metis and_next_simps(1) settles_trans)

lemma those_defined: "(\<forall>x \<in> set xs. x \<noteq> None) \<Longrightarrow> those xs \<noteq> None"
  by (induction xs) auto

lemma each_defined:
  assumes "n \<le> length xs" and "\<And>x. x \<in> set xs \<Longrightarrow> f x \<noteq> None"
  shows "each n xs f \<noteq> None"
proof -
  have "those (map (\<lambda>i. if i < length xs then f (xs ! i) else None) [0..<n]) \<noteq> None"
    using assms by (intro those_defined) auto
  then show ?thesis by (simp add: each_def)
qed

lemma config_lines_defined:
  assumes "wf_config c"
  shows "config_lines index c \<noteq> None"
proof -
  have alt: "alternate_lines a \<noteq> None" if "wf_alternate a" for a
    using that each_defined [of "unat (b_num_endpoints a)" "endpoint_array a" "\<lambda>e. Some [print_endpoint e]"]
    by (simp add: alternate_lines_def wf_alternate_def)
  have "each (nat (num_altsetting i)) (altsetting_array i) alternate_lines \<noteq> None"
    if "i \<in> set (interface_array c)" for i
    by (rule each_defined) (use that assms alt in \<open>auto simp: wf_config_def\<close>)
  then have "each (unat (b_num_interfaces c)) (interface_array c)
      (\<lambda>i. each (nat (num_altsetting i)) (altsetting_array i) alternate_lines) \<noteq> None"
    using assms by (intro each_defined [of _ "interface_array c"]) (simp_all add: wf_config_def)
  then show ?thesis by (simp add: config_lines_def)
qed

text \<open>The operations of the tool under the promises of libusb.\<close>

lemma print_failure_settles:
  assumes "calls_keep lib le"
  shows "settles le p (print_failure lib s code p)"
proof -
  obtain name w where e: "libusb_error_name lib code (probe_world p) = (name, w)" by (metis prod.exhaust)
  then have "le\<^sup>*\<^sup>* (probe_world p) w" using assms unfolding calls_keep_def by (metis r_into_rtranclp snd_conv)
  then show ?thesis
    by (cases name) (simp_all add: print_failure_def c_error_name_def e settles_world)
qed

lemma print_config_settles:
  assumes "probe_contract lib" and "calls_keep lib le"
  shows "returns_settled le p (print_config lib d i p)"
proof -
  obtain r ptr c w where get: "libusb_get_config_descriptor lib d (of_nat i) (probe_world p) = ((r, ptr, c), w)"
    by (metis prod.exhaust)
  have later: "settles le p (p\<lparr>probe_world := w\<rparr>)"
    using assms(2) get unfolding calls_keep_def by (intro settles_world) (simp_all, metis r_into_rtranclp snd_conv)
  show ?thesis
  proof (cases "r = 0")
    case True
    then have "wf_config c" using assms(1) get unfolding probe_contract_def by (metis fst_conv snd_conv)
    then obtain ls where ls: "config_lines i c = Some ls" using config_lines_defined by blast
    let ?q = "log_resource (Acquire (Config_Res ptr)) (p\<lparr>probe_world := w\<rparr>)"
    have "le\<^sup>*\<^sup>* w (libusb_free_config_descriptor lib ptr w)"
      using assms(2) by (simp add: calls_keep_def r_into_rtranclp)
    then have "settles le ?q ((print_out ls ?q)\<lparr>probe_world := libusb_free_config_descriptor lib ptr w\<rparr>)"
      by (intro settles_world) (simp_all add: print_out_def log_resource_def)
    from settles_trans [OF later settles_bracket [OF this]] show ?thesis
      using True by (simp add: print_config_def get ls returns_settled_def LIBUSB_SUCCESS_def print_out_def log_resource_def)
  next
    case False
    then show ?thesis
      using settles_trans [OF later print_failure_settles [OF assms(2)]]
      by (simp add: print_config_def get returns_settled_def LIBUSB_SUCCESS_def)
  qed
qed

lemma print_configs_settles:
  assumes "probe_contract lib" and "calls_keep lib le"
  shows "returns_settled le p (print_configs lib d is p)"
proof (induction "is" arbitrary: p)
  case Nil
  then show ?case by (simp add: returns_settled_def)
next
  case (Cons i "is")
  then show ?case
    by (simp only: print_configs.simps) (rule returns_settled_next [OF print_config_settles [OF assms]])
qed

lemma returns_settled_from:
  "settles le p q \<Longrightarrow> returns_settled le q c \<Longrightarrow> returns_settled le p c"
  unfolding returns_settled_def by (metis settles_trans)

lemma print_device_settles:
  assumes "probe_contract lib" and "calls_keep lib le"
  shows "returns_settled le p (print_device lib d event p)"
proof -
  obtain r desc w where get: "libusb_get_device_descriptor lib d (probe_world p) = ((r, desc), w)" by (metis prod.exhaust)
  obtain b w1 where bus: "libusb_get_bus_number lib d w = (b, w1)" by (metis prod.exhaust)
  obtain a w2 where addr: "libusb_get_device_address lib d w1 = (a, w2)" by (metis prod.exhaust)
  have t: "le (probe_world p) w" "le w w1" "le w1 w2"
    using assms(2) get bus addr unfolding calls_keep_def by (metis snd_conv)+
  then have "le\<^sup>*\<^sup>* (probe_world p) w2" by (meson rtranclp.rtrancl_into_rtrancl r_into_rtranclp)
  have first: "settles le p (p\<lparr>probe_world := w\<rparr>)" using t(1) by (intro settles_world) simp_all
  have last: "settles le p (print_out ls (p\<lparr>probe_world := w2\<rparr>))" for ls
    using \<open>le\<^sup>*\<^sup>* (probe_world p) w2\<close> by (simp add: settles_world)
  show ?thesis
  proof (cases "r = LIBUSB_SUCCESS \<and> \<not> (id_vendor desc \<noteq> 0x090c \<or> id_product desc \<noteq> 0x0768)")
    case True
    then show ?thesis
      using returns_settled_from [OF last print_configs_settles [OF assms]]
      by (simp add: print_device_def get bus addr)
  next
    case False
    then show ?thesis
      using first settles_trans [OF first print_failure_settles [OF assms(2)]]
      by (auto simp: print_device_def get returns_settled_def Let_def)
  qed
qed

lemma print_list_settles:
  assumes "probe_contract lib" and "calls_keep lib le" and "\<forall>i \<in> set is. i < length devices"
  shows "returns_settled le p (print_list lib (map Some devices) is p)"
  using assms(3)
proof (induction "is" arbitrary: p)
  case Nil
  then show ?case by (simp add: returns_settled_def)
next
  case (Cons i "is")
  then have "get_at (map Some devices) i = Some (Some (devices ! i))" by (simp add: get_at_def)
  moreover have "returns_settled le p
      (and_next (print_device lib (devices ! i) ''present'' p) (\<lambda>_ p. print_list lib (map Some devices) is p))"
    using Cons by (intro returns_settled_next [OF print_device_settles [OF assms(1,2)]]) simp
  ultimately show ?case by simp
qed

lemma deliver_events_settles:
  assumes "probe_contract lib" and "calls_keep lib le"
  shows "returns_settled le p (deliver_events lib es p)"
proof (induction es arbitrary: p)
  case Nil
  then show ?case by (simp add: returns_settled_def)
next
  case (Cons e es)
  have "returns_settled le p (probe_callback lib e p)"
    using print_device_settles [OF assms] by (simp add: probe_callback_def case_prod_beta)
  from returns_settled_next [OF this Cons.IH] show ?case by simp
qed

lemma print_failure_releases: "releases p (print_failure lib s code p)"
  by (rule settles_releases [OF print_failure_settles [OF calls_keep_trivial]])

lemma enumerate_releases:
  assumes "probe_contract lib"
  shows "\<exists>status p'. enumerate_devices lib ctxt p = (Returned status, p') \<and> status \<in> {0, 1} \<and> releases p p'"
proof -
  obtain count raw w where get: "libusb_get_device_list lib ctxt (probe_world p) = ((count, raw), w)" by (metis prod.exhaust)
  show ?thesis
  proof (cases "count < 0")
    case True
    then show ?thesis
      using print_failure_releases [of "p\<lparr>probe_world := w\<rparr>"] by (simp add: enumerate_devices_def get)
  next
    case False
    then obtain l devices where raw: "raw = Some (l, map Some devices)" "count \<le> int (length devices)"
      using assms get unfolding probe_contract_def by (metis fst_conv linorder_not_less snd_conv)
    let ?p = "log_resource (Acquire (List_Res l)) (p\<lparr>probe_world := w\<rparr>)"
    have "returns_settled (\<lambda>_ _. True) ?p (print_list lib (map Some devices) [0..<nat count] ?p)"
      using raw(2) by (intro print_list_settles [OF assms calls_keep_trivial]) auto
    then obtain q where "print_list lib (map Some devices) [0..<nat count] ?p = (Returned (), q)" "releases ?p q"
      by (auto simp: returns_settled_def dest: settles_releases)
    then show ?thesis
      using False releases_bracket [of "List_Res l" "p\<lparr>probe_world := w\<rparr>"
          "q\<lparr>probe_world := libusb_free_device_list lib l 1 (probe_world q)\<rparr>"]
      by (simp add: enumerate_devices_def get raw)
  qed
qed

text \<open>One turn releases what it acquires, and it passes time if it goes on.\<close>

lemma watch_turn_cases:
  assumes "probe_contract lib"
  obtains r p' where "watch_turn lib ctxt deadline result p = Watch_Leave r p'" "releases p p'"
  | r p' where "watch_turn lib ctxt deadline result p = Watch_Next r p'" "releases p p'"
      "\<And>elapsed pending slack. probe_clock lib elapsed pending slack \<Longrightarrow>
         time_passed elapsed pending (probe_world p) (probe_world p')
         \<and> int (elapsed (probe_world p)) < 1000000 * deadline + slack"
proof -
  obtain stop w1 where stop: "probe_stop_flag lib (probe_world p) = (stop, w1)" by (metis prod.exhaust)
  obtain now w2 where now: "probe_time lib w1 = (now, w2)" by (metis prod.exhaust)
  obtain r es w3 where ev: "probe_handle_events lib ctxt 250000 w2 = ((r, es), w3)" by (metis prod.exhaust)
  obtain q where q: "deliver_events lib es (p\<lparr>probe_world := w3\<rparr>) = (Returned (), q)"
    using deliver_events_settles [OF assms calls_keep_trivial, of "p\<lparr>probe_world := w3\<rparr>" es]
    by (auto simp: returns_settled_def)
  have settled: "settles le (p\<lparr>probe_world := w3\<rparr>) q" if "calls_keep lib le" for le
    using deliver_events_settles [OF assms that, of "p\<lparr>probe_world := w3\<rparr>" es] by (simp add: returns_settled_def q)
  have rel: "releases p q" using settles_releases [OF settled [OF calls_keep_trivial]] by simp
  have failed: "releases p (print_failure lib s code q)" for s code
    using releases_trans [OF rel print_failure_releases] .
  have passed: "time_passed elapsed pending (probe_world p) (probe_world q)
      \<and> int (elapsed (probe_world p)) < 1000000 * deadline + slack"
    if clock: "probe_clock lib elapsed pending slack" and "now < deadline" for elapsed pending slack
  proof -
    let ?le = "time_kept elapsed pending"
    have keep: "calls_keep lib ?le" using clock by (simp add: probe_clock_def)
    have t: "?le (probe_world p) w1" "?le w1 w2" "time_passed elapsed pending w2 w3"
      "int (elapsed w1) \<le> 1000000 * now + slack"
      using clock keep stop now ev unfolding probe_clock_def calls_keep_def by (metis snd_conv fst_conv)+
    have "?le w3 (probe_world q)" using settled [OF keep] by (simp add: settles_def)
    from time_passed_around [OF time_kept_preorder(2) [OF t(1,2)] t(3) this] time_kept_elapsed [OF t(1)] t(4) that(2)
    show ?thesis by simp
  qed
  show ?thesis
  proof (cases "stop \<or> \<not> now < deadline \<or> r \<noteq> LIBUSB_SUCCESS \<and> r \<noteq> LIBUSB_ERROR_INTERRUPTED")
    case True
    then show ?thesis
      using that(1) rel failed by (cases stop; cases "now < deadline") (auto simp: watch_turn_def stop now ev q)
  next
    case False
    then show ?thesis using that(2) [OF _ rel passed] by (simp add: watch_turn_def stop now ev q)
  qed
qed

lemma watch_loop_releases:
  assumes "probe_contract lib" and "watch_loop lib ctxt deadline result p = Some y"
  shows "\<exists>r p'. y = (Returned r, p') \<and> releases p p'"
proof -
  have "probe_contract lib \<longrightarrow> (\<exists>r p'. y = (Returned r, p') \<and> releases p p')"
    using assms(2)
  proof (rule watch_loop.raw_induct [where P = "\<lambda>lib ctxt deadline result p y.
        probe_contract lib \<longrightarrow> (\<exists>r p'. y = (Returned r, p') \<and> releases p p')", rotated], goal_cases)
    case (1 loop lib ctxt deadline result p y)
    show ?case
    proof
      assume contract: "probe_contract lib"
      then show "\<exists>r p'. y = (Returned r, p') \<and> releases p p'"
      proof (cases rule: watch_turn_cases [of lib ctxt deadline result p])
        case (2 r p')
        with 1(1) [of lib ctxt deadline r p' y] 1(2) contract show ?thesis by (auto intro: releases_trans)
      qed (use 1(2) in auto)
    qed
  qed
  with assms(1) show ?thesis by blast
qed

lemma watch_loop_returns:
  assumes "probe_contract lib" and "probe_clock lib elapsed pending slack"
  shows "watch_loop lib ctxt deadline result p \<noteq> None"
proof (induction "probe_world p" arbitrary: p result
    rule: wf_induct_rule [OF wf_time_passed [of elapsed pending "1000000 * deadline + slack"]])
  case 1
  show ?case
  proof (cases rule: watch_turn_cases [OF assms(1), of ctxt deadline result p])
    case (1 r p')
    then show ?thesis by (simp add: watch_loop.simps)
  next
    case (2 r p')
    from 2(3) [OF assms(2)] have "watch_loop lib ctxt deadline r p' \<noteq> None" by (intro "1.hyps") auto
    with 2(1) show ?thesis by (simp add: watch_loop.simps)
  qed
qed

lemma watch_devices_releases:
  assumes "probe_contract lib" and "watch_devices lib ctxt seconds p = Some y"
  shows "\<exists>status p'. y = (Returned status, p') \<and> status \<in> {0, 1} \<and> releases p p'"
proof -
  let ?w = "probe_signal lib 15 (probe_signal lib 2 (probe_world p))"
  obtain r w1 where reg: "probe_register lib ctxt ?w = (r, w1)" by (metis prod.exhaust)
  obtain now w2 where now: "probe_time lib w1 = (now, w2)" by (metis prod.exhaust)
  show ?thesis
  proof (cases "r = LIBUSB_SUCCESS")
    case True
    let ?p = "log_resource (Acquire Hotplug_Res) (p\<lparr>probe_world := w1\<rparr>)"
    obtain z where z: "watch_loop lib ctxt (now + seconds) r (?p\<lparr>probe_world := w2\<rparr>) = Some z"
      using assms(2) True by (auto simp: watch_devices_def reg now log_resource_def bind_eq_Some_conv)
    from watch_loop_releases [OF assms(1) this] obtain x q where loop: "z = (Returned x, q)" "releases ?p q" by auto
    with True z assms(2) show ?thesis
      using releases_bracket [of Hotplug_Res "p\<lparr>probe_world := w1\<rparr>"
          "q\<lparr>probe_world := probe_deregister lib ctxt (probe_world q)\<rparr>"]
      by (auto simp: watch_devices_def reg now log_resource_def)
  next
    case False
    then show ?thesis
      using print_failure_releases [of "p\<lparr>probe_world := w1\<rparr>" lib] assms(2) by (auto simp: watch_devices_def reg)
  qed
qed

lemma watch_devices_returns:
  assumes "probe_contract lib" and "probe_clock lib elapsed pending slack"
  shows "watch_devices lib ctxt seconds p \<noteq> None"
  using watch_loop_returns [OF assms]
  by (simp add: watch_devices_def Let_def bind_eq_None_conv split: prod.split del: not_None_eq)

section \<open>A libusb for the witness\<close>

definition sample_config :: config_descriptor where
  "sample_config = \<lparr>b_configuration_value = 1, b_num_interfaces = 1, config_attributes = 0x80, max_power = 250,
     interface_array = [\<lparr>num_altsetting = 1, altsetting_array =
       [\<lparr>b_interface_number = 0, b_alternate_setting = 0, b_interface_class = 255, b_interface_sub_class = 0,
         b_interface_protocol = 0, b_num_endpoints = 1, endpoint_array =
           [\<lparr>b_endpoint_address = 0x81, bm_attributes = 3, w_max_packet_size = 64, b_interval = 4\<rparr>]\<rparr>]\<rparr>]\<rparr>"

text \<open>The world is the time in microseconds; every wait for events lasts a little longer than its timeout.\<close>

definition sample_probe_lib :: "nat probe_libusb" where
  "sample_probe_lib =
     \<lparr>libusb_init = (\<lambda>w. ((0, Some 7), w)), libusb_exit = (\<lambda>h w. w),
      libusb_get_device_list = (\<lambda>h w. ((1, Some (5, map Some [10])), w)), libusb_free_device_list = (\<lambda>l u w. w),
      libusb_get_device_descriptor = (\<lambda>d w. ((0, view_descriptor (stub_view d)), w)),
      libusb_get_bus_number = (\<lambda>d w. (4, w)), libusb_get_device_address = (\<lambda>d w. (9, w)),
      libusb_get_port_number = (\<lambda>d w. (2, w)), libusb_get_device_speed = (\<lambda>d w. (4, w)),
      libusb_error_name = (\<lambda>e w. (None, w)),
      libusb_get_config_descriptor = (\<lambda>d i w. ((0, 3, sample_config), w)),
      libusb_free_config_descriptor = (\<lambda>q w. w), probe_signal = (\<lambda>s w. w), probe_register = (\<lambda>h w. (0, w)),
      probe_deregister = (\<lambda>h w. w), probe_stop_flag = (\<lambda>w. (False, w)), probe_time = (\<lambda>w. (int (w div 1000000), w)),
      probe_handle_events = (\<lambda>h t w. ((0, [(10, 2)]), w + Suc (nat t)))\<rparr>"

lemma sample_probe_ok: "probe_contract sample_probe_lib" "probe_clock sample_probe_lib (\<lambda>w. w) (\<lambda>w. 0) 1000000"
proof -
  have "\<exists>devices. [Some 10] = map Some devices \<and> (1 :: int) \<le> int (length devices)" by (rule exI [of _ "[10]"]) simp
  then show "probe_contract sample_probe_lib"
    by (simp add: probe_contract_def sample_probe_lib_def sample_config_def wf_config_def wf_alternate_def)
  have "int w \<le> 1000000 * int (w div 1000000) + 1000000" for w :: nat by linarith
  then show "probe_clock sample_probe_lib (\<lambda>w. w) (\<lambda>w. 0) 1000000"
    by (simp add: probe_clock_def calls_keep_def sample_probe_lib_def time_kept_def time_passed_def)
qed

section \<open>Properties\<close>

lemma probe_main_releases:
  assumes "probe_contract lib" and "probe_options argv = Inr seconds" and "probe_main lib argv p = Some y"
  shows "\<exists>status p'. y = (Returned status, p') \<and> status \<in> {0, 1} \<and> releases p p'"
proof -
  obtain r ctxt w where init: "libusb_init lib (probe_world p) = ((r, ctxt), w)" by (metis prod.exhaust)
  show ?thesis
  proof (cases "r = LIBUSB_SUCCESS")
    case True
    then obtain h where h: "ctxt = Some h"
      using assms(1) init unfolding probe_contract_def LIBUSB_SUCCESS_def by (metis fst_conv not_None_eq snd_conv)
    let ?p = "log_resource (Acquire Context_Res) (p\<lparr>probe_world := w\<rparr>)"
    obtain x q where enum: "enumerate_devices lib h ?p = (Returned x, q)" "x \<in> {0, 1}" "releases ?p q"
      using enumerate_releases [OF assms(1), of h ?p] by blast
    have close: "releases p (log_resource (Release Context_Res) (q'\<lparr>probe_world := w'\<rparr>))" if "releases ?p q'" for q' w'
      using releases_bracket [of Context_Res "p\<lparr>probe_world := w\<rparr>" "q'\<lparr>probe_world := w'\<rparr>"] that by simp
    show ?thesis
    proof (cases "x \<noteq> 0 \<or> seconds = 0")
      case stop: True
      then show ?thesis
        using True close [OF enum(3)] enum(2) assms(3)
        by (auto simp: probe_main_def assms(2) init h enum(1) close_context_def)
    next
      case False
      then obtain z where z: "watch_devices lib h seconds q = Some z" "y = close_context lib h z"
        using True assms(3) by (auto simp: probe_main_def assms(2) init h enum(1))
      from watch_devices_releases [OF assms(1) z(1)] obtain status q' where
        "z = (Returned status, q')" "status \<in> {0, 1}" "releases q q'" by blast
      with z(2) close [OF releases_trans [OF enum(3)]] show ?thesis by (simp add: close_context_def)
    qed
  next
    case False
    then show ?thesis
      using print_failure_releases [of "p\<lparr>probe_world := w\<rparr>" lib] assms(3)
      by (auto simp: probe_main_def assms(2) init)
  qed
qed

lemma probe_main_returns:
  assumes "probe_contract lib" and "probe_options argv = Inr 0 \<or> probe_clock lib elapsed pending slack"
  shows "probe_main lib argv p \<noteq> None"
proof -
  have "watch_devices lib ctxt seconds q \<noteq> None" if "probe_options argv = Inr seconds" "seconds \<noteq> 0" for ctxt seconds q
    using watch_devices_returns [OF assms(1)] assms(2) that by auto
  then show ?thesis
    by (auto simp: probe_main_def Let_def simp del: not_None_eq split: sum.split prod.split option.split)
qed

text \<open>C34: the probe cleans up and ends. With a libusb that keeps its promises, and whatever the clock does, a
  run that ends has status 0, 1 or 2, has read no descriptor array past its end, and has released everything
  it acquired (context, device list, every configuration descriptor, the hotplug registration) exactly once and in
  the reverse order, also when calls of libusb fail; status 2 is for arguments it does not
  understand, for which it calls nothing. It does end: always when it is not asked to watch, and when it watches
  provided that time passes. The system clock counts whole seconds and may be set back while the probe
  watches, and waiting for events may return early.\<close>

theorem probe_ends:
  assumes "probe_contract lib"
  shows "(\<forall>y. probe_main lib argv p = Some y \<longrightarrow>
      (\<exists>status p'. y = (Returned status, p') \<and> status \<in> {0, 1, 2}
        \<and> (\<exists>log. resource_log p' = resource_log p @ log \<and> nested log [] = Some [])
        \<and> (status = 2 \<longleftrightarrow> (\<exists>message. probe_options argv = Inl message))
        \<and> (status = 2 \<longrightarrow> probe_world p' = probe_world p \<and> resource_log p' = resource_log p)))
    \<and> ((\<exists>message. probe_options argv = Inl message) \<or> probe_options argv = Inr 0
        \<or> probe_clock lib elapsed pending slack \<longrightarrow> probe_main lib argv p \<noteq> None)"
proof (cases "probe_options argv")
  case (Inl message)
  then show ?thesis by (simp add: probe_main_def print_err_def)
next
  case (Inr seconds)
  then show ?thesis
    using probe_main_releases [OF assms Inr, of p] probe_main_returns [OF assms, of argv elapsed pending slack p]
    by (fastforce simp: releases_def)
qed

theorem probe_ends_witness:
  "\<exists>status p'. probe_main sample_probe_lib [''smiusb-probe'', ''--watch'', ''2'']
      \<lparr>out_lines = [], err_lines = [], resource_log = [], probe_world = 0\<rparr> = Some (Returned status, p')
    \<and> nested (resource_log p') [] = Some []"
  using probe_ends [OF sample_probe_ok(1), of "[''smiusb-probe'', ''--watch'', ''2'']"
      "\<lparr>out_lines = [], err_lines = [], resource_log = [], probe_world = 0\<rparr>" "\<lambda>w. w" "\<lambda>w. 0" 1000000]
    sample_probe_ok(2)
  by fastforce

end
