(* ===== verification/Evdi_Vmap.thy ===== *)
theory Evdi_Vmap
  imports "HOL-Library.Multiset"
begin

text \<open>
  The patch of the EVDI kernel module,
  \<open>src/kernel/evdi/patches/0001-serialize-persistent-vmap.patch\<close>. It puts the persistent kernel mapping of
  a GEM object (a graphics buffer) under a mutex: \<open>evdi_gem_vmap\<close>, \<open>evdi_gem_vunmap\<close> and their callers. An
  object is either imported from another driver, and then mapped through its dma-buf, or local, and
  then its pages are pinned and mapped. The kernel functions are outside: whether a call succeeds and
  what address it gives is arbitrary, and what an object has taken from the kernel is counted. A
  release that was never taken is misuse, after which the count is \<open>None\<close>.

  Threads interleave at every access to the object. The property is that the count is always what the
  object and the thread inside the mutex account for, so that nothing is left when the object is freed;
  a second model, of the lines that the patch removes, has an interleaving that leaves one reference,
  which is the remainder seen in the kernel panic described in \<open>src/docs/kernel-panic-2026-09-02.md\<close>.

  The patch shows changed passages with three lines around them. Two lines of the local branch of
  \<open>evdi_gem_vunmap\<close> are not shown and are the parameter \<open>hidden\<close>: from the address of the mapping, the
  calls they make and the value they leave in \<open>vmapping\<close>. Of the variants for older and newer kernels
  the one whose call is shown is modelled. A call that succeeds gives an address other than NULL.
\<close>

section \<open>Model: what an object takes from the kernel\<close>

datatype kernel_call =
    Dma_Buf_Vmap nat
  | Dma_Buf_Vunmap nat
  | Pin_Pages
  | Unpin_Pages
  | Vmap nat
  | Vunmap nat

record kernel_use =
  dma_maps :: "nat multiset"
  pin_count :: nat
  local_maps :: "nat multiset"

definition nothing_used :: kernel_use where
  "nothing_used = \<lparr>dma_maps = {#}, pin_count = 0, local_maps = {#}\<rparr>"

fun account :: "kernel_call \<Rightarrow> kernel_use \<Rightarrow> kernel_use option" where
  "account (Dma_Buf_Vmap a) u = Some (u\<lparr>dma_maps := add_mset a (dma_maps u)\<rparr>)"
| "account (Dma_Buf_Vunmap a) u =
     (if a \<in># dma_maps u then Some (u\<lparr>dma_maps := dma_maps u - {#a#}\<rparr>) else None)"
| "account Pin_Pages u = Some (u\<lparr>pin_count := pin_count u + 1\<rparr>)"
| "account Unpin_Pages u = (if 0 < pin_count u then Some (u\<lparr>pin_count := pin_count u - 1\<rparr>) else None)"
| "account (Vmap a) u = Some (u\<lparr>local_maps := add_mset a (local_maps u)\<rparr>)"
| "account (Vunmap a) u =
     (if a \<in># local_maps u then Some (u\<lparr>local_maps := local_maps u - {#a#}\<rparr>) else None)"

definition account_all :: "kernel_call list \<Rightarrow> kernel_use option \<Rightarrow> kernel_use option" where
  "account_all cs u = foldl (\<lambda>u c. Option.bind u (account c)) u cs"

section \<open>Model: the patched functions\<close>

definition ENOMEM :: int where "ENOMEM = 12"
definition EFAULT :: int where "EFAULT = 14"

datatype evdi_op = Gem_Vmap | Gem_Vunmap

text \<open>
  Where a thread is: outside; before \<open>mutex_lock\<close>; behind it; in \<open>evdi_gem_vmap\<close> before the first kernel
  call, with the pages pinned, and with an address to store; in \<open>evdi_gem_vunmap\<close> with the dma-buf released and
  the field still set, and before the pages are unpinned; and at \<open>out_unlock\<close> with the result.
\<close>

datatype evdi_pc =
    Outside
  | Entering evdi_op
  | Inside evdi_op
  | Calling
  | Pinned
  | Storing nat
  | Clearing
  | Unpinning
  | Leaving evdi_op int

record gem_object =
  use_import_attach :: bool
  vmapping :: "nat option"
  vmap_lock :: "nat option"
  freed_by :: "nat option"
  evdi_pcs :: "nat \<Rightarrow> evdi_pc"
  kernel_used :: "kernel_use option"

definition new_object :: "bool \<Rightarrow> gem_object" where
  "new_object imported = \<lparr>use_import_attach = imported, vmapping = None, vmap_lock = None, freed_by = None,
     evdi_pcs = (\<lambda>t. Outside), kernel_used = Some nothing_used\<rparr>"

abbreviation go :: "nat \<Rightarrow> evdi_pc \<Rightarrow> gem_object \<Rightarrow> gem_object" where
  "go t pc ob \<equiv> ob\<lparr>evdi_pcs := (evdi_pcs ob)(t := pc)\<rparr>"

abbreviation call_kernel :: "kernel_call list \<Rightarrow> gem_object \<Rightarrow> gem_object" where
  "call_kernel cs ob \<equiv> ob\<lparr>kernel_used := account_all cs (kernel_used ob)\<rparr>"

text \<open>
  \<open>use\<close> is a call of \<open>evdi_gem_vmap\<close> from the cursor or the painter, or of \<open>evdi_gem_vunmap\<close>. The object
  is freed when no thread uses it any more, which is what its reference count means; from then on only
  the unmapping of \<open>evdi_gem_free_object\<close> runs.
\<close>

inductive evdi_step :: "(nat \<Rightarrow> kernel_call list \<times> nat option) \<Rightarrow> nat \<Rightarrow> gem_object \<Rightarrow> gem_object \<Rightarrow> bool"
  for hidden t where
  use: "evdi_pcs ob t = Outside \<Longrightarrow> freed_by ob = None \<Longrightarrow> evdi_step hidden t ob (go t (Entering op) ob)"
| free_object: "(\<And>s. evdi_pcs ob s = Outside) \<Longrightarrow> freed_by ob = None \<Longrightarrow>
    evdi_step hidden t ob (go t (Entering Gem_Vunmap) (ob\<lparr>freed_by := Some t\<rparr>))"
| mutex_lock: "evdi_pcs ob t = Entering op \<Longrightarrow> vmap_lock ob = None \<Longrightarrow>
    evdi_step hidden t ob (go t (Inside op) (ob\<lparr>vmap_lock := Some t\<rparr>))"
| mapped: "evdi_pcs ob t = Inside Gem_Vmap \<Longrightarrow> vmapping ob \<noteq> None \<Longrightarrow>
    evdi_step hidden t ob (go t (Leaving Gem_Vmap 0) ob)"
| not_mapped: "evdi_pcs ob t = Inside Gem_Vmap \<Longrightarrow> vmapping ob = None \<Longrightarrow>
    evdi_step hidden t ob (go t Calling ob)"
| import_fails: "evdi_pcs ob t = Calling \<Longrightarrow> use_import_attach ob \<Longrightarrow>
    evdi_step hidden t ob (go t (Leaving Gem_Vmap (- ENOMEM)) ob)"
| import_maps: "evdi_pcs ob t = Calling \<Longrightarrow> use_import_attach ob \<Longrightarrow>
    evdi_step hidden t ob (go t (Storing a) (call_kernel [Dma_Buf_Vmap a] ob))"
| pin_fails: "evdi_pcs ob t = Calling \<Longrightarrow> \<not> use_import_attach ob \<Longrightarrow> ret \<noteq> 0 \<Longrightarrow>
    evdi_step hidden t ob (go t (Leaving Gem_Vmap ret) ob)"
| pins: "evdi_pcs ob t = Calling \<Longrightarrow> \<not> use_import_attach ob \<Longrightarrow>
    evdi_step hidden t ob (go t Pinned (call_kernel [Pin_Pages] ob))"
| vmap_fails: "evdi_pcs ob t = Pinned \<Longrightarrow>
    evdi_step hidden t ob (go t (Leaving Gem_Vmap (- ENOMEM)) (call_kernel [Unpin_Pages] (ob\<lparr>vmapping := None\<rparr>)))"
| vmap_maps: "evdi_pcs ob t = Pinned \<Longrightarrow>
    evdi_step hidden t ob (go t (Storing a) (call_kernel [Vmap a] ob))"
| store: "evdi_pcs ob t = Storing a \<Longrightarrow>
    evdi_step hidden t ob (go t (Leaving Gem_Vmap 0) (ob\<lparr>vmapping := Some a\<rparr>))"
| nothing_mapped: "evdi_pcs ob t = Inside Gem_Vunmap \<Longrightarrow> vmapping ob = None \<Longrightarrow>
    evdi_step hidden t ob (go t (Leaving Gem_Vunmap 0) ob)"
| import_unmaps: "evdi_pcs ob t = Inside Gem_Vunmap \<Longrightarrow> vmapping ob = Some a \<Longrightarrow> use_import_attach ob \<Longrightarrow>
    evdi_step hidden t ob (go t Clearing (call_kernel [Dma_Buf_Vunmap a] ob))"
| clear: "evdi_pcs ob t = Clearing \<Longrightarrow>
    evdi_step hidden t ob (go t (Leaving Gem_Vunmap 0) (ob\<lparr>vmapping := None\<rparr>))"
| local_unmaps: "evdi_pcs ob t = Inside Gem_Vunmap \<Longrightarrow> vmapping ob = Some a \<Longrightarrow> \<not> use_import_attach ob \<Longrightarrow>
    hidden a = (cs, v) \<Longrightarrow>
    evdi_step hidden t ob (go t Unpinning (call_kernel cs (ob\<lparr>vmapping := v\<rparr>)))"
| unpin: "evdi_pcs ob t = Unpinning \<Longrightarrow>
    evdi_step hidden t ob (go t (Leaving Gem_Vunmap 0) (call_kernel [Unpin_Pages] ob))"
| mutex_unlock: "evdi_pcs ob t = Leaving op ret \<Longrightarrow>
    evdi_step hidden t ob (go t Outside (ob\<lparr>vmap_lock := None\<rparr>))"

inductive evdi_reachable :: "(nat \<Rightarrow> kernel_call list \<times> nat option) \<Rightarrow> bool \<Rightarrow> gem_object \<Rightarrow> bool"
  for hidden imported where
  created: "evdi_reachable hidden imported (new_object imported)"
| further: "evdi_reachable hidden imported ob \<Longrightarrow> evdi_step hidden t ob ob' \<Longrightarrow> evdi_reachable hidden imported ob'"

inductive_cases evdi_step_cases: "evdi_step hidden t ob ob'"

text \<open>What \<open>evdi_painter_grabpix_ioctl\<close> makes of the result.\<close>

definition grabpix_mapping :: "int \<Rightarrow> int" where
  "grabpix_mapping ret = (if ret \<noteq> 0 then - EFAULT else 0)"

section \<open>Model: the functions before the patch\<close>

text \<open>
  The lines the patch removes: the callers look at \<open>vmapping\<close> and call \<open>evdi_gem_vmap\<close> when it is NULL, which
  maps and stores without a look at the field; a failed \<open>vmap\<close> returns with the pages pinned; freeing
  unmaps once if there is a mapping. \<open>Entering Gem_Vmap\<close> is a caller before its look. A thread that frees runs alone,
  so the unmapping is one step.
\<close>

definition old_unmap :: "(nat \<Rightarrow> kernel_call list \<times> nat option) \<Rightarrow> gem_object \<Rightarrow> gem_object" where
  "old_unmap hidden ob =
     (case vmapping ob of
        None \<Rightarrow> ob
      | Some a \<Rightarrow>
          if use_import_attach ob then call_kernel [Dma_Buf_Vunmap a] (ob\<lparr>vmapping := None\<rparr>)
          else case hidden a of (cs, v) \<Rightarrow> call_kernel (cs @ [Unpin_Pages]) (ob\<lparr>vmapping := v\<rparr>))"

inductive old_step :: "(nat \<Rightarrow> kernel_call list \<times> nat option) \<Rightarrow> nat \<Rightarrow> gem_object \<Rightarrow> gem_object \<Rightarrow> bool"
  for hidden t where
  old_use: "evdi_pcs ob t = Outside \<Longrightarrow> freed_by ob = None \<Longrightarrow>
    old_step hidden t ob (go t (Entering Gem_Vmap) ob)"
| old_mapped: "evdi_pcs ob t = Entering Gem_Vmap \<Longrightarrow> vmapping ob \<noteq> None \<Longrightarrow> old_step hidden t ob (go t Outside ob)"
| old_not_mapped: "evdi_pcs ob t = Entering Gem_Vmap \<Longrightarrow> vmapping ob = None \<Longrightarrow> old_step hidden t ob (go t Calling ob)"
| old_import_fails: "evdi_pcs ob t = Calling \<Longrightarrow> use_import_attach ob \<Longrightarrow> old_step hidden t ob (go t Outside ob)"
| old_import_maps: "evdi_pcs ob t = Calling \<Longrightarrow> use_import_attach ob \<Longrightarrow>
    old_step hidden t ob (go t (Storing a) (call_kernel [Dma_Buf_Vmap a] ob))"
| old_pin_fails: "evdi_pcs ob t = Calling \<Longrightarrow> \<not> use_import_attach ob \<Longrightarrow> old_step hidden t ob (go t Outside ob)"
| old_pins: "evdi_pcs ob t = Calling \<Longrightarrow> \<not> use_import_attach ob \<Longrightarrow>
    old_step hidden t ob (go t Pinned (call_kernel [Pin_Pages] ob))"
| old_vmap_fails: "evdi_pcs ob t = Pinned \<Longrightarrow> old_step hidden t ob (go t Outside (ob\<lparr>vmapping := None\<rparr>))"
| old_vmap_maps: "evdi_pcs ob t = Pinned \<Longrightarrow>
    old_step hidden t ob (go t (Storing a) (call_kernel [Vmap a] ob))"
| old_store: "evdi_pcs ob t = Storing a \<Longrightarrow> old_step hidden t ob (go t Outside (ob\<lparr>vmapping := Some a\<rparr>))"
| old_free: "(\<And>s. evdi_pcs ob s = Outside) \<Longrightarrow> freed_by ob = None \<Longrightarrow>
    old_step hidden t ob (old_unmap hidden (ob\<lparr>freed_by := Some t\<rparr>))"

inductive old_reachable :: "(nat \<Rightarrow> kernel_call list \<times> nat option) \<Rightarrow> bool \<Rightarrow> gem_object \<Rightarrow> bool"
  for hidden imported where
  old_created: "old_reachable hidden imported (new_object imported)"
| old_further: "old_reachable hidden imported ob \<Longrightarrow> old_step hidden t ob ob' \<Longrightarrow> old_reachable hidden imported ob'"

section \<open>Lemmas: the invariant\<close>

text \<open>What the two lines that are not shown have to do: unmap, and set the field to NULL.\<close>

definition hidden_unmaps :: "(nat \<Rightarrow> kernel_call list \<times> nat option) \<Rightarrow> bool" where
  "hidden_unmaps hidden \<longleftrightarrow> (\<forall>a. hidden a = ([Vunmap a], None))"

text \<open>What a mapping at an address has taken.\<close>

definition mapping_use :: "bool \<Rightarrow> nat \<Rightarrow> kernel_use" where
  "mapping_use imported a =
     (if imported then nothing_used\<lparr>dma_maps := {#a#}\<rparr>
      else nothing_used\<lparr>pin_count := 1, local_maps := {#a#}\<rparr>)"

text \<open>What is taken when the thread inside the mutex is at a place.\<close>

fun holding :: "bool \<Rightarrow> nat option \<Rightarrow> evdi_pc \<Rightarrow> kernel_use" where
  "holding imported v Pinned = nothing_used\<lparr>pin_count := 1\<rparr>"
| "holding imported v Unpinning = nothing_used\<lparr>pin_count := 1\<rparr>"
| "holding imported v (Storing a) = mapping_use imported a"
| "holding imported v Clearing = nothing_used"
| "holding imported v pc = (case v of None \<Rightarrow> nothing_used | Some a \<Rightarrow> mapping_use imported a)"

fun critical :: "evdi_pc \<Rightarrow> bool" where
  "critical Outside = False"
| "critical (Entering op) = False"
| "critical pc = True"

text \<open>What a place says about the object.\<close>

fun place_ok :: "bool \<Rightarrow> nat option \<Rightarrow> evdi_pc \<Rightarrow> bool" where
  "place_ok imported v Calling \<longleftrightarrow> v = None"
| "place_ok imported v Pinned \<longleftrightarrow> v = None \<and> \<not> imported"
| "place_ok imported v (Storing a) \<longleftrightarrow> v = None"
| "place_ok imported v Clearing \<longleftrightarrow> v \<noteq> None \<and> imported"
| "place_ok imported v Unpinning \<longleftrightarrow> v = None \<and> \<not> imported"
| "place_ok imported v (Leaving Gem_Vmap ret) \<longleftrightarrow> (ret = 0 \<longleftrightarrow> v \<noteq> None)"
| "place_ok imported v (Leaving Gem_Vunmap ret) \<longleftrightarrow> v = None \<and> ret = 0"
| "place_ok imported v pc \<longleftrightarrow> True"

definition inside_pc :: "gem_object \<Rightarrow> evdi_pc" where
  "inside_pc ob = (case vmap_lock ob of None \<Rightarrow> Outside | Some t \<Rightarrow> evdi_pcs ob t)"

fun unmapping :: "evdi_pc \<Rightarrow> bool" where
  "unmapping (Entering op) \<longleftrightarrow> op = Gem_Vunmap"
| "unmapping (Inside op) \<longleftrightarrow> op = Gem_Vunmap"
| "unmapping (Leaving op ret) \<longleftrightarrow> op = Gem_Vunmap"
| "unmapping Clearing \<longleftrightarrow> True"
| "unmapping Unpinning \<longleftrightarrow> True"
| "unmapping pc \<longleftrightarrow> False"

definition evdi_inv :: "gem_object \<Rightarrow> bool" where
  "evdi_inv ob \<longleftrightarrow>
     (\<forall>t. critical (evdi_pcs ob t) \<longleftrightarrow> vmap_lock ob = Some t)
     \<and> place_ok (use_import_attach ob) (vmapping ob) (inside_pc ob)
     \<and> kernel_used ob = Some (holding (use_import_attach ob) (vmapping ob) (inside_pc ob))
     \<and> (case freed_by ob of None \<Rightarrow> True
        | Some f \<Rightarrow> (\<forall>t. t \<noteq> f \<longrightarrow> evdi_pcs ob t = Outside)
            \<and> (if evdi_pcs ob f = Outside then vmapping ob = None else unmapping (evdi_pcs ob f)))"

lemma new_object_inv: "evdi_inv (new_object imported)"
  by (simp add: evdi_inv_def new_object_def inside_pc_def)

text \<open>A thread inside the mutex is the one that holds it.\<close>

lemma inside_pc_critical: "evdi_inv ob \<Longrightarrow> critical (evdi_pcs ob t) \<Longrightarrow> inside_pc ob = evdi_pcs ob t"
  by (simp add: evdi_inv_def inside_pc_def)

lemma account_use:
  "account_all [] used = used"
  "account_all (c # cs) (Some u) = account_all cs (account c u)"
  by (simp_all add: account_all_def)

text \<open>A step of the holder that stays inside: only the place, the field and the count change.\<close>

lemma evdi_inv_move:
  assumes "evdi_inv ob" and "critical (evdi_pcs ob t)"
    and "\<And>s. s \<noteq> t \<Longrightarrow> evdi_pcs ob' s = evdi_pcs ob s" and "critical (evdi_pcs ob' t)"
    and "vmap_lock ob' = vmap_lock ob" and "freed_by ob' = freed_by ob"
    and "use_import_attach ob' = use_import_attach ob"
    and "place_ok (use_import_attach ob) (vmapping ob') (evdi_pcs ob' t)"
    and "kernel_used ob' = Some (holding (use_import_attach ob) (vmapping ob') (evdi_pcs ob' t))"
    and "unmapping (evdi_pcs ob t) \<Longrightarrow> unmapping (evdi_pcs ob' t)"
  shows "evdi_inv ob'"
proof -
  have lock: "vmap_lock ob = Some t" using assms(1,2) by (simp add: evdi_inv_def)
  moreover have "critical (evdi_pcs ob' s) \<longleftrightarrow> vmap_lock ob = Some s" for s
    using assms(1,3,4) lock by (cases "s = t") (auto simp: evdi_inv_def)
  moreover have "case freed_by ob of None \<Rightarrow> True | Some f \<Rightarrow> (\<forall>s. s \<noteq> f \<longrightarrow> evdi_pcs ob' s = Outside)
      \<and> (if evdi_pcs ob' f = Outside then vmapping ob' = None else unmapping (evdi_pcs ob' f))"
  proof (cases "freed_by ob")
    case (Some f)
    then have "t \<noteq> f \<Longrightarrow> evdi_pcs ob t = Outside" using assms(1) by (simp add: evdi_inv_def)
    then have "f = t" using assms(2) by fastforce
    moreover have "evdi_pcs ob t \<noteq> Outside" "evdi_pcs ob' t \<noteq> Outside" using assms(2,4) by auto
    ultimately show ?thesis using Some assms(1,3,10) by (simp add: evdi_inv_def)
  qed simp
  ultimately show ?thesis using assms(5-9) by (simp add: evdi_inv_def inside_pc_def)
qed

lemma evdi_step_frame:
  assumes "evdi_step hidden t ob ob'" and "critical (evdi_pcs ob t)" and "critical (evdi_pcs ob' t)"
  shows "(\<forall>s. s \<noteq> t \<longrightarrow> evdi_pcs ob' s = evdi_pcs ob s) \<and> vmap_lock ob' = vmap_lock ob \<and> freed_by ob' = freed_by ob
    \<and> use_import_attach ob' = use_import_attach ob
    \<and> (unmapping (evdi_pcs ob t) \<longrightarrow> unmapping (evdi_pcs ob' t))"
  using assms by (elim evdi_step_cases) auto

lemma evdi_step_inside:
  assumes "evdi_step hidden t ob ob'" and "critical (evdi_pcs ob t)" and "critical (evdi_pcs ob' t)"
    and "hidden_unmaps hidden"
    and "place_ok (use_import_attach ob) (vmapping ob) (evdi_pcs ob t)"
    and "kernel_used ob = Some (holding (use_import_attach ob) (vmapping ob) (evdi_pcs ob t))"
  shows "place_ok (use_import_attach ob) (vmapping ob') (evdi_pcs ob' t)
    \<and> kernel_used ob' = Some (holding (use_import_attach ob) (vmapping ob') (evdi_pcs ob' t))"
  using assms
  by (elim evdi_step_cases)
    (auto simp: account_use mapping_use_def nothing_used_def hidden_unmaps_def ENOMEM_def)

lemma evdi_step_inv:
  assumes "evdi_step hidden t ob ob'" and "evdi_inv ob" and "hidden_unmaps hidden"
  shows "evdi_inv ob'"
proof (cases "critical (evdi_pcs ob t) \<and> critical (evdi_pcs ob' t)")
  case True
  then have c: "critical (evdi_pcs ob t)" "critical (evdi_pcs ob' t)" by simp_all
  then have "inside_pc ob = evdi_pcs ob t" using inside_pc_critical [OF assms(2)] by simp
  with assms(2) have "place_ok (use_import_attach ob) (vmapping ob) (evdi_pcs ob t)"
    and "kernel_used ob = Some (holding (use_import_attach ob) (vmapping ob) (evdi_pcs ob t))"
    by (simp_all add: evdi_inv_def)
  from evdi_step_inside [OF assms(1) c assms(3) this] evdi_step_frame [OF assms(1) c] c
  show ?thesis by (intro evdi_inv_move [OF assms(2), of t]) simp_all
next
  case False
  have own: "vmap_lock ob = Some t \<longleftrightarrow> critical (evdi_pcs ob t)" using assms(2) by (simp add: evdi_inv_def)
  from assms(1) show ?thesis
  proof cases
    case (mutex_unlock op ret)
    from assms(2) have inv: "\<And>s. critical (evdi_pcs ob s) \<longleftrightarrow> vmap_lock ob = Some s"
      and freed: "\<And>f s. freed_by ob = Some f \<Longrightarrow> s \<noteq> f \<Longrightarrow> evdi_pcs ob s = Outside"
        "\<And>f. freed_by ob = Some f \<Longrightarrow> evdi_pcs ob f \<noteq> Outside \<Longrightarrow> unmapping (evdi_pcs ob f)"
      by (auto simp: evdi_inv_def)
    have lock: "vmap_lock ob = Some t" using inv [of t] mutex_unlock(2) by simp
    then have crit: "\<not> critical (evdi_pcs ob' s)" for s
      using inv [of s] by (simp add: mutex_unlock(1))
    have inside: "inside_pc ob = Leaving op ret" using inside_pc_critical [OF assms(2), of t] mutex_unlock(2) by simp
    have used: "kernel_used ob' = Some (holding (use_import_attach ob') (vmapping ob') Outside)"
      using assms(2) inside by (simp add: evdi_inv_def mutex_unlock(1))
    have free: "f = t \<and> vmapping ob = None" if "freed_by ob = Some f" for f
    proof -
      have "f = t" using freed(1) [OF that, of t] mutex_unlock(2) by fastforce
      moreover from this have "op = Gem_Vunmap" using freed(2) [OF that] mutex_unlock(2) by simp
      ultimately show ?thesis using assms(2) inside by (simp add: evdi_inv_def)
    qed
    show ?thesis
      unfolding evdi_inv_def using crit used free freed(1)
      by (auto simp: mutex_unlock(1) inside_pc_def split: option.split)
  qed (use False own assms(2) in \<open>auto simp: evdi_inv_def inside_pc_def split: option.splits\<close>)
qed

lemma evdi_reachable_inv:
  "evdi_reachable hidden imported ob \<Longrightarrow> hidden_unmaps hidden \<Longrightarrow> evdi_inv ob \<and> use_import_attach ob = imported"
proof (induction rule: evdi_reachable.induct)
  case created
  then show ?case using new_object_inv by (simp add: new_object_def)
next
  case (further ob t ob')
  have "use_import_attach ob' = use_import_attach ob" using further.hyps(2) by (elim evdi_step_cases) simp_all
  then show ?case using further evdi_step_inv by simp
qed

lemma outside_holds_nothing:
  assumes "evdi_inv ob" and "\<And>t. evdi_pcs ob t = Outside"
  shows "kernel_used ob = Some (case vmapping ob of None \<Rightarrow> nothing_used
    | Some a \<Rightarrow> mapping_use (use_import_attach ob) a)"
proof -
  have "vmap_lock ob \<noteq> Some t" for t using assms by (auto simp: evdi_inv_def dest: spec [of _ t])
  then have "vmap_lock ob = None" by (cases "vmap_lock ob") blast+
  then have "inside_pc ob = Outside" by (simp add: inside_pc_def)
  then show ?thesis using assms(1) by (simp add: evdi_inv_def)
qed

text \<open>No thread waits forever: while a call is under way, some thread inside the mutex can go on, or the
  mutex is free and whoever waits for it can take it.\<close>

lemma evdi_progress:
  assumes "evdi_reachable hidden imported ob" and "hidden_unmaps hidden" and "evdi_pcs ob t \<noteq> Outside"
  shows "\<exists>s ob'. evdi_pcs ob s \<noteq> Outside \<and> evdi_step hidden s ob ob'"
proof (cases "vmap_lock ob")
  case None
  then have "\<not> critical (evdi_pcs ob t)" using evdi_reachable_inv [OF assms(1,2)] by (simp add: evdi_inv_def)
  then obtain op where "evdi_pcs ob t = Entering op" using assms(3) by (cases "evdi_pcs ob t") auto
  then show ?thesis using evdi_step.mutex_lock [OF _ None] assms(3) by blast
next
  case (Some s)
  then have "critical (evdi_pcs ob s)" using evdi_reachable_inv [OF assms(1,2)] by (simp add: evdi_inv_def)
  moreover from this have "\<exists>ob'. evdi_step hidden s ob ob'"
  proof (cases "evdi_pcs ob s")
    case (Inside op)
    then show ?thesis
      by (cases op; cases "vmapping ob"; cases "use_import_attach ob")
        (metis evdi_step.intros surj_pair option.distinct(1))+
  next
    case Calling
    then show ?thesis by (cases "use_import_attach ob") (blast intro: evdi_step.intros)+
  qed (auto intro: evdi_step.intros)
  ultimately show ?thesis by (metis critical.simps(1))
qed

section \<open>Lemmas: the race before the patch\<close>

text \<open>Two threads both see NULL and both map the dma-buf of an imported object; freeing releases one of
  the two references, and one is left.\<close>

lemma old_race:
  "\<exists>ob. old_reachable hidden True ob \<and> freed_by ob = Some 0 \<and> (\<forall>t. evdi_pcs ob t = Outside)
     \<and> kernel_used ob = Some (nothing_used\<lparr>dma_maps := {#a#}\<rparr>)"
proof -
  let ?o = "new_object True" and ?s = "old_reachable hidden True"
  define o1 where "o1 = go 0 Calling (go 0 (Entering Gem_Vmap) ?o)"
  define o2 where "o2 = go 1 Calling (go 1 (Entering Gem_Vmap) o1)"
  define o3 where "o3 = go 0 Outside ((go 0 (Storing a) (call_kernel [Dma_Buf_Vmap a] o2))\<lparr>vmapping := Some a\<rparr>)"
  define o4 where "o4 = go 1 Outside ((go 1 (Storing a) (call_kernel [Dma_Buf_Vmap a] o3))\<lparr>vmapping := Some a\<rparr>)"
  have "?s (go 0 (Entering Gem_Vmap) ?o)"
    by (rule old_further [OF old_created old_use [of _ 0]]) (simp_all add: new_object_def)
  then have "?s o1" unfolding o1_def
    by (rule old_further [OF _ old_not_mapped [of _ 0]]) (simp_all add: new_object_def)
  then have "?s (go 1 (Entering Gem_Vmap) o1)"
    by (rule old_further [OF _ old_use [of _ 1]]) (simp_all add: o1_def new_object_def)
  then have "?s o2" unfolding o2_def
    by (rule old_further [OF _ old_not_mapped [of _ 1]]) (simp_all add: o1_def new_object_def)
  then have "?s (go 0 (Storing a) (call_kernel [Dma_Buf_Vmap a] o2))"
    by (rule old_further [OF _ old_import_maps [of _ 0]]) (simp_all add: o2_def o1_def new_object_def)
  then have "?s o3" unfolding o3_def
    by (rule old_further [OF _ old_store [of _ 0]]) simp
  then have "?s (go 1 (Storing a) (call_kernel [Dma_Buf_Vmap a] o3))"
    by (rule old_further [OF _ old_import_maps [of _ 1]]) (simp_all add: o3_def o2_def o1_def new_object_def)
  then have "?s o4" unfolding o4_def
    by (rule old_further [OF _ old_store [of _ 1]]) simp
  then have "?s (old_unmap hidden (o4\<lparr>freed_by := Some 0\<rparr>))"
    by (rule old_further [OF _ old_free [of _ hidden 0]])
      (simp_all add: o4_def o3_def o2_def o1_def new_object_def)
  then show ?thesis
    by (rule exI [where x = "old_unmap hidden (o4\<lparr>freed_by := Some 0\<rparr>)", OF conjI])
      (simp add: old_unmap_def o4_def o3_def o2_def o1_def new_object_def account_use nothing_used_def)
qed

text \<open>A local object whose \<open>vmap\<close> fails keeps its pages pinned, and freeing it does not unpin them.\<close>

lemma old_pin_leak:
  "\<exists>ob. old_reachable hidden False ob \<and> freed_by ob = Some 0 \<and> (\<forall>t. evdi_pcs ob t = Outside)
     \<and> kernel_used ob = Some (nothing_used\<lparr>pin_count := 1\<rparr>)"
proof -
  let ?o = "new_object False" and ?s = "old_reachable hidden False"
  define o1 where "o1 = go 0 Calling (go 0 (Entering Gem_Vmap) ?o)"
  define o2 where "o2 = go 0 Outside ((go 0 Pinned (call_kernel [Pin_Pages] o1))\<lparr>vmapping := None\<rparr>)"
  have "?s (go 0 (Entering Gem_Vmap) ?o)"
    by (rule old_further [OF old_created old_use [of _ 0]]) (simp_all add: new_object_def)
  then have "?s o1" unfolding o1_def
    by (rule old_further [OF _ old_not_mapped [of _ 0]]) (simp_all add: new_object_def)
  then have "?s (go 0 Pinned (call_kernel [Pin_Pages] o1))"
    by (rule old_further [OF _ old_pins [of _ 0]]) (simp_all add: o1_def new_object_def)
  then have "?s o2" unfolding o2_def
    by (rule old_further [OF _ old_vmap_fails [of _ 0]]) simp
  then have "?s (old_unmap hidden (o2\<lparr>freed_by := Some 0\<rparr>))"
    by (rule old_further [OF _ old_free [of _ hidden 0]]) (simp_all add: o2_def o1_def new_object_def)
  then show ?thesis
    by (rule exI [where x = "old_unmap hidden (o2\<lparr>freed_by := Some 0\<rparr>)", OF conjI])
      (simp add: old_unmap_def o2_def o1_def new_object_def account_use nothing_used_def)
qed

section \<open>A run for the witness\<close>

text \<open>Thread 1 maps an imported object; thread 0 frees it.\<close>

lemma sample_mapped:
  "\<exists>ob. evdi_reachable hidden True ob \<and> use_import_attach ob \<and> vmap_lock ob = None \<and> freed_by ob = None
     \<and> vmapping ob = Some a \<and> (\<forall>t. evdi_pcs ob t = Outside)"
proof -
  let ?o = "new_object True" and ?s = "evdi_reachable hidden True"
  define o1 where "o1 = go 1 (Inside Gem_Vmap) ((go 1 (Entering Gem_Vmap) ?o)\<lparr>vmap_lock := Some 1\<rparr>)"
  define o2 where "o2 = go 1 (Storing a) (call_kernel [Dma_Buf_Vmap a] (go 1 Calling o1))"
  define o3 where "o3 = go 1 Outside ((go 1 (Leaving Gem_Vmap 0) (o2\<lparr>vmapping := Some a\<rparr>))\<lparr>vmap_lock := None\<rparr>)"
  have "?s (go 1 (Entering Gem_Vmap) ?o)"
    by (rule further [OF created use [of _ 1]]) (simp_all add: new_object_def)
  then have "?s o1" unfolding o1_def
    by (rule further [OF _ mutex_lock [of _ 1]]) (simp_all add: new_object_def)
  then have "?s (go 1 Calling o1)"
    by (rule further [OF _ not_mapped [of _ 1]]) (simp_all add: o1_def new_object_def)
  then have "?s o2" unfolding o2_def
    by (rule further [OF _ import_maps [of _ 1]]) (simp_all add: o1_def new_object_def)
  then have "?s (go 1 (Leaving Gem_Vmap 0) (o2\<lparr>vmapping := Some a\<rparr>))"
    by (rule further [OF _ store [of _ 1]]) (simp add: o2_def)
  then have "?s o3" unfolding o3_def
    by (rule further [OF _ mutex_unlock [of _ 1]]) simp
  then show ?thesis
    by (rule exI [where x = o3, OF conjI]) (simp add: o3_def o2_def o1_def new_object_def)
qed

lemma sample_freed:
  "\<exists>ob. evdi_reachable hidden True ob \<and> freed_by ob = Some 0 \<and> (\<forall>t. evdi_pcs ob t = Outside)"
proof -
  let ?s = "evdi_reachable hidden True"
  obtain ob where ob: "?s ob" "use_import_attach ob" "vmap_lock ob = None" "freed_by ob = None"
    "vmapping ob = Some 7" "\<And>t. evdi_pcs ob t = Outside"
    using sample_mapped [of hidden 7] by blast
  define o1 where "o1 = go 0 (Entering Gem_Vunmap) (ob\<lparr>freed_by := Some 0\<rparr>)"
  define o2 where "o2 = go 0 (Inside Gem_Vunmap) (o1\<lparr>vmap_lock := Some 0\<rparr>)"
  define o3 where "o3 = go 0 Clearing (call_kernel [Dma_Buf_Vunmap 7] o2)"
  define o4 where "o4 = go 0 Outside ((go 0 (Leaving Gem_Vunmap 0) (o3\<lparr>vmapping := None\<rparr>))\<lparr>vmap_lock := None\<rparr>)"
  have "?s o1" unfolding o1_def by (rule further [OF ob(1) free_object [of _ hidden 0]]) (simp_all add: ob)
  then have "?s o2" unfolding o2_def by (rule further [OF _ mutex_lock [of _ 0]]) (simp_all add: o1_def ob)
  then have "?s o3" unfolding o3_def by (rule further [OF _ import_unmaps [of _ 0]]) (simp_all add: o2_def o1_def ob)
  then have "?s (go 0 (Leaving Gem_Vunmap 0) (o3\<lparr>vmapping := None\<rparr>))"
    by (rule further [OF _ clear [of _ 0]]) (simp add: o3_def)
  then have "?s o4" unfolding o4_def by (rule further [OF _ mutex_unlock [of _ 0]]) simp
  then show ?thesis
    by (rule exI [where x = o4, OF conjI]) (simp add: o4_def o3_def o2_def o1_def ob)
qed

section \<open>Property\<close>

text \<open>C15: the patched mapping is balanced in every interleaving. Whatever the kernel answers and however
  any number of threads map and unmap, an object with no thread in a call has taken exactly the
  references of its one mapping, or none when \<open>vmapping\<close> is NULL; nothing is released twice; a call
  of \<open>evdi_gem_vmap\<close> that is about to return 0 has a mapping in place, so the painter needs no second check; and
  when the object has been freed nothing is left, so that the final release of its dma-buf finds the
  count zero.\<close>

theorem vmap_balanced:
  assumes "evdi_reachable hidden imported ob" and "hidden_unmaps hidden"
  shows "kernel_used ob \<noteq> None
    \<and> ((\<forall>t. evdi_pcs ob t = Outside) \<longrightarrow>
        kernel_used ob = Some (case vmapping ob of None \<Rightarrow> nothing_used | Some a \<Rightarrow> mapping_use imported a))
    \<and> (\<forall>t ret. evdi_pcs ob t = Leaving Gem_Vmap ret \<longrightarrow> (grabpix_mapping ret = 0 \<longleftrightarrow> vmapping ob \<noteq> None))
    \<and> (freed_by ob \<noteq> None \<and> (\<forall>t. evdi_pcs ob t = Outside) \<longrightarrow> kernel_used ob = Some nothing_used)"
proof -
  from evdi_reachable_inv [OF assms] have inv: "evdi_inv ob" and imported: "use_import_attach ob = imported"
    by simp_all
  have "grabpix_mapping ret = 0 \<longleftrightarrow> vmapping ob \<noteq> None" if "evdi_pcs ob t = Leaving Gem_Vmap ret" for t ret
  proof -
    have "inside_pc ob = Leaving Gem_Vmap ret" using inside_pc_critical [OF inv, of t] that by simp
    then show ?thesis using inv by (simp add: evdi_inv_def grabpix_mapping_def EFAULT_def)
  qed
  moreover have "vmapping ob = None" if "freed_by ob \<noteq> None" "\<forall>t. evdi_pcs ob t = Outside"
    using inv that by (auto simp: evdi_inv_def)
  moreover have "kernel_used ob \<noteq> None" using inv by (simp add: evdi_inv_def)
  ultimately show ?thesis using outside_holds_nothing [OF inv] imported by auto
qed

theorem vmap_balanced_witness:
  "(\<exists>ob. evdi_reachable (\<lambda>a. ([Vunmap a], None)) True ob \<and> vmapping ob = Some 9
      \<and> kernel_used ob = Some (mapping_use True 9))
   \<and> (\<exists>ob. evdi_reachable (\<lambda>a. ([Vunmap a], None)) True ob \<and> freed_by ob = Some 0
      \<and> kernel_used ob = Some nothing_used)"
proof
  let ?hidden = "\<lambda>a. ([Vunmap a], None)"
  have h: "hidden_unmaps ?hidden" by (simp add: hidden_unmaps_def)
  obtain ob where ob: "evdi_reachable ?hidden True ob" "vmapping ob = Some 9" "\<forall>t. evdi_pcs ob t = Outside"
    using sample_mapped [of ?hidden 9] by blast
  from vmap_balanced [OF ob(1) h] ob(2,3) have "kernel_used ob = Some (mapping_use True 9)" by simp
  with ob show "\<exists>ob. evdi_reachable ?hidden True ob \<and> vmapping ob = Some 9
      \<and> kernel_used ob = Some (mapping_use True 9)" by blast
  obtain ob' where ob': "evdi_reachable ?hidden True ob'" "freed_by ob' = Some 0" "\<forall>t. evdi_pcs ob' t = Outside"
    using sample_freed [of ?hidden] by blast
  from vmap_balanced [OF ob'(1) h] ob'(2,3) have "kernel_used ob' = Some nothing_used" by blast
  with ob' show "\<exists>ob. evdi_reachable ?hidden True ob \<and> freed_by ob = Some 0
      \<and> kernel_used ob = Some nothing_used" by blast
qed

end
