(* ===== verification/Spec2Isabelle.thy ===== *)
theory Spec2Isabelle
  imports Scenario_Tests Roundtrip_Test Guard_Tests C_Layout Daemon_Main Probe_Tool Evdi_Vmap
begin

text \<open>
  Verification of the SM768 USB display tools
  ===========================================

  The Rust program under \<open>src/rust/src/\<close> (\<open>smiusbd-rs\<close>) observes an SM768 USB display adapter without
  opening it, decodes captured packets, and runs the capture-to-encoder pipeline on a test pattern
  without sending anything. Beside it stand three smaller programs under \<open>src/src/\<close>: the preload guard
  that protects the vendor's daemon from calls on a missing device (C), an observing daemon with a
  session manager (C++), and a probe that prints descriptors (C). A patch under \<open>src/kernel/\<close> changes the
  EVDI kernel module. This development models all of the code of the programs, their tests, and the
  functions that the patch changes, and proves what makes each part correct.

  \<^bold>\<open>Conventions.\<close> A \<open>Result\<close> is \<open>('a, 'e) outcome\<close> with a third value \<open>Panic\<close> for everything that
  unwinds: an index or slice out of range, a failed \<open>expect\<close>, an unchecked overflow, a division by
  zero. \<open>usize\<close> is \<open>nat\<close> with the bound \<open>usize_max\<close> (64-bit target) written out where the code
  checks or computes; \<open>u8\<close> to \<open>u64\<close> are words. A \<open>str\<close> is the list of its UTF-8 bytes. Loops are
  structural recursion over the sequence they run over, or functions with a termination proof;
  only the polling loops of the observer, the C++ daemon and the probe may run forever; they are
  \<open>partial_function\<close>s whose value is \<open>None\<close> when they do. No fuel is used. In the C and C++ programs a
  pointer that may be NULL is an \<open>option\<close>, and a call returns, ends the process or is undefined
  (\<open>'a run\<close>). Code outside \<open>src/\<close> is a parameter: libusb, TurboJPEG, the allocator,
  the file system, running \<open>gdbus\<close>, the clock, sleeping and signals, and the Unicode table of printable
  characters, the dynamic linker, the environment, \<open>malloc\<close> and the vendor's hotplug callback. What a
  property needs of them is a named hypothesis (\<open>reads_devices\<close>, \<open>writes_in_bounds\<close>,
  \<open>same_on_contract\<close>, \<open>clock_advances\<close>, \<open>outside_answers\<close>, \<open>same_on_handles\<close>, \<open>all_linked\<close>,
  \<open>fence_set\<close>, \<open>fence_clear\<close>, \<open>agree_but_detach\<close>, \<open>keeps_fence\<close>, \<open>encoding_library\<close>, \<open>probe_contract\<close>,
  \<open>probe_clock\<close>, \<open>daemon_clock\<close>, \<open>decodes_closely\<close>, \<open>hidden_unmaps\<close>) with an instance for which it holds.

  \<^bold>\<open>The theories and the code.\<close>

  \<^item> \<open>Rust_Prelude\<close>: outcomes, checked and unchecked arithmetic, slices, loops and byte codecs of the
    language and its standard library; the contracts \<open>byte_codec\<close> (interpreted for each integer
    width) and \<open>strict_decoder\<close> (interpreted for every parser below that has an exact layout).
  \<^item> \<open>Rust_Text\<close>: printing and parsing of numbers, UTF-8 decoding and its lossy variant, \<open>{:?}\<close>.
  \<^item> \<open>Console\<close>: commands that print lines and end with a result.
  \<^item> \<open>Wire\<close> (\<open>protocol.rs\<close>): constants, header, canonical request, acknowledgement, request builders,
    mode table. Each parser accepts exactly its byte layout; builders and parsers are inverse.
  \<^item> \<open>Jpeg_Stream\<close> (\<open>protocol.rs\<close>, \<open>parse_jpeg_end\<close>): the marker walk, against an independent grammar
    of JPEG streams given by syntax trees and a printer. The walk accepts exactly the printed streams
    and ends on every input; the contract \<open>prefix_parser\<close> gives that it depends on the stream alone.
  \<^item> \<open>Envelope\<close> (\<open>protocol.rs\<close>, \<open>align_payload_length\<close>, \<open>parse_frame_envelope\<close>): frame packets are
    accepted exactly when they have the layout; cut or extended packets are refused.
  \<^item> \<open>Frames\<close> (\<open>frame.rs\<close>): layouts, frames, the test pattern pixel by pixel, the FNV checksum.
  \<^item> \<open>Pipeline\<close> (\<open>frame.rs\<close>, \<open>FramePipeline\<close>): every operation on the state, then threads whose calls
    interleave at the mutex, the generation check and the sink closure, as a step relation with
    mutex poisoning. Every interleaving is an atomic sequential run of the calls, the gate never lets
    stale work through, no thread blocks forever, and the queue keeps its invariant, its order and its
    count; the contract \<open>drop_oldest_queue\<close> gives that a burst keeps the newest frames.
  \<^item> \<open>Compressor\<close> (\<open>jpeg.rs\<close>): the TurboJPEG boundary. Calls stay within the C contract, buffers stay
    bounded, and only streams with both JPEG markers are returned.
  \<^item> \<open>Usb_Devices\<close> (\<open>usb.rs\<close>): context, device list and the ordered map of adapters; the contract
    \<open>ordered_map\<close> is interpreted for the map. The enumeration reports exactly the attached adapters.
  \<^item> \<open>Screen_Cast\<close> (\<open>screencast.rs\<close>): the version query and the grammar of its answer.
  \<^item> \<open>Hex_Input\<close> (\<open>main.rs\<close>, \<open>parse_hex\<close>, \<open>read_hex_text\<close>, \<open>read_hex_file\<close>): exact grammar of the
    hexadecimal text and the bound on what is read.
  \<^item> \<open>Cli_Args\<close> (\<open>main.rs\<close>, \<open>parse_args\<close>, \<open>parse_pattern_args\<close>): exact grammar of the arguments.
  \<^item> \<open>Decode_Command\<close> (\<open>main.rs\<close>, \<open>decode\<close>, \<open>print_protocol_info\<close>): which packets are accepted, that
    guessing the endpoint's packet size loses no frame, and that printed packets decode.
  \<^item> \<open>Observer\<close> (\<open>main.rs\<close>, \<open>observe\<close>): one poll reports exactly the difference of two device maps, the
    log of any run replays, and with a duration the loop returns.
  \<^item> \<open>Simulation\<close> (\<open>main.rs\<close>, \<open>simulate_pattern\<close>): the composition of layout, pipeline, test pattern,
    compressor and gate, with the exact transcript of a dry run and the possible ends of an
    encoding run.
  \<^item> \<open>Program\<close> (\<open>main.rs\<close>, \<open>print_screen_cast_version\<close>, \<open>main\<close>): dispatch, streams and exit status.

  \<^item> \<open>Protocol_Tests\<close> (the \<open>tests\<close> module of \<open>protocol.rs\<close>) and \<open>Component_Tests\<close> (those of \<open>frame.rs\<close>, \<open>jpeg.rs\<close>,
    \<open>main.rs\<close>, \<open>usb.rs\<close> and \<open>screencast.rs\<close>): each unit test as a Boolean definition of the same name over the
    model, and that all of them hold. They tie the definitions to the inputs and results that the
    repository itself expects of the code.
  \<^item> \<open>Scenario_Tests\<close> (two tests of \<open>frame.rs\<close>): the large test patterns, whose digests \<open>Pattern_Digest\<close> tells
    apart by their lowest bit, and the test with two threads and three channels, as a step relation
    over the threads of \<open>Pipeline\<close> that is examined in every interleaving.
  \<^item> \<open>Roundtrip_Test\<close> (\<open>jpeg.rs\<close>): encoding twice and decoding, for a decoder that stays close to the source.

  \<^item> \<open>C_Runtime\<close>: calls that may end the process, \<open>snprintf\<close>, \<open>strtoul\<close>, \<open>atoi\<close>, libusb result codes, and
    the passing of time.
  \<^item> \<open>Transfer_Guard\<close> (\<open>smiusb_guard.c\<close>): the interposed functions over the guard's static variables and
    the memory of the caller. libusb is never entered with a NULL handle; with the fence on the
    client never sees the loss of the device; with it off the guard is transparent; the departure of
    an adapter never reaches the vendor's callback, also during a registration, where libusb may call
    back any number of times (\<open>register_run\<close>).
  \<^item> \<open>Session_Manager\<close> (\<open>smiusbd.cpp\<close>, \<open>DeviceSession\<close>, \<open>SessionManager\<close>): the operations on the members,
    then the worker and any number of client threads as a step relation over the mutex and the
    condition variable, with spurious wakeups, and its equivalent \<open>actor_step\<close>, which runs schedules.
    Every libusb call is recorded; in every interleaving the references and open handles are exactly
    those of the queue, the threads and the sessions, no wakeup is lost, a stop request is served,
    events are handled in order, and sessions have distinct generations.
  \<^item> \<open>Daemon_Main\<close> (\<open>smiusbd.cpp\<close>, \<open>parse_options\<close>, \<open>hotplug_callback\<close>, \<open>main\<close>): the calls of the main thread,
    composed with the threads of \<open>Session_Manager\<close>: libusb is left clean before \<open>libusb_exit\<close>.
  \<^item> \<open>Probe_Tool\<close> (\<open>smiusb_probe.c\<close>): the printed lines and the resources; the probe stays within
    the descriptor arrays and releases everything whatever the clock does, and it ends when time passes,
    although the system clock counts whole seconds and may be set back.
  \<^item> \<open>Guard_Tests\<close> (\<open>tests/null_transfer_test.c\<close>, \<open>tests/restart_fence_test.c\<close>): the programs that test the
    guard, run on its model, with the process that one of them forks.
  \<^item> \<open>C_Layout\<close> (\<open>protocol.h\<close>, \<open>tests/protocol_layout_test.c\<close>, the descriptor of \<open>usb.rs\<close>): sizes and offsets of C
    structures, and that the Rust parser reads the packed header of the C side.
  \<^item> \<open>Evdi_Vmap\<close> (\<open>kernel/evdi/patches/0001-serialize-persistent-vmap.patch\<close>): threads that map and unmap a
    graphics buffer. After the patch the references are balanced in every interleaving; before it an
    interleaving leaves one behind.

  This theory holds the properties of the whole Rust program.

  \<^bold>\<open>Modelling decisions.\<close> Where a function of the source is split (\<open>envelope_payload\<close>, \<open>poll\<close> and
  \<open>turn\<close>, \<open>capture_frame\<close>, \<open>consume_frame\<close> and others), the pieces are consecutive passages of it,
  composed in the source's order. \<open>observe\<close> produces events that \<open>event_line\<close> turns into the printed lines.
  A \<open>BTreeMap\<close> is the list of its entries in key order. A reader is the bytes it delivers and the
  error that may follow. A \<open>Vec\<close> carries its capacity only where the code reads it. Standard output
  and standard error accept every line. Memory that the standard library allocates
  infallibly (vectors that grow by \<open>push\<close>, \<open>format!\<close>) is taken to be available.

  \<^bold>\<open>Not modelled.\<close> The unit tests of the \<open>Send\<close> and \<open>Sync\<close> bounds, which only the compiler checks; the
  \<open>extern\<close> declarations, which are the parameters; the text of a panic message; the memory ordering of the
  stop flags, whose value the host parameter delivers. Calls into the guard are taken one at a time:
  what threads share there are an atomic counter and a flag that is computed from the environment; a
  hotplug callback that libusb runs while a synchronous transfer waits is left out.
  Memory that \<open>std::make_unique\<close> and the containers of C++ allocate is taken to be available, and the
  order in which C++ evaluates the arguments of a \<open>fprintf\<close> is taken to be that of the text. Of the kernel
  module only what the patch shows is modelled; two lines in its midst that it does not show are a
  parameter, and the variants for other kernel versions are left out. The
  shell scripts and the packaging copy files and configure services; they compute nothing.
\<close>

section \<open>A system for the witnesses\<close>

definition sample_system :: "bytes \<Rightarrow> nat system" where
  "sample_system packet =
     \<lparr>sys_printable = (\<lambda>_. True),
      sys_files = \<lparr>stdin_reader = \<lparr>read_bytes = ascii (hex_text packet), read_error = None\<rparr>,
        file_open = (\<lambda>path. Err ''No such file or directory (os error 2)'')\<rparr>,
      sys_run = (\<lambda>name args. Err ''No such file or directory (os error 2)''),
      sys_alloc = (\<lambda>n. True), sys_libusb = clock_libusb, sys_host = clock_host,
      sys_turbojpeg = stub_turbojpeg\<rparr>"

lemma sample_system_ok:
  "outside_answers (sample_system packet)" "writes_in_bounds (sys_turbojpeg (sample_system packet))"
  "clock_advances (sys_libusb (sample_system packet)) (sys_host (sample_system packet)) (\<lambda>w. w)"
  using stub_in_bounds clock_host_advances by (simp_all add: outside_answers_def sample_system_def)

section \<open>Properties\<close>

text \<open>C6: the program ends, and ends properly. For arguments that are valid UTF-8, and an outside that
  answers, encodes within its buffer and has a clock that advances, every command line except
  an observation without a duration ends; and every one that does not observe ends with status 0 and
  an empty error stream, with status 1 and one message, or with status 2 for arguments it does
  not understand. No input to an offline command makes the program panic.\<close>

theorem main_ends_properly:
  assumes "outside_answers sys" and "writes_in_bounds (sys_turbojpeg sys)"
    and "clock_advances (sys_libusb sys) (sys_host sys) time"
    and "those (map from_utf8 args) = Some all_args"
    and "parse_args (sys_printable sys) (drop 1 all_args) \<noteq> Ok (Observe None)"
  shows "\<exists>p. main sys args w = Some p
    \<and> ((\<forall>d. parse_args (sys_printable sys) (drop 1 all_args) \<noteq> Ok (Observe d)) \<longrightarrow>
         (proc_status p = 0 \<and> proc_stderr p = []
          \<or> proc_status p = 1 \<and> (\<exists>e. proc_stderr p = [''smiusbd-rs: '' @ e])
          \<or> proc_status p = 2 \<and> proc_stdout p = [] \<and> proc_world p = w
            \<and> (\<exists>e. proc_stderr p = [e] \<and> parse_args (sys_printable sys) (drop 1 all_args) = Err e)))"
proof (cases "parse_args (sys_printable sys) (drop 1 all_args)")
  case (Ok command)
  show ?thesis
  proof (cases "\<exists>d. command = Observe d")
    case True
    then obtain seconds where "command = Observe (Some seconds)" using assms(5) Ok by (metis not_None_eq)
    with observe_with_duration [OF assms(3), of seconds w] Ok assms(4) show ?thesis
      by (auto simp: main_def execute_def)
  next
    case False
    then obtain out r w' where run: "execute sys command w = Some (out, [], r, w')" "r \<noteq> Panic"
      using execute_offline [OF assms(1,2)] by metis
    then have "main sys args w = Some (finish (out, [], r, w'))"
      using Ok assms(4) by (simp add: main_def)
    then show ?thesis using run(2) by (cases r) (simp_all add: finish_def)
  qed
next
  case (Err e)
  then show ?thesis using assms(4) by (simp add: main_def)
next
  case Panic
  with parse_args_no_panic show ?thesis by blast
qed

theorem main_ends_properly_witness:
  "\<exists>p. main (sample_system []) [ascii ''smiusbd-rs'', ascii ''--protocol-info''] 0 = Some p
       \<and> proc_status p \<in> {0, 1, 2}"
proof -
  let ?sys = "sample_system []" and ?args = "[ascii ''smiusbd-rs'', ascii ''--protocol-info'']"
  have args: "those (map from_utf8 ?args) = Some [''smiusbd-rs'', ''--protocol-info'']"
    by (simp add: from_utf8_ascii)
  have parsed: "parse_args (sys_printable ?sys) (drop 1 [''smiusbd-rs'', ''--protocol-info'']) = Ok ProtocolInfo"
    by (simp add: parse_args_def)
  from main_ends_properly [OF sample_system_ok [of "[]"] args, where w = 0] parsed
  show ?thesis by auto
qed

text \<open>C33: a packet reaches the decoder unchanged. Its hexadecimal text, given on the command line or,
  within the size limit, on the standard input, makes the program print what \<open>decode\<close> prints for the
  packet and end with the status of that result.\<close>

theorem main_decodes_packet:
  assumes "from_utf8 name = Some program"
    and "stdin_reader (sys_files sys) = \<lparr>read_bytes = ascii (hex_text p), read_error = None\<rparr>"
    and "2 * length p \<le> MAX_HEX_TEXT_BYTES"
  shows "main sys [name, ascii ''--decode-hex'', ascii (hex_text p)] w
      = Some (finish (fst (decode p), [], snd (decode p), w))
    \<and> main sys [name, ascii ''--decode-hex-file'', ascii ''-''] w
      = Some (finish (fst (decode p), [], snd (decode p), w))"
proof -
  have "from_utf8 (ascii ''--decode-hex'') = Some ''--decode-hex''"
    "from_utf8 (ascii ''--decode-hex-file'') = Some ''--decode-hex-file''"
    "from_utf8 (ascii ''-'') = Some ''-''"
    by (rule from_utf8_ascii, simp)+
  then show ?thesis
    using assms(1) read_stdin_hex_text [OF assms(2,3)]
    by (simp add: main_def from_utf8_hex_text parse_args_decode_hex execute_def case_prod_unfold)
qed

theorem main_decodes_packet_witness:
  "main (sample_system [0x73, 0x6d]) [ascii ''smiusbd-rs'', ascii ''--decode-hex-file'', ascii ''-''] 0
     = Some (finish (fst (decode [0x73, 0x6d]), [], snd (decode [0x73, 0x6d]), 0))"
proof -
  have "from_utf8 (ascii ''smiusbd-rs'') = Some ''smiusbd-rs''" by (rule from_utf8_ascii) simp
  from main_decodes_packet [OF this, of "sample_system [0x73, 0x6d]" "[0x73, 0x6d]" 0]
  show ?thesis by (simp add: sample_system_def MAX_HEX_TEXT_BYTES_def)
qed

end
